(* ===== verification/Rsock_Prelude.thy ===== *)
theory Rsock_Prelude
  imports Main "HOL-Library.Word" "HOL-Library.Monad_Syntax" "HOL-Library.Char_ord"
    "HOL-Library.List_Lexorder"
begin

unbundle bit_operations_syntax

section \<open>Shared vocabulary of the rsock development\<close>

text \<open>
  Machine integers, byte buffers and the collections of simplification rules that the
  component theories share. A C buffer is the list of the bytes it owns. A pointer into it
  is an offset, and every read or write names its range, so that an access outside the
  buffer is the value \<^const>\<open>None\<close> and never an unspecified byte. \<^const>\<open>None\<close> is also
  the result of a failed C \<open>assert\<close>: in both cases the program has no further behaviour.
\<close>

named_theorems buf_simps \<open>reads and writes of byte buffers\<close>
named_theorems wf_intros \<open>preservation of well-formedness invariants\<close>

type_synonym u8 = "8 word"
type_synonym u16 = "16 word"
type_synonym u32 = "32 word"
type_synonym u64 = "64 word"
type_synonym byte = u8
type_synonym buf = "byte list"

subsection \<open>Little-endian digit strings\<close>

primrec nat_to_le :: "nat \<Rightarrow> nat \<Rightarrow> byte list" where
  "nat_to_le 0 v = []"
| "nat_to_le (Suc n) v = of_nat v # nat_to_le n (v div 256)"

primrec le_to_nat :: "byte list \<Rightarrow> nat" where
  "le_to_nat [] = 0"
| "le_to_nat (b # bs) = unat b + 256 * le_to_nat bs"

subsection \<open>Bounded reads and writes\<close>

definition write_bytes :: "buf \<Rightarrow> nat \<Rightarrow> byte list \<Rightarrow> buf option" where
  "write_bytes b p xs =
     (if p + length xs \<le> length b then Some (take p b @ xs @ drop (p + length xs) b) else None)"

definition read_bytes :: "buf \<Rightarrow> nat \<Rightarrow> nat \<Rightarrow> byte list option" where
  "read_bytes b p n = (if p + n \<le> length b then Some (take n (drop p b)) else None)"

text \<open>Copying to a pointer and moving it behind the copy.\<close>

definition put_bytes :: "buf \<Rightarrow> nat \<Rightarrow> byte list \<Rightarrow> (buf \<times> nat) option" where
  "put_bytes b p xs = do { b' \<leftarrow> write_bytes b p xs; Some (b', p + length xs) }"

subsection \<open>Ranges of machine integers\<close>

lemma unat_u8_less: "unat (i :: u8) < 256"
  using unsigned_less [where 'a = nat and w = i] by simp

lemma unat_u16_less: "unat (i :: u16) < 65536"
  using unsigned_less [where 'a = nat and w = i] by simp

lemma unat_u32_less: "unat (i :: u32) < 4294967296"
  using unsigned_less [where 'a = nat and w = i] by simp

lemma unat_u64_less: "unat (i :: u64) < 18446744073709551616"
  using unsigned_less [where 'a = nat and w = i] by simp

subsection \<open>Lemmas on digit strings\<close>

lemma length_nat_to_le [simp]: "length (nat_to_le n v) = n"
  by (induction n arbitrary: v) auto

lemma le_to_nat_to_le [simp]: "le_to_nat (nat_to_le n v) = v mod 256 ^ n"
proof (induction n arbitrary: v)
  case 0
  then show ?case by simp
next
  case (Suc n)
  have "unat (of_nat v :: byte) = v mod 256"
    by (simp add: unat_of_nat)
  with Suc show ?case by (simp add: mod_mult2_eq)
qed

lemma le_to_nat_bound: "le_to_nat bs < 256 ^ length bs"
proof (induction bs)
  case Nil
  then show ?case by simp
next
  case (Cons b bs)
  have "unat b < 256" by (rule unat_u8_less)
  with Cons show ?case by simp
qed

lemma nat_to_le_le_to_nat: "nat_to_le (length bs) (le_to_nat bs) = bs"
proof (induction bs)
  case Nil
  then show ?case by simp
next
  case (Cons b bs)
  have "unat b < 256" by (rule unat_u8_less)
  then have "(unat b + 256 * le_to_nat bs) div 256 = le_to_nat bs" by simp
  moreover have "(of_nat (unat b + 256 * le_to_nat bs) :: byte) = b"
  proof -
    have z: "(256 :: byte) = 0" by code_simp
    show ?thesis unfolding of_nat_add of_nat_mult of_nat_numeral z by simp
  qed
  ultimately show ?case using Cons by (simp del: of_nat_add of_nat_mult)
qed

subsection \<open>Lemmas on bounded reads and writes\<close>

lemma write_bytes_length: "write_bytes b p xs = Some b' \<Longrightarrow> length b' = length b"
  by (auto simp: write_bytes_def split: if_splits)

lemma write_bytes_fits [buf_simps]:
  "p + length xs \<le> length b \<Longrightarrow>
     write_bytes b p xs = Some (take p b @ xs @ drop (p + length xs) b)"
  by (simp add: write_bytes_def)

lemma read_bytes_fits [buf_simps]:
  "p + n \<le> length b \<Longrightarrow> read_bytes b p n = Some (take n (drop p b))"
  by (simp add: read_bytes_def)

lemma read_bytes_length: "read_bytes b p n = Some xs \<Longrightarrow> length xs = n"
  by (auto simp: read_bytes_def split: if_splits)

text \<open>A buffer that holds \<open>xs\<close> at offset \<open>p\<close>, whatever surrounds it.\<close>

definition holds_at :: "buf \<Rightarrow> nat \<Rightarrow> byte list \<Rightarrow> bool" where
  "holds_at b p xs \<longleftrightarrow> p + length xs \<le> length b \<and> take (length xs) (drop p b) = xs"

lemma holds_at_append:
  "holds_at b p (xs @ ys) \<longleftrightarrow> holds_at b p xs \<and> holds_at b (p + length xs) ys"
proof -
  have "take (length xs + length ys) (drop p b)
      = take (length xs) (drop p b) @ take (length ys) (drop (p + length xs) b)"
    by (simp add: take_add add.commute)
  then show ?thesis
    by (auto simp: holds_at_def append_eq_append_conv)
qed

lemma holds_at_read: "holds_at b p xs \<Longrightarrow> n = length xs \<Longrightarrow> read_bytes b p n = Some xs"
  by (simp add: holds_at_def read_bytes_def)

lemma holds_at_write: "write_bytes b p xs = Some b' \<Longrightarrow> holds_at b' p xs"
  by (auto simp: write_bytes_def holds_at_def split: if_splits)

lemma write_readable:
  "p + length xs \<le> length b \<Longrightarrow>
     \<exists>b'. write_bytes b p xs = Some b' \<and> holds_at b' p xs \<and> length b' = length b"
  by (simp add: write_bytes_def holds_at_def)

lemma holds_at_append_right: "holds_at b p xs \<Longrightarrow> holds_at (b @ c) p xs"
  by (auto simp: holds_at_def)

lemma holds_at_prefix: "holds_at (pre @ xs @ post) (length pre) xs"
  by (simp add: holds_at_def)

text \<open>
  Consecutive copies: a copy that starts where another one ended is one copy of the
  concatenation. Encoders are chains of copies, so rewriting with \<open>put_put\<close> turns each of
  them into a single copy of the whole record.
\<close>

lemma put_bytes_fits: "p + length xs \<le> length b \<Longrightarrow>
    \<exists>b'. put_bytes b p xs = Some (b', p + length xs) \<and> holds_at b' p xs \<and> length b' = length b"
  using write_readable [of p xs b] by (auto simp: put_bytes_def)

lemma put_bytes_Some:
  "put_bytes b p xs = Some (b', q) \<longleftrightarrow> write_bytes b p xs = Some b' \<and> q = p + length xs"
  by (auto simp: put_bytes_def split: Option.bind_splits)

lemma put_bytes_append:
  "put_bytes b p (xs @ ys) = do { (b, p) \<leftarrow> put_bytes b p xs; put_bytes b p ys }"
  by (auto simp: put_bytes_def write_bytes_def ac_simps min_absorb2)

lemma put_put [buf_simps]:
  "Option.bind (put_bytes b p xs) (case_prod (\<lambda>b p. Option.bind (put_bytes b p ys) f))
     = Option.bind (put_bytes b p (xs @ ys)) f"
  by (auto simp: put_bytes_append bind_assoc split: Option.bind_splits)

lemma list_all2_member_right: "list_all2 P xs ys \<Longrightarrow> y \<in> set ys \<Longrightarrow> \<exists>x \<in> set xs. P x y"
  by (induction rule: list_all2_induct) auto

end
