(* ===== verification/Enc.thy ===== *)
theory Enc
  imports Rsock_Prelude
begin

section \<open>Fixed-width integers on the wire (util/enc.c)\<close>

text \<open>
  \<open>encode_uintN\<close> stores an integer at a pointer and returns the pointer behind it,
  \<open>decode_uintN\<close> reads one back. The host's byte order is the argument \<open>le\<close>; the memory
  image of an integer on that host is \<open>store_host\<close>. The wire format is little-endian on
  every host that can encode at all: the big-endian branch of the encoders goes through
  \<open>big_endian_to_little_n\<close>, whose assertion rejects every width but 8.
\<close>

subsection \<open>Memory images of integers\<close>

definition store_host :: "bool \<Rightarrow> nat \<Rightarrow> nat \<Rightarrow> byte list" where
  "store_host le n v = (if le then nat_to_le n v else rev (nat_to_le n v))"

definition load_host :: "bool \<Rightarrow> byte list \<Rightarrow> nat" where
  "load_host le xs = le_to_nat (if le then xs else rev xs)"

subsection \<open>Definitions\<close>

definition is_little_endian :: "bool \<Rightarrow> bool" where
  "is_little_endian le \<longleftrightarrow> store_host le 2 0x100 ! 1 = 1"

primrec store_low_bytes :: "nat \<Rightarrow> u64 \<Rightarrow> buf \<Rightarrow> nat \<Rightarrow> buf option" where
  "store_low_bytes 0 i b p = Some b"
| "store_low_bytes (Suc n) i b p =
     do { b' \<leftarrow> write_bytes b p [ucast (i AND 0xff)];
          store_low_bytes n (drop_bit 8 i) b' (p + 1) }"

definition big_endian_to_little_n :: "u64 \<Rightarrow> buf \<Rightarrow> nat \<Rightarrow> nat \<Rightarrow> (buf \<times> nat) option" where
  "big_endian_to_little_n i b p sz =
     (if sz mod 8 \<noteq> 0 then None
      else if sz > 8 then None
      else do { b' \<leftarrow> store_low_bytes (sz div 8) i b p; Some (b', p + sz) })"

definition big_endian_to_little :: "u32 \<Rightarrow> buf \<Rightarrow> nat \<Rightarrow> buf option" where
  "big_endian_to_little i b p =
     do { b \<leftarrow> write_bytes b (p + 3) [ucast (drop_bit 24 i AND 0xff)];
          b \<leftarrow> write_bytes b (p + 2) [ucast (drop_bit 16 i AND 0xff)];
          b \<leftarrow> write_bytes b (p + 1) [ucast (drop_bit 8 i AND 0xff)];
          write_bytes b p [ucast (i AND 0xff)] }"

definition encode_uint32 :: "bool \<Rightarrow> u32 \<Rightarrow> buf \<Rightarrow> nat \<Rightarrow> (buf \<times> nat) option" where
  "encode_uint32 le i b p =
     do { b' \<leftarrow> (if is_little_endian le then write_bytes b p (store_host le 4 (unat i))
                else map_option fst (big_endian_to_little_n (ucast i) b p 4));
          Some (b', p + 4) }"

definition encode_uint16 :: "bool \<Rightarrow> u16 \<Rightarrow> buf \<Rightarrow> nat \<Rightarrow> (buf \<times> nat) option" where
  "encode_uint16 le i b p =
     do { b' \<leftarrow> (if is_little_endian le then write_bytes b p (store_host le 2 (unat i))
                else map_option fst (big_endian_to_little_n (ucast i) b p 2));
          Some (b', p + 2) }"

definition encode_uint8 :: "u8 \<Rightarrow> buf \<Rightarrow> nat \<Rightarrow> (buf \<times> nat) option" where
  "encode_uint8 i b p = do { b' \<leftarrow> write_bytes b p [i]; Some (b', p + 1) }"

definition encode_uint64 :: "bool \<Rightarrow> u64 \<Rightarrow> buf \<Rightarrow> nat \<Rightarrow> (buf \<times> nat) option" where
  "encode_uint64 le i b p =
     do { b' \<leftarrow> (if is_little_endian le then write_bytes b p (store_host le 8 (unat i))
                else map_option fst (big_endian_to_little_n i b p 8));
          Some (b', p + 8) }"

definition decode_uint32 :: "bool \<Rightarrow> buf \<Rightarrow> nat \<Rightarrow> (u32 \<times> nat) option" where
  "decode_uint32 le b p =
     do { xs \<leftarrow> read_bytes b p 4;
          Some (of_nat (load_host le (if is_little_endian le then xs else rev xs)), p + 4) }"

definition decode_uint16 :: "bool \<Rightarrow> buf \<Rightarrow> nat \<Rightarrow> (u16 \<times> nat) option" where
  "decode_uint16 le b p =
     do { xs \<leftarrow> read_bytes b p 2;
          Some (of_nat (load_host le (if is_little_endian le then xs else rev xs)), p + 2) }"

definition decode_uint8 :: "buf \<Rightarrow> nat \<Rightarrow> (u8 \<times> nat) option" where
  "decode_uint8 b p = do { xs \<leftarrow> read_bytes b p 1; Some (hd xs, p + 1) }"

definition decode_uint64 :: "bool \<Rightarrow> buf \<Rightarrow> nat \<Rightarrow> (u64 \<times> nat) option" where
  "decode_uint64 le b p =
     do { xs \<leftarrow> read_bytes b p 8;
          Some (of_nat (load_host le (if is_little_endian le then xs else rev xs)), p + 8) }"

subsection \<open>The wire format\<close>

lemma is_little_endian_iff [simp]: "is_little_endian le \<longleftrightarrow> le"
  by (cases le; simp; code_simp)

lemma load_host_wire [simp]: "load_host le (if le then xs else rev xs) = le_to_nat xs"
  by (simp add: load_host_def)

text \<open>The little-endian images the decoders accept, one per width.\<close>

abbreviation le16 :: "u16 \<Rightarrow> byte list" where "le16 i \<equiv> nat_to_le 2 (unat i)"
abbreviation le32 :: "u32 \<Rightarrow> byte list" where "le32 i \<equiv> nat_to_le 4 (unat i)"
abbreviation le64 :: "u64 \<Rightarrow> byte list" where "le64 i \<equiv> nat_to_le 8 (unat i)"

lemma le_to_nat_le16 [simp]: "le_to_nat (le16 i) = unat i"
  using unat_u16_less [of i] by simp

lemma le_to_nat_le32 [simp]: "le_to_nat (le32 i) = unat i"
  using unat_u32_less [of i] by simp

lemma le_to_nat_le64 [simp]: "le_to_nat (le64 i) = unat i"
  using unat_u64_less [of i] by simp

lemma encode_le [buf_simps]:
  "encode_uint32 True i b p = put_bytes b p (le32 i)"
  "encode_uint16 True j b p = put_bytes b p (le16 j)"
  "encode_uint64 True k b p = put_bytes b p (le64 k)"
  "encode_uint8 c b p = put_bytes b p [c]"
  by (simp_all add: encode_uint32_def encode_uint16_def encode_uint64_def encode_uint8_def
        store_host_def put_bytes_def)

text \<open>Every decoder reads the little-endian image, on hosts of either byte order.\<close>

lemma decode_holds [buf_simps]:
  "holds_at b p (le32 i) \<Longrightarrow> decode_uint32 le b p = Some (i, p + 4)"
  "holds_at b p (le16 j) \<Longrightarrow> decode_uint16 le b p = Some (j, p + 2)"
  "holds_at b p (le64 k) \<Longrightarrow> decode_uint64 le b p = Some (k, p + 8)"
  "holds_at b p [c] \<Longrightarrow> decode_uint8 b p = Some (c, p + 1)"
  by (simp_all add: decode_uint32_def decode_uint16_def decode_uint64_def decode_uint8_def
        holds_at_read del: le_to_nat_to_le)

lemma decode_uint64_reads:
  "p + 8 \<le> length b \<Longrightarrow>
     decode_uint64 le b p = Some (of_nat (le_to_nat (take 8 (drop p b))), p + 8)"
  by (simp add: decode_uint64_def read_bytes_fits)

lemma store_low_bytes_1: "p < length b \<Longrightarrow> store_low_bytes 1 i b p = Some (b[p := ucast i])"
proof -
  assume p: "p < length b"
  have "(ucast (i AND 0xff) :: byte) = ucast i"
  proof (rule bit_word_eqI)
    fix n assume "n < LENGTH(8)"
    moreover have m: "(0xff :: u64) = mask 8" by code_simp
    ultimately show "bit (ucast (i AND 0xff) :: byte) n = bit (ucast i :: byte) n"
      unfolding m by (simp add: bit_simps)
  qed
  with p show ?thesis
    by (simp add: write_bytes_def upd_conv_take_nth_drop)
qed

subsection \<open>Properties\<close>

text \<open>
  on a little-endian host, whatever the encoders store at a pointer inside the buffer the
  decoders read back, at all four widths, and both sides agree on where the next field starts.
\<close>

theorem encode_decode_roundtrip:
  assumes "p + 8 \<le> length b"
  shows "\<exists>b1 b2 b3 b4.
      encode_uint64 True w b p = Some (b1, p + 8) \<and> decode_uint64 True b1 p = Some (w, p + 8)
    \<and> encode_uint32 True x b p = Some (b2, p + 4) \<and> decode_uint32 True b2 p = Some (x, p + 4)
    \<and> encode_uint16 True y b p = Some (b3, p + 2) \<and> decode_uint16 True b3 p = Some (y, p + 2)
    \<and> encode_uint8 z b p = Some (b4, p + 1) \<and> decode_uint8 b4 p = Some (z, p + 1)
    \<and> length b1 = length b \<and> length b2 = length b \<and> length b3 = length b \<and> length b4 = length b"
proof -
  have "\<exists>b'. encode_uint64 True w b p = Some (b', p + 8) \<and> decode_uint64 True b' p = Some (w, p + 8)
      \<and> length b' = length b"
    using put_bytes_fits [of p "le64 w" b] assms by (auto simp: encode_le decode_holds)
  moreover have "\<exists>b'. encode_uint32 True x b p = Some (b', p + 4)
      \<and> decode_uint32 True b' p = Some (x, p + 4) \<and> length b' = length b"
    using put_bytes_fits [of p "le32 x" b] assms by (auto simp: encode_le decode_holds)
  moreover have "\<exists>b'. encode_uint16 True y b p = Some (b', p + 2)
      \<and> decode_uint16 True b' p = Some (y, p + 2) \<and> length b' = length b"
    using put_bytes_fits [of p "le16 y" b] assms by (auto simp: encode_le decode_holds)
  moreover have "\<exists>b'. encode_uint8 z b p = Some (b', p + 1)
      \<and> decode_uint8 b' p = Some (z, p + 1) \<and> length b' = length b"
    using put_bytes_fits [of p "[z]" b] assms by (auto simp: encode_le decode_holds)
  ultimately show ?thesis by blast
qed

theorem encode_decode_roundtrip_witness:
  "\<exists>b1. encode_uint64 True 0x20271100c350 (replicate 9 0) 1 = Some (b1, 9)
      \<and> decode_uint64 True b1 1 = Some (0x20271100c350, 9)"
  using encode_decode_roundtrip [of 1 "replicate 9 0" "0x20271100c350" 0 0 0] by auto

text \<open>
  on a big-endian host no 16-bit or 32-bit field can be encoded (the assertion on the
  width in \<open>big_endian_to_little_n\<close> fails for every value), and the 64-bit encoder stores
  only the least significant byte, leaving the other seven bytes of the field as they were.
\<close>

theorem big_endian_encode_broken:
  "encode_uint32 False i b p = None \<and> encode_uint16 False j b p = None \<and>
   (p < length b \<longrightarrow> encode_uint64 False k b p = Some (b[p := ucast k], p + 8))"
  by (simp_all add: encode_uint32_def encode_uint16_def encode_uint64_def
        big_endian_to_little_n_def store_low_bytes_1 [simplified])

theorem big_endian_encode_broken_witness:
  "encode_uint64 False 0x0102 [0xAA, 0xBB, 0xCC] 1 = Some ([0xAA, 0x02, 0xCC], 9)"
  using big_endian_encode_broken [of 0 "[0xAA, 0xBB, 0xCC]" 1 0 "0x0102"] by simp

end
