(* ===== verification/Dec_String.thy ===== *)
theory Dec_String
  imports Rsock_Prelude
begin

section \<open>Decimal numbers as strings\<close>

text \<open>
  \<open>std::to_string\<close> on unsigned integers and \<open>std::stoi\<close> on digit strings, the two
  conversions the keys, the port lists and the configuration parser rest on. \<open>stoi\<close> throws
  when there is no digit to read and when the value does not fit an \<open>int\<close>: both are
  \<^const>\<open>None\<close>. Its callers pass strings of digits only, so neither blanks nor a sign can
  precede the number.
\<close>

definition digit_char :: "nat \<Rightarrow> char" where
  "digit_char d = char_of (48 + d)"

definition is_digit :: "char \<Rightarrow> bool" where
  "is_digit c \<longleftrightarrow> 48 \<le> (of_char c :: nat) \<and> (of_char c :: nat) \<le> 57"

definition digit_val :: "char \<Rightarrow> nat" where
  "digit_val c = of_char c - 48"

fun to_string :: "nat \<Rightarrow> string" where
  "to_string n = (if n < 10 then [digit_char n] else to_string (n div 10) @ [digit_char (n mod 10)])"

declare to_string.simps [simp del]

definition dec_val :: "string \<Rightarrow> nat" where
  "dec_val s = foldl (\<lambda>a c. 10 * a + digit_val c) 0 s"

definition INT_MAX :: nat where
  "INT_MAX = 2147483647"

definition stoi :: "string \<Rightarrow> nat option" where
  "stoi s = (let ds = takeWhile is_digit s in
     if ds = [] then None
     else if dec_val ds > INT_MAX then None
     else Some (dec_val ds))"

subsection \<open>Digits\<close>

lemma digit_char_val [simp]: "d < 10 \<Longrightarrow> digit_val (digit_char d) = d"
  by (simp add: digit_val_def digit_char_def)

lemma is_digit_digit_char [simp]: "d < 10 \<Longrightarrow> is_digit (digit_char d)"
  by (simp add: is_digit_def digit_char_def)

lemma to_string_digits: "c \<in> set (to_string n) \<Longrightarrow> is_digit c"
proof (induction n rule: to_string.induct)
  case (1 n)
  then show ?case by (subst (asm) to_string.simps) (auto split: if_splits)
qed

lemma to_string_nonempty [simp]: "to_string n \<noteq> []"
  by (subst to_string.simps) simp

lemma dec_val_snoc [simp]: "dec_val (s @ [c]) = 10 * dec_val s + digit_val c"
  by (simp add: dec_val_def)

lemma dec_val_to_string [simp]: "dec_val (to_string n) = n"
proof (induction n rule: to_string.induct)
  case (1 n)
  show ?case
  proof (cases "n < 10")
    case True
    then show ?thesis by (subst to_string.simps) (simp add: dec_val_def)
  next
    case False
    with "1.IH" show ?thesis by (subst to_string.simps) simp
  qed
qed

lemma to_string_inject [simp]: "to_string m = to_string n \<longleftrightarrow> m = n"
  by (metis dec_val_to_string)

lemma takeWhile_to_string: "takeWhile is_digit (to_string n) = to_string n"
  by (simp add: takeWhile_eq_all_conv to_string_digits)

lemma stoi_to_string: "n \<le> INT_MAX \<Longrightarrow> stoi (to_string n) = Some n"
  by (simp add: stoi_def takeWhile_to_string)

lemma stoi_bound: "stoi s = Some n \<Longrightarrow> n \<le> INT_MAX"
  by (auto simp: stoi_def Let_def split: if_splits)

lemma not_digit_notin_to_string: "\<not> is_digit c \<Longrightarrow> c \<notin> set (to_string n)"
  using to_string_digits by blast

lemma is_digit_examples [simp]:
  "\<not> is_digit CHR ''-''" "\<not> is_digit CHR '',''" "\<not> is_digit CHR '' ''" "\<not> is_digit CHR '':''"
  "\<not> is_digit CHR ''.''" "\<not> is_digit CHR ''c''"
  by (simp_all add: is_digit_def)

text \<open>A number followed by something that is not a digit splits in one way only.\<close>

lemma takeWhile_number [simp]:
  "\<not> is_digit c \<Longrightarrow> takeWhile is_digit (to_string n @ c # s) = to_string n"
  by (simp add: takeWhile_append2 to_string_digits)

lemma dropWhile_number [simp]:
  "\<not> is_digit c \<Longrightarrow> dropWhile is_digit (to_string n @ c # s) = c # s"
  by (simp add: dropWhile_append2 to_string_digits)

lemma number_sep_inject:
  assumes "\<not> is_digit c"
  shows "to_string m @ c # s = to_string n @ c # t \<longleftrightarrow> m = n \<and> s = t"
proof
  assume eq: "to_string m @ c # s = to_string n @ c # t"
  have "to_string m = to_string n"
    using arg_cong [OF eq, of "takeWhile is_digit"] assms by simp
  with eq show "m = n \<and> s = t" by simp
qed simp

end
