(* ===== verification/Enc_Head.thy ===== *)
theory Enc_Head
  imports Enc Dec_String
begin

section \<open>Connection keys and the rsock header\<close>

text \<open>
  \<open>bean/EncHead\<close> is the 23-byte header in front of every payload: its own length, a command,
  the 8-byte group id, the conversation number, the key of the connection and a reserved
  byte. \<open>KeyGenerator\<close> (src/util) computes the keys. The encoders take the buffer, a possibly
  null pointer into it and the room behind that pointer; the outer \<^const>\<open>None\<close> is an access
  outside the buffer, the inner one the null pointer that reports failure.
\<close>

subsection \<open>Definitions\<close>

definition ID_BUF_SIZE :: nat where "ID_BUF_SIZE = 8"
definition HASH_BUF_SIZE :: nat where "HASH_BUF_SIZE = 8"
definition OM_MAX_PKT_SIZE :: nat where "OM_MAX_PKT_SIZE = 1500"

definition EncodeKey :: "bool \<Rightarrow> buf \<Rightarrow> nat \<Rightarrow> u64 \<Rightarrow> (buf \<times> nat) option" where
  "EncodeKey le b p key = encode_uint64 le key b p"

definition DecodeKey :: "bool \<Rightarrow> buf \<Rightarrow> nat \<Rightarrow> (u64 \<times> nat) option" where
  "DecodeKey le b p = decode_uint64 le b p"

text \<open>\<open>DecodeKeySafe\<close> gives the number of bytes read, 0 when there are too few.\<close>

definition DecodeKeySafe :: "bool \<Rightarrow> int \<Rightarrow> buf \<Rightarrow> nat \<Rightarrow> (u64 option \<times> nat) option" where
  "DecodeKeySafe le nread b p =
     (if nread \<ge> 8 then do { (key, q) \<leftarrow> DecodeKey le b p; Some (Some key, q - p) }
      else Some (None, 0))"

definition TYPE_DATA :: u8 where "TYPE_DATA = 0"
definition TYPE_CONV_RST :: u8 where "TYPE_CONV_RST = 1"
definition TYPE_NETCONN_RST :: u8 where "TYPE_NETCONN_RST = 2"
definition TYPE_KEEP_ALIVE_REQ :: u8 where "TYPE_KEEP_ALIVE_REQ = 3"
definition TYPE_KEEP_ALIVE_RESP :: u8 where "TYPE_KEEP_ALIVE_RESP = 4"

definition IsRstFlag :: "u8 \<Rightarrow> bool" where
  "IsRstFlag cmd \<longleftrightarrow> cmd = TYPE_CONV_RST \<or> cmd = TYPE_NETCONN_RST"

definition IsKeepAliveFlag :: "u8 \<Rightarrow> bool" where
  "IsKeepAliveFlag cmd \<longleftrightarrow> cmd = TYPE_KEEP_ALIVE_RESP \<or> cmd = TYPE_KEEP_ALIVE_REQ"

record enc_head =
  eh_len :: u8
  eh_cmd :: u8
  eh_id :: "byte list"
  eh_conv :: u32
  eh_key :: u64
  eh_reserved :: u8

definition GetMinEncSize :: u8 where
  "GetMinEncSize = 0 + 1 + 1 + of_nat ID_BUF_SIZE + 4 + 8 + 1"

definition new_head :: enc_head where
  "new_head = \<lparr>eh_len = GetMinEncSize, eh_cmd = TYPE_DATA, eh_id = replicate ID_BUF_SIZE 0,
     eh_conv = 0, eh_key = 0, eh_reserved = 0\<rparr>"

definition GetSize :: u8 where
  "GetSize = GetMinEncSize"

definition Enc2Buf ::
    "bool \<Rightarrow> enc_head \<Rightarrow> buf \<Rightarrow> nat option \<Rightarrow> int \<Rightarrow> (enc_head \<times> buf \<times> nat option) option" where
  "Enc2Buf le h b ptr buf_len =
     (case ptr of
        None \<Rightarrow> Some (h, b, None)
      | Some p0 \<Rightarrow>
          if buf_len \<ge> int (unat GetSize) then do {
            let h = h\<lparr>eh_len := GetSize\<rparr>;
            (b, p) \<leftarrow> encode_uint8 (eh_len h) b p0;
            (b, p) \<leftarrow> encode_uint8 (eh_cmd h) b p;
            (b, p) \<leftarrow> put_bytes b p (eh_id h);
            (b, p) \<leftarrow> encode_uint32 le (eh_conv h) b p;
            (b, p) \<leftarrow> EncodeKey le b p (eh_key h);
            (b, p) \<leftarrow> encode_uint8 (eh_reserved h) b p;
            Some (h, b, Some (p0 + unat (eh_len h)))
          }
          else Some (h, b, None))"

definition DecodeBuf ::
    "bool \<Rightarrow> enc_head \<Rightarrow> buf \<Rightarrow> nat option \<Rightarrow> int \<Rightarrow> (enc_head \<times> nat option) option" where
  "DecodeBuf le e b ptr buf_len =
     (case ptr of
        None \<Rightarrow> Some (e, None)
      | Some p0 \<Rightarrow>
          if buf_len \<ge> int (unat GetMinEncSize) then do {
            (l, p) \<leftarrow> decode_uint8 b p0;
            let e = e\<lparr>eh_len := l\<rparr>;
            if int (unat l) > buf_len then Some (e, None)
            else do {
              (cmd, p) \<leftarrow> decode_uint8 b p;
              idb \<leftarrow> read_bytes b p (length (eh_id e));
              let p = p + length (eh_id e);
              (conv, p) \<leftarrow> decode_uint32 le b p;
              (key, p) \<leftarrow> DecodeKey le b p;
              (r, p) \<leftarrow> decode_uint8 b p;
              Some (e\<lparr>eh_cmd := cmd, eh_id := idb, eh_conv := conv, eh_key := key,
                      eh_reserved := r\<rparr>, Some (p0 + unat l))
            }
          }
          else Some (e, None))"

text \<open>\<open>std::array<char, 8>\<close>: the id always has eight bytes.\<close>

definition head_wf :: "enc_head \<Rightarrow> bool" where
  "head_wf h \<longleftrightarrow> length (eh_id h) = ID_BUF_SIZE"

text \<open>The 23 bytes on the wire.\<close>

definition head_bytes :: "enc_head \<Rightarrow> byte list" where
  "head_bytes h = [eh_len h] @ [eh_cmd h] @ eh_id h @ le32 (eh_conv h) @ le64 (eh_key h) @ [eh_reserved h]"

subsection \<open>Sizes\<close>

lemma MinEncSize_23 [simp]: "GetMinEncSize = 23" and GetSize_23 [simp]: "GetSize = 23"
  by (simp_all add: GetMinEncSize_def GetSize_def ID_BUF_SIZE_def)

lemma length_head_bytes: "head_wf h \<Longrightarrow> length (head_bytes h) = 23"
  by (simp add: head_wf_def head_bytes_def ID_BUF_SIZE_def)

lemma new_head_wf: "head_wf new_head"
  by (simp add: head_wf_def new_head_def)

subsection \<open>The header's layout\<close>

text \<open>The encoder as a whole copies the header's 23 bytes to the pointer.\<close>

lemma Enc2Buf_layout:
  assumes "head_wf h" and "buf_len \<ge> 23" and "p + 23 \<le> length b"
  shows "\<exists>b'. Enc2Buf True h b (Some p) buf_len = Some (h\<lparr>eh_len := 23\<rparr>, b', Some (p + 23))
     \<and> put_bytes b p (head_bytes (h\<lparr>eh_len := 23\<rparr>)) = Some (b', p + 23)"
proof -
  let ?h = "h\<lparr>eh_len := 23\<rparr>"
  have len: "length (head_bytes ?h) = 23"
    using assms(1) by (simp add: length_head_bytes head_wf_def)
  obtain b' where b': "put_bytes b p (head_bytes ?h) = Some (b', p + 23)"
    using put_bytes_fits [of p "head_bytes ?h" b] assms(3) len by auto
  have "Enc2Buf True h b (Some p) buf_len =
      do { (b, q) \<leftarrow> put_bytes b p (head_bytes ?h); Some (?h, b, Some (p + 23)) }"
    using assms(2) by (simp add: Enc2Buf_def encode_le EncodeKey_def put_put head_bytes_def)
  with b' show ?thesis by simp
qed

lemma DecodeBuf_layout:
  assumes "head_wf h" and "head_wf e" and "holds_at b p (head_bytes h)"
    and "buf_len \<ge> 23" and "int (unat (eh_len h)) \<le> buf_len"
  shows "DecodeBuf le e b (Some p) buf_len = Some (h, Some (p + unat (eh_len h)))"
proof -
  have id8: "length (eh_id h) = 8" "length (eh_id e) = 8"
    using assms(1,2) by (simp_all add: head_wf_def ID_BUF_SIZE_def)
  have "holds_at b p [eh_len h]" "holds_at b (p + 1) [eh_cmd h]" "holds_at b (p + 1 + 1) (eh_id h)"
    "holds_at b (10 + p) (le32 (eh_conv h))" "holds_at b (14 + p) (le64 (eh_key h))"
    "holds_at b (22 + p) [eh_reserved h]"
    using assms(3) id8 unfolding head_bytes_def holds_at_append
    by (simp_all add: ac_simps)
  then show ?thesis
    using assms(4,5) id8
    by (simp add: DecodeBuf_def DecodeKey_def decode_holds holds_at_read Let_def
          del: One_nat_def add_2_eq_Suc add_2_eq_Suc')
qed

lemma DecodeBuf_safe:
  assumes "head_wf e" and "0 \<le> buf_len" and "int p + buf_len \<le> int (length b)"
  shows "\<exists>e' r. DecodeBuf le e b (Some p) buf_len = Some (e', r) \<and> head_wf e'
     \<and> (r = None \<longleftrightarrow> buf_len < 23 \<or> int (unat (b ! p)) > buf_len)
     \<and> (\<forall>q. r = Some q \<longrightarrow> q = p + unat (b ! p) \<and> int q \<le> int p + buf_len)"
proof (cases "buf_len < 23")
  case True
  with assms(1) show ?thesis by (simp add: DecodeBuf_def)
next
  case False
  with assms have len: "p + 23 \<le> length b" by linarith
  have id8: "length (eh_id e) = 8" using assms(1) by (simp add: head_wf_def ID_BUF_SIZE_def)
  have b1: "decode_uint8 b p = Some (b ! p, Suc p)"
    using len by (simp add: decode_uint8_def read_bytes_def take_Suc_conv_app_nth hd_drop_conv_nth)
  have rd: "read_bytes b q n = Some (take n (drop q b))" if "q + n \<le> p + 23" for q n
    using len that by (simp add: read_bytes_def)
  show ?thesis
  proof (cases "int (unat (b ! p)) > buf_len")
    case True
    with False assms(1) b1 show ?thesis by (simp add: DecodeBuf_def head_wf_def)
  next
    case small: False
    with False assms b1 len id8 show ?thesis
      by (auto simp: DecodeBuf_def DecodeKey_def decode_uint8_def decode_uint32_def
            decode_uint64_def rd head_wf_def ID_BUF_SIZE_def)
  qed
qed

subsection \<open>Properties\<close>

text \<open>
  a header written by \<open>Enc2Buf\<close> into any buffer with 23 bytes of room is read back by
  \<open>DecodeBuf\<close> unchanged in every field (the length field set to 23), and both return the
  pointer 23 bytes further, where the payload starts.
\<close>

theorem head_roundtrip:
  assumes "head_wf h" and "head_wf e" and "buf_len \<ge> 23" and "p + 23 \<le> length b"
  shows "\<exists>b'. Enc2Buf True h b (Some p) buf_len = Some (h\<lparr>eh_len := 23\<rparr>, b', Some (p + 23))
     \<and> DecodeBuf le e b' (Some p) buf_len = Some (h\<lparr>eh_len := 23\<rparr>, Some (p + 23))
     \<and> length b' = length b"
proof -
  let ?h = "h\<lparr>eh_len := 23\<rparr>"
  obtain b' where enc: "Enc2Buf True h b (Some p) buf_len = Some (?h, b', Some (p + 23))"
    and put: "put_bytes b p (head_bytes ?h) = Some (b', p + 23)"
    using Enc2Buf_layout [OF assms(1,3,4)] by blast
  from put have w: "write_bytes b p (head_bytes ?h) = Some b'" by (simp add: put_bytes_Some)
  have "DecodeBuf le e b' (Some p) buf_len = Some (?h, Some (p + 23))"
    using DecodeBuf_layout [of ?h e b' p buf_len le] assms holds_at_write [OF w]
    by (simp add: head_wf_def)
  with enc write_bytes_length [OF w] show ?thesis by blast
qed

theorem head_roundtrip_witness:
  "\<exists>b'. Enc2Buf True (new_head\<lparr>eh_conv := 7, eh_key := 0x27110000\<rparr>) (replicate 40 0) (Some 8) 32
        = Some (new_head\<lparr>eh_conv := 7, eh_key := 0x27110000, eh_len := 23\<rparr>, b', Some 31)
      \<and> length b' = 40"
  using head_roundtrip [of "new_head\<lparr>eh_conv := 7, eh_key := 0x27110000\<rparr>" new_head 32 8 "replicate 40 0" True]
    new_head_wf by (auto simp: head_wf_def)

text \<open>
  decoding received bytes is memory-safe and its result stays inside the datagram. For
  every content of a buffer with at least \<open>buf_len\<close> bytes behind the pointer, \<open>DecodeBuf\<close>
  returns; it reports failure exactly when fewer than 23 bytes are left or the length byte
  exceeds them, and otherwise the payload pointer is the length byte further on.
\<close>

theorem decode_head_safe:
  assumes "head_wf e" and "0 \<le> buf_len" and "int p + buf_len \<le> int (length b)"
  shows "\<exists>e' r. DecodeBuf le e b (Some p) buf_len = Some (e', r) \<and> head_wf e'
     \<and> (r = None \<longleftrightarrow> buf_len < 23 \<or> int (unat (b ! p)) > buf_len)
     \<and> (\<forall>q. r = Some q \<longrightarrow> q = p + unat (b ! p) \<and> int q \<le> int p + buf_len)"
  by (rule DecodeBuf_safe [OF assms])

theorem decode_head_safe_witness:
  "\<exists>e' r. DecodeBuf True new_head (replicate 24 0) (Some 0) 24 = Some (e', r) \<and> r = Some 0"
  using decode_head_safe [of new_head 24 0 "replicate 24 0" True] new_head_wf by auto

end
