(* ===== verification/Std_Map.thy ===== *)
theory Std_Map
  imports Rsock_Prelude
begin

section \<open>The C++ ordered map\<close>

text \<open>
  \<open>std::map<K, V, Compare>\<close> as the code uses it: the list of its key/value pairs in
  iteration order. The comparator \<open>lt\<close> is an argument of every operation. Two keys are the
  same key when neither is less than the other, which need not be equality: the pools keyed
  by \<open>TcpInfo\<close> compare only the four address fields. \<open>map_emplace\<close> is \<open>emplace\<close> and
  \<open>insert\<close> (an existing element stays as it is), \<open>map_assign\<close> is \<open>m[k] = v\<close> (the mapped
  value of an existing element is replaced and its stored key is kept), \<open>map_erase\<close> is
  \<open>erase(k)\<close> and \<open>map_find\<close> is \<open>find(k)\<close>, giving the stored pair. The laws of the container
  are proved once, for any strict weak order, and once more, sharper, for total orders.
\<close>

type_synonym ('k, 'v) smap = "('k \<times> 'v) list"

definition key_equiv :: "('k \<Rightarrow> 'k \<Rightarrow> bool) \<Rightarrow> 'k \<Rightarrow> 'k \<Rightarrow> bool" where
  "key_equiv lt a b \<longleftrightarrow> \<not> lt a b \<and> \<not> lt b a"

primrec map_find :: "('k \<Rightarrow> 'k \<Rightarrow> bool) \<Rightarrow> 'k \<Rightarrow> ('k, 'v) smap \<Rightarrow> ('k \<times> 'v) option" where
  "map_find lt k [] = None"
| "map_find lt k (e # m) = (if key_equiv lt k (fst e) then Some e else map_find lt k m)"

primrec map_emplace :: "('k \<Rightarrow> 'k \<Rightarrow> bool) \<Rightarrow> 'k \<Rightarrow> 'v \<Rightarrow> ('k, 'v) smap \<Rightarrow> ('k, 'v) smap" where
  "map_emplace lt k v [] = [(k, v)]"
| "map_emplace lt k v (e # m) =
     (if lt k (fst e) then (k, v) # e # m
      else if lt (fst e) k then e # map_emplace lt k v m
      else e # m)"

primrec map_assign :: "('k \<Rightarrow> 'k \<Rightarrow> bool) \<Rightarrow> 'k \<Rightarrow> 'v \<Rightarrow> ('k, 'v) smap \<Rightarrow> ('k, 'v) smap" where
  "map_assign lt k v [] = [(k, v)]"
| "map_assign lt k v (e # m) =
     (if lt k (fst e) then (k, v) # e # m
      else if lt (fst e) k then e # map_assign lt k v m
      else (fst e, v) # m)"

definition map_erase :: "('k \<Rightarrow> 'k \<Rightarrow> bool) \<Rightarrow> 'k \<Rightarrow> ('k, 'v) smap \<Rightarrow> ('k, 'v) smap" where
  "map_erase lt k m = filter (\<lambda>e. \<not> key_equiv lt k (fst e)) m"

definition map_has :: "('k \<Rightarrow> 'k \<Rightarrow> bool) \<Rightarrow> 'k \<Rightarrow> ('k, 'v) smap \<Rightarrow> bool" where
  "map_has lt k m \<longleftrightarrow> map_find lt k m \<noteq> None"

definition map_wf :: "('k \<Rightarrow> 'k \<Rightarrow> bool) \<Rightarrow> ('k, 'v) smap \<Rightarrow> bool" where
  "map_wf lt m \<longleftrightarrow> sorted_wrt lt (map fst m)"

subsection \<open>Laws that hold for every comparator\<close>

lemma map_wf_Nil [simp, wf_intros]: "map_wf lt []"
  by (simp add: map_wf_def)

lemma map_wf_Cons [simp]:
  "map_wf lt (e # m) \<longleftrightarrow> (\<forall>x \<in> set m. lt (fst e) (fst x)) \<and> map_wf lt m"
  by (auto simp: map_wf_def)

lemma map_wf_filter [wf_intros]: "map_wf lt m \<Longrightarrow> map_wf lt (filter P m)"
  by (induction m) auto

lemma map_wf_erase [wf_intros]: "map_wf lt m \<Longrightarrow> map_wf lt (map_erase lt k m)"
  by (simp add: map_erase_def map_wf_filter)

lemma map_find_SomeD: "map_find lt k m = Some e \<Longrightarrow> e \<in> set m \<and> key_equiv lt k (fst e)"
  by (induction m) (auto split: if_splits)

lemma map_find_None_iff: "map_find lt k m = None \<longleftrightarrow> (\<forall>e \<in> set m. \<not> key_equiv lt k (fst e))"
  by (induction m) auto

lemma map_find_erase_same [simp]: "map_find lt k (map_erase lt k m) = None"
  by (simp add: map_find_None_iff map_erase_def)

lemma map_erase_absent: "map_find lt k m = None \<Longrightarrow> map_erase lt k m = m"
  by (simp add: map_find_None_iff map_erase_def filter_id_conv)

lemma set_map_erase: "set (map_erase lt k m) = {e \<in> set m. \<not> key_equiv lt k (fst e)}"
  by (simp add: map_erase_def)

lemma set_map_emplace: "set (map_emplace lt k v m) \<subseteq> insert (k, v) (set m)"
  by (induction m) auto

subsection \<open>The contract of \<open>Compare\<close>\<close>

text \<open>
  What the standard asks of a comparator: a strict weak ordering. Every \<open>std::map\<close> of the
  program rests on it, and its laws below are proved from it alone.
\<close>

locale strict_weak_order =
  fixes lt :: "'k \<Rightarrow> 'k \<Rightarrow> bool"
  assumes lt_irrefl: "\<not> lt a a"
    and lt_trans: "lt a b \<Longrightarrow> lt b c \<Longrightarrow> lt a c"
    and equiv_trans: "key_equiv lt a b \<Longrightarrow> key_equiv lt b c \<Longrightarrow> key_equiv lt a c"
begin

lemma equiv_refl [simp]: "key_equiv lt a a"
  by (simp add: key_equiv_def lt_irrefl)

lemma equiv_sym: "key_equiv lt a b \<Longrightarrow> key_equiv lt b a"
  by (simp add: key_equiv_def)

lemma lt_asym: "lt a b \<Longrightarrow> \<not> lt b a"
  using lt_trans lt_irrefl by blast

lemma lt_equiv_left: "key_equiv lt a b \<Longrightarrow> lt b c \<Longrightarrow> lt a c"
  using lt_trans equiv_trans equiv_sym unfolding key_equiv_def by meson

lemma lt_equiv_right: "key_equiv lt b c \<Longrightarrow> lt a b \<Longrightarrow> lt a c"
  using lt_trans equiv_trans equiv_sym unfolding key_equiv_def by meson

lemma wf_emplace: "map_wf lt m \<Longrightarrow> map_wf lt (map_emplace lt k v m)"
proof (induction m)
  case Nil
  then show ?case by simp
next
  case (Cons e m)
  then show ?case using set_map_emplace [of lt k v m] by (auto intro: lt_trans)
qed

lemma fst_assign: "map fst (map_assign lt k v m) = map fst (map_emplace lt k v m)"
  by (induction m) auto

lemma wf_assign: "map_wf lt m \<Longrightarrow> map_wf lt (map_assign lt k v m)"
  using wf_emplace [of m k v] by (simp add: map_wf_def fst_assign)

lemma find_head_less:
  "map_wf lt (e # m) \<Longrightarrow> lt k (fst e) \<Longrightarrow> map_find lt k (e # m) = None"
  by (auto simp: map_find_None_iff key_equiv_def intro: lt_trans)

lemma find_emplace_same:
  "map_wf lt m \<Longrightarrow>
     map_find lt k (map_emplace lt k v m)
       = (case map_find lt k m of None \<Rightarrow> Some (k, v) | Some e \<Rightarrow> Some e)"
proof (induction m)
  case Nil
  then show ?case by simp
next
  case (Cons e m)
  show ?case
  proof (cases "lt k (fst e)")
    case True
    with Cons.prems have "map_find lt k (e # m) = None" by (rule find_head_less)
    with True show ?thesis by simp
  next
    case False
    with Cons show ?thesis by (auto simp: key_equiv_def)
  qed
qed

lemma find_emplace_other:
  "\<not> key_equiv lt k j \<Longrightarrow> map_find lt j (map_emplace lt k v m) = map_find lt j m"
  by (induction m) (auto dest: equiv_sym)

lemma find_assign_same:
  "map_wf lt m \<Longrightarrow>
     map_find lt k (map_assign lt k v m)
       = (case map_find lt k m of None \<Rightarrow> Some (k, v) | Some e \<Rightarrow> Some (fst e, v))"
proof (induction m)
  case Nil
  then show ?case by simp
next
  case (Cons e m)
  show ?case
  proof (cases "lt k (fst e)")
    case True
    with Cons.prems have "map_find lt k (e # m) = None" by (rule find_head_less)
    with True show ?thesis by simp
  next
    case False
    with Cons show ?thesis by (auto simp: key_equiv_def)
  qed
qed

lemma find_assign_other:
  "\<not> key_equiv lt k j \<Longrightarrow> map_find lt j (map_assign lt k v m) = map_find lt j m"
proof (induction m)
  case Nil
  then show ?case by (auto dest: equiv_sym)
next
  case (Cons e m)
  have "\<not> key_equiv lt j (fst e)" if "key_equiv lt k (fst e)"
    using that Cons.prems equiv_trans equiv_sym by blast
  with Cons show ?case by (auto simp: key_equiv_def)
qed

lemma find_erase_other:
  "\<not> key_equiv lt k j \<Longrightarrow> map_find lt j (map_erase lt k m) = map_find lt j m"
  by (induction m) (auto simp: map_erase_def dest: equiv_sym equiv_trans)

lemma find_cong: "key_equiv lt j k \<Longrightarrow> map_find lt j m = map_find lt k m"
proof (induction m)
  case Nil
  then show ?case by simp
next
  case (Cons e m)
  then have "key_equiv lt j (fst e) \<longleftrightarrow> key_equiv lt k (fst e)"
    using equiv_trans equiv_sym by blast
  with Cons show ?case by simp
qed

lemma find_member:
  "map_wf lt m \<Longrightarrow> e \<in> set m \<Longrightarrow> map_find lt (fst e) m = Some e"
proof (induction m)
  case Nil
  then show ?case by simp
next
  case (Cons a m)
  then show ?case by (auto simp: key_equiv_def lt_irrefl)
qed

lemma emplace_present: "map_wf lt m \<Longrightarrow> map_find lt k m \<noteq> None \<Longrightarrow> map_emplace lt k v m = m"
proof (induction m)
  case Nil
  then show ?case by simp
next
  case (Cons e m)
  have "\<not> lt k (fst e)"
  proof
    assume "lt k (fst e)"
    with Cons.prems(1) have "map_find lt k (e # m) = None" by (rule find_head_less)
    with Cons.prems(2) show False by simp
  qed
  with Cons show ?case by (auto simp: key_equiv_def)
qed

lemma length_emplace:
  "map_wf lt m \<Longrightarrow>
     length (map_emplace lt k v m) = length m + (if map_find lt k m = None then 1 else 0)"
proof (induction m)
  case Nil
  then show ?case by simp
next
  case (Cons e m)
  show ?case
  proof (cases "lt k (fst e)")
    case True
    with Cons.prems have "map_find lt k (e # m) = None" by (rule find_head_less)
    with True show ?thesis by simp
  next
    case False
    with Cons show ?thesis by (auto simp: key_equiv_def)
  qed
qed

lemma length_erase:
  "map_wf lt m \<Longrightarrow>
     length (map_erase lt k m) = length m - (if map_find lt k m = None then 0 else 1)"
proof (induction m)
  case Nil
  then show ?case by (simp add: map_erase_def)
next
  case (Cons e m)
  show ?case
  proof (cases "key_equiv lt k (fst e)")
    case True
    have "\<not> key_equiv lt k (fst x)" if "x \<in> set m" for x
    proof -
      from Cons.prems that have "lt (fst e) (fst x)" by simp
      with True have "lt k (fst x)" by (rule lt_equiv_left)
      then show ?thesis by (simp add: key_equiv_def)
    qed
    then have "map_erase lt k m = m" by (simp add: map_erase_absent map_find_None_iff)
    with True show ?thesis by (simp add: map_erase_def)
  next
    case False
    have "map_find lt k m \<noteq> None \<Longrightarrow> m \<noteq> []" by auto
    with False Cons show ?thesis by (cases m) (auto simp: map_erase_def)
  qed
qed

end

subsection \<open>Comparators that decide equality\<close>

locale strict_total_order = strict_weak_order lt for lt :: "'k \<Rightarrow> 'k \<Rightarrow> bool" +
  assumes equiv_eq: "key_equiv lt a b \<Longrightarrow> a = b"
begin

lemma equiv_iff [simp]: "key_equiv lt a b \<longleftrightarrow> a = b"
  using equiv_eq by auto

lemma find_map_of: "map_find lt k m = map_option (Pair k) (map_of m k)"
  by (induction m) auto

lemma wf_distinct: "map_wf lt m \<Longrightarrow> distinct (map fst m)"
  by (induction m) (use lt_irrefl in force)+

lemma set_emplace_new:
  "map_find lt k m = None \<Longrightarrow> set (map_emplace lt k v m) = insert (k, v) (set m)"
proof (induction m)
  case Nil
  then show ?case by simp
next
  case (Cons e m)
  then have "k \<noteq> fst e" by auto
  then have "lt k (fst e) \<or> lt (fst e) k"
    using equiv_eq unfolding key_equiv_def by blast
  with Cons show ?case by (auto split: if_splits)
qed

end

text \<open>\<open>std::less\<close> on integers and on strings: the built-in linear orders.\<close>

interpretation std_less: strict_total_order "(<) :: 'a::linorder \<Rightarrow> 'a \<Rightarrow> bool"
  by unfold_locales (auto simp: key_equiv_def)

end
