(* ===== verification/Conn_Info.thy ===== *)
theory Conn_Info
  imports Enc_Head Std_Map
begin

section \<open>Connection records (bean/ConnInfo, bean/TcpInfo) and their keys\<close>

text \<open>
  \<open>ConnInfo\<close> holds the two addresses of a connection and a pointer to the header of the
  packet at hand; \<open>TcpInfo\<close> extends it with the sequence numbers and the flags of a TCP
  segment, as its C++ subclass does. Where the code asks the dynamic type (\<open>IsUdp\<close>), the
  model has the sum \<open>any_info\<close>. \<open>TcpCmpFn\<close> orders the pools keyed by \<open>TcpInfo\<close>.
  Addresses are in network byte order, so the first byte printed is the lowest one.
  \<open>sizeof\<close> is that of the 64-bit ABI: 32 bytes for \<open>ConnInfo\<close>, 48 for \<open>TcpInfo\<close>.
\<close>

subsection \<open>Definitions\<close>

record conn_info =
  ci_src :: u32
  ci_dst :: u32
  ci_sp :: u16
  ci_dp :: u16
  ci_head :: "enc_head option"

record tcp_info = conn_info +
  ti_seq :: u32
  ti_ack :: u32
  ti_flag :: u8

datatype any_info = UdpI conn_info | TcpI tcp_info

fun IsUdp :: "any_info \<Rightarrow> bool" where
  "IsUdp (UdpI _) = True"
| "IsUdp (TcpI _) = False"

definition base_of :: "tcp_info \<Rightarrow> conn_info" where
  "base_of t = \<lparr>ci_src = ci_src t, ci_dst = ci_dst t, ci_sp = ci_sp t, ci_dp = ci_dp t, ci_head = ci_head t\<rparr>"

fun info_base :: "any_info \<Rightarrow> conn_info" where
  "info_base (UdpI c) = c"
| "info_base (TcpI t) = base_of t"

definition TH_FIN :: u8 where "TH_FIN = 0x01"
definition TH_SYN :: u8 where "TH_SYN = 0x02"
definition TH_RST :: u8 where "TH_RST = 0x04"
definition TH_ACK :: u8 where "TH_ACK = 0x10"

definition new_conn_info :: conn_info where
  "new_conn_info = \<lparr>ci_src = 0, ci_dst = 0, ci_sp = 0, ci_dp = 0, ci_head = None\<rparr>"

text \<open>The converting constructor \<open>TcpInfo(const ConnInfo &)\<close>.\<close>

definition TcpInfo_of :: "conn_info \<Rightarrow> tcp_info" where
  "TcpInfo_of c = \<lparr>ci_src = ci_src c, ci_dst = ci_dst c, ci_sp = ci_sp c, ci_dp = ci_dp c,
     ci_head = ci_head c, ti_seq = 0, ti_ack = 0, ti_flag = TH_ACK\<rparr>"

definition new_tcp_info :: tcp_info where
  "new_tcp_info = TcpInfo_of new_conn_info"

definition HasCloseFlag :: "tcp_info \<Rightarrow> bool" where
  "HasCloseFlag t \<longleftrightarrow> ti_flag t AND (TH_FIN OR TH_RST) \<noteq> 0"

definition UpdateAck :: "tcp_info \<Rightarrow> u32 \<Rightarrow> tcp_info" where
  "UpdateAck t a = t\<lparr>ti_ack := a\<rparr>"

definition UpdateSeq :: "tcp_info \<Rightarrow> u32 \<Rightarrow> tcp_info" where
  "UpdateSeq t s = t\<lparr>ti_seq := s\<rparr>"

definition ConnInfo_Reverse :: "('a) conn_info_scheme \<Rightarrow> 'a conn_info_scheme" where
  "ConnInfo_Reverse c = c\<lparr>ci_src := ci_dst c, ci_dst := ci_src c, ci_sp := ci_dp c, ci_dp := ci_sp c\<rparr>"

definition TcpInfo_Reverse :: "tcp_info \<Rightarrow> tcp_info" where
  "TcpInfo_Reverse t = (let t = ConnInfo_Reverse t in t\<lparr>ti_seq := ti_ack t, ti_ack := ti_seq t\<rparr>)"

definition ConnInfo_Encode :: "bool \<Rightarrow> 'a conn_info_scheme \<Rightarrow> buf \<Rightarrow> nat \<Rightarrow> int \<Rightarrow> (buf \<times> nat option) option" where
  "ConnInfo_Encode le c b p len =
     (if len < 32 then Some (b, None)
      else do {
        (b, p) \<leftarrow> encode_uint32 le (ci_src c) b p;
        (b, p) \<leftarrow> encode_uint32 le (ci_dst c) b p;
        (b, p) \<leftarrow> encode_uint16 le (ci_sp c) b p;
        (b, p) \<leftarrow> encode_uint16 le (ci_dp c) b p;
        Some (b, Some p) })"

definition ConnInfo_Decode :: "bool \<Rightarrow> 'a conn_info_scheme \<Rightarrow> buf \<Rightarrow> nat \<Rightarrow> int \<Rightarrow> ('a conn_info_scheme \<times> nat option) option" where
  "ConnInfo_Decode le c b p len =
     (if len < 4 + 4 + 2 + 2 then Some (c, None)
      else do {
        (s, p) \<leftarrow> decode_uint32 le b p;
        (d, p) \<leftarrow> decode_uint32 le b p;
        (sp, p) \<leftarrow> decode_uint16 le b p;
        (dp, p) \<leftarrow> decode_uint16 le b p;
        Some (c\<lparr>ci_src := s, ci_dst := d, ci_sp := sp, ci_dp := dp\<rparr>, Some p) })"

definition TcpInfo_Encode :: "bool \<Rightarrow> tcp_info \<Rightarrow> buf \<Rightarrow> nat \<Rightarrow> int \<Rightarrow> (buf \<times> nat option) option" where
  "TcpInfo_Encode le t b p len =
     (if len < 48 then Some (b, None)
      else do {
        (b, r) \<leftarrow> ConnInfo_Encode le t b p len;
        case r of
          None \<Rightarrow> Some (b, None)
        | Some p \<Rightarrow> do {
            (b, p) \<leftarrow> encode_uint32 le (ti_seq t) b p;
            (b, p) \<leftarrow> encode_uint32 le (ti_ack t) b p;
            (b, p) \<leftarrow> encode_uint8 (ti_flag t) b p;
            Some (b, Some p) } })"

definition TcpInfo_Decode :: "bool \<Rightarrow> tcp_info \<Rightarrow> buf \<Rightarrow> nat \<Rightarrow> int \<Rightarrow> (tcp_info \<times> nat option) option" where
  "TcpInfo_Decode le t b p0 len =
     do { (t, r) \<leftarrow> ConnInfo_Decode le t b p0 len;
          case r of
            None \<Rightarrow> Some (t, None)
          | Some p \<Rightarrow>
              if p - p0 < 4 + 4 + 1 then Some (t, None)
              else do {
                (s, p) \<leftarrow> decode_uint32 le b p;
                (a, p) \<leftarrow> decode_uint32 le b p;
                (f, p) \<leftarrow> decode_uint8 b p;
                Some (t\<lparr>ti_seq := s, ti_ack := a, ti_flag := f\<rparr>, Some p) } }"

text \<open>\<open>TcpCmpFn\<close>: the first field that differs decides.\<close>

fun cmp_fields :: "(nat \<times> nat) list \<Rightarrow> bool" where
  "cmp_fields [] = False"
| "cmp_fields ((a, b) # l) = (if a < b then True else if a > b then False else cmp_fields l)"

definition TcpCmpFn :: "tcp_info \<Rightarrow> tcp_info \<Rightarrow> bool" where
  "TcpCmpFn i1 i2 = cmp_fields
     [(unat (ci_src i1), unat (ci_src i2)), (unat (ci_sp i1), unat (ci_sp i2)),
      (unat (ci_dst i1), unat (ci_dst i2)), (unat (ci_dp i1), unat (ci_dp i2))]"

definition TcpEquals :: "tcp_info \<Rightarrow> tcp_info \<Rightarrow> bool" where
  "TcpEquals i1 i2 \<longleftrightarrow> ci_src i1 = ci_src i2 \<and> ci_sp i1 = ci_sp i2 \<and> ci_dst i1 = ci_dst i2 \<and> ci_dp i1 = ci_dp i2"

definition TYPE_TCP :: u64 where "TYPE_TCP = 0x10000000"
definition TYPE_UDP :: u64 where "TYPE_UDP = 0x20000000"
definition TYPE_ICMP :: u64 where "TYPE_ICMP = 0x30000000"
definition INVALID_KEY :: u64 where "INVALID_KEY = 0"

definition KeyForTcp :: "'a conn_info_scheme \<Rightarrow> u64 option" where
  "KeyForTcp info =
     (if ci_sp info \<noteq> 0 \<and> ci_dp info \<noteq> 0
      then Some (TYPE_TCP OR (push_bit 16 (ucast (ci_dp info)) OR ucast (ci_sp info))) else None)"

definition KeyForUdp :: "'a conn_info_scheme \<Rightarrow> u64 option" where
  "KeyForUdp info =
     (if ci_sp info \<noteq> 0 \<and> ci_dp info \<noteq> 0
      then Some (TYPE_UDP OR (push_bit 16 (ucast (ci_dp info)) OR ucast (ci_sp info))) else None)"

fun KeyForConnInfo :: "any_info \<Rightarrow> u64 option" where
  "KeyForConnInfo (TcpI t) = KeyForTcp t"
| "KeyForConnInfo (UdpI c) = KeyForUdp c"

definition NewKeyForIcmp :: "u64 \<Rightarrow> u64 \<times> u64" where
  "NewKeyForIcmp sIcmpConv = (TYPE_ICMP OR sIcmpConv, sIcmpConv + 1)"

definition StrForIntKey :: "u64 \<Rightarrow> string" where
  "StrForIntKey key = to_string (unat key)"

primrec ip_octets :: "nat \<Rightarrow> nat \<Rightarrow> u32 \<Rightarrow> string" where
  "ip_octets 0 i a = []"
| "ip_octets (Suc n) i a =
     (if i > 0 then ''.'' else []) @ to_string (unat (a AND 0xff)) @ ip_octets n (i + 1) (drop_bit 8 a)"

definition InAddr2Ip :: "u32 \<Rightarrow> string" where
  "InAddr2Ip a = ip_octets 4 0 a"

definition BuildConvKey :: "u32 \<Rightarrow> u32 \<Rightarrow> string" where
  "BuildConvKey dst conv = ''conv:'' @ InAddr2Ip dst @ '':'' @ to_string (unat conv)"

definition ConnInfo_ToStr :: "any_info \<Rightarrow> string" where
  "ConnInfo_ToStr i = (let c = info_base i in
     (if IsUdp i then ''udp'' else ''tcp'') @ '':'' @
     ''src:'' @ InAddr2Ip (ci_src c) @ '', sp:'' @ to_string (unat (ci_sp c)) @
     '', dst:'' @ InAddr2Ip (ci_dst c) @ '', dp: '' @ to_string (unat (ci_dp c)))"

definition TcpInfo_ToStr :: "tcp_info \<Rightarrow> string" where
  "TcpInfo_ToStr t = ConnInfo_ToStr (TcpI t) @ '', seq:'' @ to_string (unat (ti_seq t)) @
     '', ack: '' @ to_string (unat (ti_ack t)) @ '', flag: '' @ to_string (unat (ti_flag t))"

definition BuildPrintableStr :: "any_info \<Rightarrow> u64 \<Rightarrow> string" where
  "BuildPrintableStr i key = (let c = info_base i in
     (if IsUdp i then ''udp:'' else ''tcp:'') @ InAddr2Ip (ci_src c) @ '':'' @ to_string (unat (ci_sp c)) @ ''-''
     @ InAddr2Ip (ci_dst c) @ '':'' @ to_string (unat (ci_dp c)) @ '', key: '' @ to_string (unat key))"

subsection \<open>The order of the pools\<close>

lemma TcpCmpFn_iff:
  "TcpCmpFn a b \<longleftrightarrow>
     ci_src a < ci_src b \<or> ci_src a = ci_src b \<and> (ci_sp a < ci_sp b \<or> ci_sp a = ci_sp b \<and>
     (ci_dst a < ci_dst b \<or> ci_dst a = ci_dst b \<and> ci_dp a < ci_dp b))"
  by (auto simp: TcpCmpFn_def word_less_nat_alt word_unat_eq_iff)

lemma TcpCmpFn_equiv: "key_equiv TcpCmpFn a b \<longleftrightarrow> TcpEquals a b"
  by (auto simp: key_equiv_def TcpCmpFn_iff TcpEquals_def)

interpretation tcp_cmp: strict_weak_order TcpCmpFn
proof
  show "\<not> TcpCmpFn a a" for a by (simp add: TcpCmpFn_iff)
  show "TcpCmpFn a b \<Longrightarrow> TcpCmpFn b c \<Longrightarrow> TcpCmpFn a c" for a b c
    unfolding TcpCmpFn_iff by (elim disjE conjE) auto
  show "key_equiv TcpCmpFn a b \<Longrightarrow> key_equiv TcpCmpFn b c \<Longrightarrow> key_equiv TcpCmpFn a c" for a b c
    by (simp add: TcpCmpFn_equiv TcpEquals_def)
qed

lemma Reverse_Reverse [simp]: "TcpInfo_Reverse (TcpInfo_Reverse t) = t"
  by (simp add: TcpInfo_Reverse_def ConnInfo_Reverse_def Let_def)

subsection \<open>Keys\<close>

definition join16 :: "u16 \<Rightarrow> u16 \<Rightarrow> u64" where
  "join16 x y = push_bit 16 (ucast x) OR ucast y"

lemma join16_inject [simp]: "join16 x y = join16 x' y' \<longleftrightarrow> x = x' \<and> y = y'"
proof
  have lo: "ucast (join16 x y) = y" for x y
    by (rule bit_word_eqI) (auto simp: join16_def bit_simps)
  have hi: "ucast (drop_bit 16 (join16 x y)) = x" for x y
    by (rule bit_word_eqI) (auto simp: join16_def bit_simps dest: bit_imp_le_length)
  assume "join16 x y = join16 x' y'"
  then show "x = x' \<and> y = y'" by (metis lo hi)
qed simp

lemma join16_OR: "push_bit 16 (ucast m) OR join16 x y = join16 (m OR x) y"
  by (rule bit_word_eqI) (auto simp: join16_def bit_simps)

lemma KeyForTcp_join:
  "KeyForTcp c = (if ci_sp c \<noteq> 0 \<and> ci_dp c \<noteq> 0 then Some (join16 (0x1000 OR ci_dp c) (ci_sp c)) else None)"
proof -
  have t: "TYPE_TCP = push_bit 16 (ucast (0x1000 :: u16))" unfolding TYPE_TCP_def by code_simp
  show ?thesis unfolding KeyForTcp_def t join16_def [symmetric] join16_OR by (rule refl)
qed

lemma KeyForUdp_join:
  "KeyForUdp c = (if ci_sp c \<noteq> 0 \<and> ci_dp c \<noteq> 0 then Some (join16 (0x2000 OR ci_dp c) (ci_sp c)) else None)"
proof -
  have t: "TYPE_UDP = push_bit 16 (ucast (0x2000 :: u16))" unfolding TYPE_UDP_def by code_simp
  show ?thesis unfolding KeyForUdp_def t join16_def [symmetric] join16_OR by (rule refl)
qed

lemma StrForIntKey_inject [simp]: "StrForIntKey a = StrForIntKey b \<longleftrightarrow> a = b"
  by (simp add: StrForIntKey_def word_unat_eq_iff)

subsection \<open>Addresses as text\<close>

lemma InAddr2Ip_octets:
  "InAddr2Ip a = to_string (unat (a AND 0xff)) @ ''.'' @ to_string (unat (drop_bit 8 a AND 0xff)) @ ''.'' @
     to_string (unat (drop_bit 16 a AND 0xff)) @ ''.'' @ to_string (unat (drop_bit 24 a AND 0xff))"
  by (simp add: InAddr2Ip_def numeral_eq_Suc [of "num.Bit0 (num.Bit0 num.One)"] eval_nat_numeral drop_bit_drop_bit)

lemma octets_determine:
  assumes "a AND 0xff = (b :: u32) AND 0xff" "drop_bit 8 a AND 0xff = drop_bit 8 b AND 0xff"
    "drop_bit 16 a AND 0xff = drop_bit 16 b AND 0xff" "drop_bit 24 a AND 0xff = drop_bit 24 b AND 0xff"
  shows "a = b"
proof (rule bit_word_eqI)
  fix n assume n: "n < LENGTH(32)"
  have m: "(0xff :: u32) = mask 8" by code_simp
  have r: "bit (drop_bit k w AND mask 8) (n - k) = bit w n" if "k \<le> n" "n < k + 8" for k and w :: u32
    using that by (auto simp: bit_simps)
  have eq: "bit a n = bit b n" if "k \<le> n" "n < k + 8" "drop_bit k a AND 0xff = drop_bit k b AND 0xff" for k
    using r [OF that(1,2), of a] r [OF that(1,2), of b] that(3) unfolding m by simp
  from n consider "n < 8" | "8 \<le> n \<and> n < 16" | "16 \<le> n \<and> n < 24" | "24 \<le> n \<and> n < 32" by fastforce
  then show "bit a n = bit b n"
    by cases (use eq [of 0] eq [of 8] eq [of 16] eq [of 24] assms in simp_all)
qed

lemma InAddr2Ip_inject [simp]: "InAddr2Ip a = InAddr2Ip b \<longleftrightarrow> a = b"
proof
  assume "InAddr2Ip a = InAddr2Ip b"
  then show "a = b"
    unfolding InAddr2Ip_octets
    by (auto simp: number_sep_inject word_unat_eq_iff [symmetric] intro: octets_determine)
qed simp

lemma not_colon_InAddr2Ip: "CHR '':'' \<notin> set (InAddr2Ip a)"
  by (simp add: InAddr2Ip_octets not_digit_notin_to_string)

subsection \<open>The layout of a TCP record\<close>

definition tcp_bytes :: "tcp_info \<Rightarrow> byte list" where
  "tcp_bytes t = le32 (ci_src t) @ le32 (ci_dst t) @ le16 (ci_sp t) @ le16 (ci_dp t)
     @ le32 (ti_seq t) @ le32 (ti_ack t) @ [ti_flag t]"

lemma length_tcp_bytes [simp]: "length (tcp_bytes t) = 21"
  by (simp add: tcp_bytes_def)

lemma TcpInfo_Encode_layout:
  assumes "48 \<le> len"
  shows "TcpInfo_Encode True t b p len = do { (b, q) \<leftarrow> put_bytes b p (tcp_bytes t); Some (b, Some q) }"
  using assms
  by (auto simp: TcpInfo_Encode_def ConnInfo_Encode_def encode_le put_put tcp_bytes_def
        put_bytes_append split: Option.bind_splits)

text \<open>Reading is defined by the bytes present, not by the length the caller passes.\<close>

lemma TcpInfo_Decode_reads:
  assumes "12 \<le> len" and "p + 21 \<le> length b"
  shows "\<exists>t'. TcpInfo_Decode le t b p len = Some (t', Some (p + 21))"
proof -
  have rd: "read_bytes b q n = Some (take n (drop q b))" if "q + n \<le> p + 21" for q n
    using assms(2) that by (simp add: read_bytes_def)
  show ?thesis
    using assms(1)
    by (simp add: TcpInfo_Decode_def ConnInfo_Decode_def decode_uint32_def decode_uint16_def
          decode_uint8_def rd)
qed

lemma TcpInfo_Decode_faults:
  assumes "12 \<le> len" and "length b < p + 21"
  shows "TcpInfo_Decode le t b p len = None"
  using assms
  by (auto simp: TcpInfo_Decode_def ConnInfo_Decode_def decode_uint32_def decode_uint16_def
        decode_uint8_def read_bytes_def split: Option.bind_splits if_splits)

lemma TcpInfo_Decode_layout:
  assumes "12 \<le> len" and "holds_at b p (tcp_bytes i)"
  shows "TcpInfo_Decode le t b p len = Some (i\<lparr>ci_head := ci_head t\<rparr>, Some (p + 21))"
proof -
  have h: "holds_at b p (le32 (ci_src i))" "holds_at b (p + 4) (le32 (ci_dst i))"
    "holds_at b (8 + p) (le16 (ci_sp i))" "holds_at b (10 + p) (le16 (ci_dp i))"
    "holds_at b (12 + p) (le32 (ti_seq i))" "holds_at b (16 + p) (le32 (ti_ack i))"
    "holds_at b (20 + p) [ti_flag i]"
    using assms(2) unfolding tcp_bytes_def holds_at_append by (simp_all add: ac_simps)
  then show ?thesis
    using assms(1)
    by (simp add: TcpInfo_Decode_def ConnInfo_Decode_def decode_holds)
qed

subsection \<open>Properties\<close>

text \<open>
  the record that travels between the capture thread and the event loop survives the
  trip. \<open>TcpInfo::Encode\<close> into a buffer with the room it asks for and \<open>TcpInfo::Decode\<close> of the
  result give back both addresses, both ports, the sequence numbers and the flags, and agree
  on the 21 bytes in between; the decoder's header pointer is the only field not transported.
\<close>

theorem tcp_info_roundtrip:
  assumes "48 \<le> len" and "int p + len \<le> int (length b)"
  shows "\<exists>b'. TcpInfo_Encode True t b p len = Some (b', Some (p + 21))
     \<and> TcpInfo_Decode le t0 b' p len = Some (t\<lparr>ci_head := ci_head t0\<rparr>, Some (p + 21))"
proof -
  from assms have "p + length (tcp_bytes t) \<le> length b" by simp
  then obtain b' where "put_bytes b p (tcp_bytes t) = Some (b', p + 21)" "holds_at b' p (tcp_bytes t)"
    using put_bytes_fits by fastforce
  with assms(1) show ?thesis
    by (simp add: TcpInfo_Encode_layout TcpInfo_Decode_layout)
qed

theorem tcp_info_roundtrip_witness:
  "\<exists>b'. TcpInfo_Encode True (new_tcp_info\<lparr>ci_sp := 10001, ti_seq := 5\<rparr>) (replicate 1500 0) 0 1500
          = Some (b', Some 21)
      \<and> TcpInfo_Decode True new_tcp_info b' 0 1500
          = Some (new_tcp_info\<lparr>ci_sp := 10001, ti_seq := 5\<rparr>, Some 21)"
  using tcp_info_roundtrip [of 1500 0 "replicate 1500 0" "new_tcp_info\<lparr>ci_sp := 10001, ti_seq := 5\<rparr>" True new_tcp_info]
  by (simp add: new_tcp_info_def TcpInfo_of_def new_conn_info_def)

text \<open>
  \<open>TcpInfo::Decode\<close> does not honour the length it is given. From 12 bytes on it always
  consumes 21: its second check compares the bytes already read, not the bytes left. So a
  datagram of 12 to 20 bytes in a larger buffer is accepted with fields taken from behind
  its end, and in a buffer that ends with the datagram the read leaves the buffer.
\<close>

theorem tcp_decode_ignores_length:
  assumes "12 \<le> len"
  shows "(p + 21 \<le> length b \<longrightarrow> (\<exists>t'. TcpInfo_Decode le t b p len = Some (t', Some (p + 21))))
       \<and> (length b < p + 21 \<longrightarrow> TcpInfo_Decode le t b p len = None)"
  using TcpInfo_Decode_reads TcpInfo_Decode_faults assms by blast

theorem tcp_decode_ignores_length_witness:
  "(\<exists>t'. TcpInfo_Decode True new_tcp_info (replicate 1500 0) 0 12 = Some (t', Some 21))
   \<and> TcpInfo_Decode True new_tcp_info (replicate 12 0) 0 12 = None"
  using tcp_decode_ignores_length [of 12 0 "replicate 1500 0" True new_tcp_info]
    tcp_decode_ignores_length [of 12 0 "replicate 12 0" True new_tcp_info] by simp

text \<open>
  which connections share a key. The type tag occupies bits 28 and 29 of the key, which
  bits 12 and 13 of the destination port also occupy. Two TCP connections have the same key
  exactly when their source ports agree and their destination ports agree outside bit 12, two
  UDP connections when they agree outside bit 13, and a TCP and a UDP connection when the
  tagged destination ports coincide.
\<close>

theorem key_collisions:
  fixes a b :: tcp_info and c d :: conn_info
  assumes "ci_sp a \<noteq> 0" "ci_dp a \<noteq> 0" "ci_sp b \<noteq> 0" "ci_dp b \<noteq> 0"
    and "ci_sp c \<noteq> 0" "ci_dp c \<noteq> 0" "ci_sp d \<noteq> 0" "ci_dp d \<noteq> 0"
  shows "(KeyForTcp a = KeyForTcp b \<longleftrightarrow>
            ci_sp a = ci_sp b \<and> 0x1000 OR ci_dp a = 0x1000 OR ci_dp b)
       \<and> (KeyForUdp c = KeyForUdp d \<longleftrightarrow>
            ci_sp c = ci_sp d \<and> 0x2000 OR ci_dp c = 0x2000 OR ci_dp d)
       \<and> (KeyForTcp a = KeyForUdp c \<longleftrightarrow>
            ci_sp a = ci_sp c \<and> 0x1000 OR ci_dp a = 0x2000 OR ci_dp c)"
  using assms by (auto simp: KeyForTcp_join KeyForUdp_join)

theorem key_collisions_witness:
  "KeyForTcp (new_tcp_info\<lparr>ci_sp := 40000, ci_dp := 10001\<rparr>)
     = KeyForUdp (new_conn_info\<lparr>ci_sp := 40000, ci_dp := 14097\<rparr>)"
  using key_collisions [of "new_tcp_info\<lparr>ci_sp := 40000, ci_dp := 10001\<rparr>"
      "new_tcp_info\<lparr>ci_sp := 40000, ci_dp := 10001\<rparr>"
      "new_conn_info\<lparr>ci_sp := 40000, ci_dp := 14097\<rparr>" "new_conn_info\<lparr>ci_sp := 40000, ci_dp := 14097\<rparr>"]
  by simp

text \<open>
  on the default ports 10001 to 10010 the keys do identify connections: different source
  ports, different destination ports of the range and different protocols give different keys.
\<close>

theorem default_port_keys_distinct:
  fixes a :: "'a conn_info_scheme" and b :: "'b conn_info_scheme"
  assumes "ci_sp a \<noteq> 0" "ci_sp b \<noteq> 0"
    and "unat (ci_dp a) \<in> {10001..10010}" "unat (ci_dp b) \<in> {10001..10010}"
  shows "(KeyForTcp a = KeyForTcp b \<longleftrightarrow> ci_sp a = ci_sp b \<and> ci_dp a = ci_dp b)
       \<and> (KeyForUdp a = KeyForUdp b \<longleftrightarrow> ci_sp a = ci_sp b \<and> ci_dp a = ci_dp b)
       \<and> KeyForTcp a \<noteq> KeyForUdp b"
proof -
  have range: "x \<in> set [10001, 10002, 10003, 10004, 10005, 10006, 10007, 10008, 10009, 10010 :: u16]"
    if "unat x \<in> {10001..10010}" for x :: u16
  proof -
    from that have "unat x \<in> set [10001, 10002, 10003, 10004, 10005, 10006, 10007, 10008, 10009, 10010]"
      by simp arith
    then show ?thesis by (auto dest: arg_cong [where f = "of_nat :: nat \<Rightarrow> u16"])
  qed
  have bits: "(0x1000 OR x) AND 0xEFFF = x" "0x2000 OR x = x" "x AND 0x1000 = 0"
      "(0x1000 OR x) AND 0x1000 = 0x1000" "x \<noteq> 0" if "unat x \<in> {10001..10010}" for x :: u16
    using range [OF that] by auto
  have "0x1000 OR ci_dp a = 0x1000 OR ci_dp b \<longleftrightarrow> ci_dp a = ci_dp b"
    using bits(1) [OF assms(3)] bits(1) [OF assms(4)] by metis
  moreover have "0x1000 OR ci_dp a \<noteq> ci_dp b"
  proof
    assume "0x1000 OR ci_dp a = ci_dp b"
    then have "ci_dp b AND 0x1000 = 0x1000" using bits(4) [OF assms(3)] by metis
    with bits(3) [OF assms(4)] show False by simp
  qed
  ultimately show ?thesis
    using bits(2,5) [OF assms(3)] bits(2,5) [OF assms(4)] assms(1,2)
    by (auto simp: KeyForTcp_join KeyForUdp_join)
qed

theorem default_port_keys_distinct_witness:
  "KeyForTcp (new_tcp_info\<lparr>ci_sp := 40000, ci_dp := 10001\<rparr>)
     \<noteq> KeyForUdp (new_conn_info\<lparr>ci_sp := 40000, ci_dp := 10001\<rparr>)"
  using default_port_keys_distinct [of "new_tcp_info\<lparr>ci_sp := 40000, ci_dp := 10001\<rparr>"
      "new_conn_info\<lparr>ci_sp := 40000, ci_dp := 10001\<rparr>"] by auto

text \<open>
  the textual keys of conversations are unambiguous: \<open>BuildConvKey\<close> gives the same string
  only for the same address and the same conversation number.
\<close>

theorem conv_key_injective:
  "BuildConvKey d1 c1 = BuildConvKey d2 c2 \<longleftrightarrow> d1 = d2 \<and> c1 = c2"
proof
  assume "BuildConvKey d1 c1 = BuildConvKey d2 c2"
  then have eq: "InAddr2Ip d1 @ CHR '':'' # to_string (unat c1) = InAddr2Ip d2 @ CHR '':'' # to_string (unat c2)"
    by (simp add: BuildConvKey_def)
  have tw: "takeWhile (\<lambda>c. c \<noteq> CHR '':'') (InAddr2Ip d @ CHR '':'' # s) = InAddr2Ip d" for d s
    using not_colon_InAddr2Ip by (subst takeWhile_append2) auto
  from arg_cong [OF eq, of "takeWhile (\<lambda>c. c \<noteq> CHR '':'')"] have "d1 = d2" by (simp add: tw)
  with eq show "d1 = d2 \<and> c1 = c2" by (simp add: word_unat_eq_iff)
qed simp

end
