(* ===== verification/Stream_Sync.thy ===== *)
theory Stream_Sync
  imports Enc_Head
begin

section \<open>Packets over a byte stream (src/sync/TcpStreamSyncConn.cpp)\<close>

text \<open>
  The capture thread hands packets to the event loop through a loop-back stream: \<open>Send\<close>
  prefixes a packet with its length as a host-order \<open>int\<close>, \<open>rawInput\<close> cuts the stream back
  into packets. A read may end anywhere, inside a length as well as inside a packet; the
  object then keeps the piece: \<open>mNextLen\<close> is the length already read (0 while it is not
  known) and the first \<open>mBufLen\<close> bytes of \<open>mTempBuf\<close> are the bytes behind it. The three
  branches of \<open>rawInput\<close> compare what is there with what is missing. \<open>cb\<close> is the callback
  \<open>ISyncConn\<close> was constructed with; it threads a state, so that the order of the deliveries
  is part of the result. The abstract specification is \<open>split_frames\<close>, a function of the
  byte string alone.
\<close>

subsection \<open>Definitions\<close>

definition COUNT_SIZE :: nat where "COUNT_SIZE = 4"
definition MAX_BUF_SIZE :: nat where "MAX_BUF_SIZE = OM_MAX_PKT_SIZE + COUNT_SIZE * 2"
definition RSOCK_UV_MAX_BUF :: nat where "RSOCK_UV_MAX_BUF = 65536"
definition UV_EOF :: int where "UV_EOF = -4095"

record stream_conn =
  mTempBuf :: buf
  mNextLen :: int
  mBufLen :: int
  mLargeBuf :: buf

definition new_stream_conn :: stream_conn where
  "new_stream_conn = \<lparr>mTempBuf = replicate MAX_BUF_SIZE 0, mNextLen = 0, mBufLen = 0,
     mLargeBuf = replicate (RSOCK_UV_MAX_BUF + MAX_BUF_SIZE) 0\<rparr>"

type_synonym 's sync_cb = "byte list \<Rightarrow> 's \<Rightarrow> int \<times> 's"

definition markTempBuf :: "stream_conn \<Rightarrow> int \<Rightarrow> byte list \<Rightarrow> int \<Rightarrow> stream_conn option" where
  "markTempBuf c nextLen src bufLen =
     (if nextLen < 0 then None
      else do {
        t \<leftarrow> (if bufLen > 0 then do { xs \<leftarrow> read_bytes src 0 (nat bufLen); write_bytes (mTempBuf c) 0 xs }
              else Some (mTempBuf c));
        Some (c\<lparr>mTempBuf := t, mBufLen := bufLen, mNextLen := nextLen\<rparr>) })"

text \<open>The loop over \<open>mLargeBuf\<close>: \<open>p\<close> is the cursor, \<open>left\<close> the number of bytes behind it.\<close>

function drain :: "bool \<Rightarrow> 's sync_cb \<Rightarrow> stream_conn \<Rightarrow> nat \<Rightarrow> int \<Rightarrow> int \<Rightarrow> 's \<Rightarrow> (int \<times> stream_conn \<times> 's) option" where
  "drain le cb c p left nret s =
     (if left < 0 then Some (nret, c, s)
      else if left < int COUNT_SIZE then
        do { c \<leftarrow> markTempBuf c 0 (drop p (mLargeBuf c)) left; Some (nret, c, s) }
      else do {
        h \<leftarrow> read_bytes (mLargeBuf c) p COUNT_SIZE;
        let nextLen = sint (of_nat (load_host le h) :: 32 word);
        if \<not> (nextLen > 0 \<and> nextLen < int MAX_BUF_SIZE) then None
        else (let p = p + COUNT_SIZE; left = left - int COUNT_SIZE in
          if nextLen \<le> left then do {
            m \<leftarrow> read_bytes (mLargeBuf c) p (nat nextLen);
            let (nret, s) = cb m s;
            drain le cb c (p + nat nextLen) (left - nextLen) nret s }
          else do { c \<leftarrow> markTempBuf c nextLen (drop p (mLargeBuf c)) left; Some (nret, c, s) }) })"
  by pat_completeness auto
termination
  by (relation "measure (\<lambda>(le, cb, c, p, left, nret, s). nat left)") (auto simp: COUNT_SIZE_def)

declare drain.simps [simp del]

definition rawInput :: "bool \<Rightarrow> 's sync_cb \<Rightarrow> stream_conn \<Rightarrow> int \<Rightarrow> buf \<Rightarrow> 's \<Rightarrow> (int \<times> stream_conn \<times> 's) option" where
  "rawInput le cb c nread b s =
     (if nread > 0 then
        if \<not> mNextLen c \<le> int MAX_BUF_SIZE then None
        else if nread > int (RSOCK_UV_MAX_BUF + MAX_BUF_SIZE) then None
        else (let totLen = nread + mBufLen c in
          if totLen > mNextLen c then do {
            (lb, pbuf) \<leftarrow> (if mNextLen c > 0
               then put_bytes (mLargeBuf c) 0 (store_host le COUNT_SIZE (nat (mNextLen c)))
               else Some (mLargeBuf c, 0));
            let left = (if mNextLen c > 0 then totLen + int COUNT_SIZE else totLen);
            t \<leftarrow> read_bytes (mTempBuf c) 0 (nat (mBufLen c));
            (lb, pbuf) \<leftarrow> put_bytes lb pbuf t;
            x \<leftarrow> read_bytes b 0 (nat nread);
            lb \<leftarrow> write_bytes lb pbuf x;
            drain le cb (c\<lparr>mLargeBuf := lb\<rparr>) 0 left 0 s }
          else if totLen < mNextLen c then do {
            x \<leftarrow> read_bytes b 0 (nat nread);
            t \<leftarrow> write_bytes (mTempBuf c) (nat (mBufLen c)) x;
            Some (0, c\<lparr>mTempBuf := t, mBufLen := mBufLen c + nread\<rparr>, s) }
          else do {
            x \<leftarrow> read_bytes b 0 (nat nread);
            t \<leftarrow> write_bytes (mTempBuf c) (nat (mBufLen c)) x;
            m \<leftarrow> read_bytes t 0 (nat totLen);
            let (n, s) = cb m s;
            c \<leftarrow> markTempBuf (c\<lparr>mTempBuf := t\<rparr>) 0 [] 0;
            Some (n, c, s) })
      else if nread = UV_EOF then do { c \<leftarrow> markTempBuf c 0 [] 0; Some (nread, c, s) }
      else if nread < 0 then None
      else Some (nread, c, s))"

text \<open>\<open>streamCb\<close>, the read callback of libuv: errors are logged and change nothing.\<close>

definition streamCb :: "bool \<Rightarrow> 's sync_cb \<Rightarrow> stream_conn \<Rightarrow> int \<Rightarrow> buf \<Rightarrow> 's \<Rightarrow> (stream_conn \<times> 's) option" where
  "streamCb le cb c nread b s =
     (if nread > 0 then do { (n, c, s) \<leftarrow> rawInput le cb c nread b s; Some (c, s) }
      else Some (c, s))"

text \<open>
  \<open>Send\<close> builds the frame in a local array of \<open>MAX_BUF_SIZE\<close> bytes and passes it to \<open>doSend\<close>,
  whose assertion bounds it once more. The result is the byte string given to the socket.
\<close>

definition stream_doSend :: "byte list \<Rightarrow> int \<Rightarrow> byte list option" where
  "stream_doSend b nread =
     (if nread > 0 then
        if nread < int OM_MAX_PKT_SIZE then read_bytes b 0 (nat nread) else None
      else Some [])"

definition stream_Send :: "bool \<Rightarrow> int \<Rightarrow> buf \<Rightarrow> byte list option" where
  "stream_Send le nread base =
     (if nread > 0 then do {
        b \<leftarrow> write_bytes (replicate MAX_BUF_SIZE 0) 0 (store_host le COUNT_SIZE (nat nread));
        x \<leftarrow> read_bytes base 0 (nat nread);
        b \<leftarrow> write_bytes b COUNT_SIZE x;
        if nread + int COUNT_SIZE \<le> int MAX_BUF_SIZE
        then stream_doSend b (int COUNT_SIZE + nread) else None }
      else Some [])"

subsection \<open>The specification\<close>

definition frame :: "bool \<Rightarrow> byte list \<Rightarrow> byte list" where
  "frame le m = store_host le COUNT_SIZE (length m) @ m"

text \<open>
  The packets at the front of a byte string and the incomplete rest; \<^const>\<open>None\<close> when a
  length that no sender writes turns up.
\<close>

function split_frames :: "bool \<Rightarrow> byte list \<Rightarrow> (byte list list \<times> byte list) option" where
  "split_frames le bs =
     (if length bs < COUNT_SIZE then Some ([], bs)
      else (let n = load_host le (take COUNT_SIZE bs); rest = drop COUNT_SIZE bs in
        if n = 0 \<or> n \<ge> MAX_BUF_SIZE then None
        else if n \<le> length rest
          then do { (ms, r) \<leftarrow> split_frames le (drop n rest); Some (take n rest # ms, r) }
          else Some ([], bs)))"
  by pat_completeness auto
termination
  by (relation "measure (\<lambda>(le, bs). length bs)") (auto simp: COUNT_SIZE_def)

declare split_frames.simps [simp del]

definition pending :: "bool \<Rightarrow> stream_conn \<Rightarrow> byte list" where
  "pending le c = (if mNextLen c > 0 then store_host le COUNT_SIZE (nat (mNextLen c)) else [])
     @ take (nat (mBufLen c)) (mTempBuf c)"

definition sync_wf :: "stream_conn \<Rightarrow> bool" where
  "sync_wf c \<longleftrightarrow> length (mTempBuf c) = MAX_BUF_SIZE
     \<and> length (mLargeBuf c) = RSOCK_UV_MAX_BUF + MAX_BUF_SIZE
     \<and> 0 \<le> mBufLen c \<and> 0 \<le> mNextLen c \<and> mNextLen c < int MAX_BUF_SIZE
     \<and> (mNextLen c = 0 \<longrightarrow> mBufLen c < int COUNT_SIZE)
     \<and> (mNextLen c > 0 \<longrightarrow> mBufLen c < mNextLen c)"

primrec deliver :: "'s sync_cb \<Rightarrow> byte list list \<Rightarrow> 's \<Rightarrow> 's" where
  "deliver cb [] s = s"
| "deliver cb (m # ms) s = deliver cb ms (snd (cb m s))"

primrec feed :: "bool \<Rightarrow> 's sync_cb \<Rightarrow> stream_conn \<Rightarrow> byte list list \<Rightarrow> 's \<Rightarrow> (stream_conn \<times> 's) option" where
  "feed le cb c [] s = Some (c, s)"
| "feed le cb c (x # xs) s = do { (c, s) \<leftarrow> streamCb le cb c (int (length x)) x s; feed le cb c xs s }"

lemmas stream_sizes = COUNT_SIZE_def MAX_BUF_SIZE_def OM_MAX_PKT_SIZE_def RSOCK_UV_MAX_BUF_def

subsection \<open>Lengths on the wire\<close>

lemma length_store_host [simp]: "length (store_host le n v) = n"
  by (simp add: store_host_def)

lemma load_store_host: "v < 256 ^ n \<Longrightarrow> load_host le (store_host le n v) = v"
  by (simp add: store_host_def load_host_def)

lemma store_load_host: "length h = n \<Longrightarrow> store_host le n (load_host le h) = h"
  using nat_to_le_le_to_nat [of h] nat_to_le_le_to_nat [of "rev h"]
  by (auto simp: store_host_def load_host_def)

lemma load_host_bound: "load_host le h < 256 ^ length h"
  using le_to_nat_bound [of h] le_to_nat_bound [of "rev h"] by (simp add: load_host_def)

lemma sint_small: "v < 2147483648 \<Longrightarrow> sint (of_nat v :: 32 word) = int v"
  using int_word_sint [where 'a = 32 and x = "int v"] by simp

lemma sint_large:
  assumes "2147483648 \<le> v" "v < 4294967296"
  shows "sint (of_nat v :: 32 word) < 0"
proof -
  have "(int v + 2147483648) mod 4294967296 = int v - 2147483648"
  proof -
    have "int v + 2147483648 = (int v - 2147483648) + 4294967296" by simp
    then have "(int v + 2147483648) mod 4294967296 = (int v - 2147483648) mod 4294967296"
      by (metis mod_add_self2)
    with assms show ?thesis by simp
  qed
  then show ?thesis
    using int_word_sint [where 'a = 32 and x = "int v"] assms by simp
qed

text \<open>The assertion on a length read as a signed \<open>int\<close>, in terms of its unsigned value.\<close>

lemma length_word:
  assumes "v < 4294967296"
  shows "sint (of_nat v :: 32 word) > 0 \<and> sint (of_nat v :: 32 word) < int MAX_BUF_SIZE
       \<longleftrightarrow> 0 < v \<and> v < MAX_BUF_SIZE"
    and "v < MAX_BUF_SIZE \<Longrightarrow> sint (of_nat v :: 32 word) = int v"
  using sint_small [of v] sint_large [of v] assms
  by (cases "v < 2147483648"; force simp: stream_sizes)+

subsection \<open>The kept piece\<close>

lemma markTempBuf_keeps:
  assumes "sync_wf c" and "0 \<le> n" "0 \<le> k" "k \<le> int (length src)" "k < int MAX_BUF_SIZE" "n < int MAX_BUF_SIZE"
    and "n = 0 \<Longrightarrow> k < int COUNT_SIZE" "n > 0 \<Longrightarrow> k < n"
  shows "\<exists>c'. markTempBuf c n src k = Some c' \<and> sync_wf c'
     \<and> pending le c' = (if n > 0 then store_host le COUNT_SIZE (nat n) else []) @ take (nat k) src"
proof -
  have "nat k \<le> length (mTempBuf c)" using assms(1,5) by (simp add: sync_wf_def)
  then show ?thesis
    using assms by (auto simp: markTempBuf_def read_bytes_def write_bytes_def sync_wf_def pending_def)
qed

lemma split_frames_short: "length bs < COUNT_SIZE \<Longrightarrow> split_frames le bs = Some ([], bs)"
  by (subst split_frames.simps) simp

lemma split_frames_cut:
  assumes "length h = COUNT_SIZE"
  shows "split_frames le (h @ rest) =
     (let n = load_host le h in
      if n = 0 \<or> n \<ge> MAX_BUF_SIZE then None
      else if n \<le> length rest then do { (ms, r) \<leftarrow> split_frames le (drop n rest); Some (take n rest # ms, r) }
      else Some ([], h @ rest))"
  using assms by (subst split_frames.simps) (simp add: Let_def)

subsection \<open>The loop\<close>

text \<open>One turn of the loop, with the length word read as a natural number.\<close>

lemma drain_cut:
  fixes c :: stream_conn and p :: nat and le :: bool
  defines "L \<equiv> mLargeBuf c"
  defines "v \<equiv> load_host le (take COUNT_SIZE (drop p L))"
  assumes "int COUNT_SIZE \<le> left" and "p + nat left \<le> length L"
  shows "drain le cb c p left nret s =
     (if \<not> (0 < v \<and> v < MAX_BUF_SIZE) then None
      else if int v \<le> left - int COUNT_SIZE then
        (let m = take v (drop (p + COUNT_SIZE) L) in
         drain le cb c (p + COUNT_SIZE + v) (left - int COUNT_SIZE - int v) (fst (cb m s)) (snd (cb m s)))
      else do { c \<leftarrow> markTempBuf c (int v) (drop (p + COUNT_SIZE) L) (left - int COUNT_SIZE); Some (nret, c, s) })"
proof -
  have rd: "read_bytes L p COUNT_SIZE = Some (take COUNT_SIZE (drop p L))"
    using assms(3,4) by (simp add: read_bytes_def)
  have "v < 4294967296"
    using load_host_bound [of le "take COUNT_SIZE (drop p L)"] assms(3,4)
    by (simp add: v_def stream_sizes)
  note w = length_word [OF this]
  have m: "read_bytes L (p + COUNT_SIZE) v = Some (take v (drop (p + COUNT_SIZE) L))"
    if "int v \<le> left - int COUNT_SIZE"
    using that assms(4) by (simp add: read_bytes_def)
  show ?thesis
  proof (cases "0 < v \<and> v < MAX_BUF_SIZE")
    case True
    then have n: "sint (of_nat v :: 32 word) = int v" using w(2) by simp
    show ?thesis
      using assms(3) rd m True n
      by (subst drain.simps) (simp add: L_def [symmetric] v_def [symmetric] Let_def case_prod_beta)
  next
    case False
    with w(1) have "\<not> (sint (of_nat v :: 32 word) > 0 \<and> sint (of_nat v :: 32 word) < int MAX_BUF_SIZE)"
      by simp
    then show ?thesis
      using assms(3) rd False
      by (subst drain.simps) (simp add: L_def [symmetric] v_def [symmetric] Let_def)
  qed
qed

lemma take_header:
  assumes "int COUNT_SIZE \<le> left"
  shows "take (nat left) (drop p L)
       = take COUNT_SIZE (drop p L) @ take (nat (left - int COUNT_SIZE)) (drop (p + COUNT_SIZE) L)"
proof -
  have "nat left = COUNT_SIZE + nat (left - int COUNT_SIZE)" using assms by simp
  then show ?thesis by (metis take_add drop_drop add.commute)
qed

lemma drain_short:
  assumes "sync_wf c" "0 \<le> left" "left < int COUNT_SIZE" "p + nat left \<le> length (mLargeBuf c)"
  shows "\<exists>c'. drain le cb c p left nret s = Some (nret, c', s) \<and> sync_wf c'
     \<and> pending le c' = take (nat left) (drop p (mLargeBuf c))"
  using markTempBuf_keeps [of c 0 left "drop p (mLargeBuf c)" le] assms
  by (subst drain.simps) (force simp: stream_sizes)

lemma drain_refines:
  assumes "sync_wf c" and "0 \<le> left" and "p + nat left \<le> length (mLargeBuf c)"
  shows "case split_frames le (take (nat left) (drop p (mLargeBuf c))) of
           None \<Rightarrow> drain le cb c p left nret s = None
         | Some (ms, r) \<Rightarrow> \<exists>n c'. drain le cb c p left nret s = Some (n, c', deliver cb ms s)
             \<and> sync_wf c' \<and> pending le c' = r"
  using assms(2,3)
proof (induction "nat left" arbitrary: p left nret s rule: less_induct)
  case (less left p nret s)
  let ?L = "mLargeBuf c"
  show ?case
  proof (cases "left < int COUNT_SIZE")
    case True
    then have "length (take (nat left) (drop p ?L)) < COUNT_SIZE" by (simp add: stream_sizes nat_less_iff)
    with drain_short [OF assms(1) less.prems(1) True less.prems(2), of le cb nret s] show ?thesis
      by (simp add: split_frames_short) blast
  next
    case False
    then have c4: "int COUNT_SIZE \<le> left" by simp
    let ?h = "take COUNT_SIZE (drop p ?L)"
    let ?v = "load_host le ?h"
    let ?rest = "take (nat (left - int COUNT_SIZE)) (drop (p + COUNT_SIZE) ?L)"
    let ?m = "take ?v (drop (p + COUNT_SIZE) ?L)"
    have len4: "length ?h = COUNT_SIZE" using less.prems(2) c4 by (simp add: nat_le_iff le_diff_conv2)
    have lr: "length ?rest = nat (left - int COUNT_SIZE)" using less.prems(2) c4 by simp
    note cut = drain_cut [OF c4 less.prems(2), of le cb nret s, unfolded Let_def]
    note spl = split_frames_cut [OF len4, of le ?rest, folded take_header [OF c4], unfolded Let_def]
    consider "\<not> (0 < ?v \<and> ?v < MAX_BUF_SIZE)"
      | (full) "0 < ?v" "?v < MAX_BUF_SIZE" "int ?v \<le> left - int COUNT_SIZE"
      | (part) "0 < ?v" "?v < MAX_BUF_SIZE" "left - int COUNT_SIZE < int ?v" by fastforce
    then show ?thesis
    proof cases
      case 1
      with cut spl show ?thesis by auto
    next
      case full
      have "take ?v ?rest = ?m" using full(3) by (simp add: min_absorb1)
      moreover have "drop ?v ?rest = take (nat (left - int COUNT_SIZE - int ?v)) (drop (p + COUNT_SIZE + ?v) ?L)"
        using full(3) by (simp add: drop_take ac_simps nat_diff_distrib)
      ultimately have sp: "split_frames le (take (nat left) (drop p ?L)) =
          do { (ms, r) \<leftarrow> split_frames le (take (nat (left - int COUNT_SIZE - int ?v)) (drop (p + COUNT_SIZE + ?v) ?L));
               Some (?m # ms, r) }"
        using spl full lr by auto
      have IH: "case split_frames le (take (nat (left - int COUNT_SIZE - int ?v)) (drop (p + COUNT_SIZE + ?v) ?L)) of
           None \<Rightarrow> drain le cb c p left nret s = None
         | Some (ms, r) \<Rightarrow> \<exists>n c'. drain le cb c p left nret s = Some (n, c', deliver cb ms (snd (cb ?m s)))
             \<and> sync_wf c' \<and> pending le c' = r"
      proof -
        have d: "drain le cb c p left nret s = drain le cb c (p + COUNT_SIZE + ?v)
            (left - int COUNT_SIZE - int ?v) (fst (cb ?m s)) (snd (cb ?m s))"
          using cut full by simp
        show ?thesis
          unfolding d by (rule less.hyps) (use less.prems full c4 in auto)
      qed
      then show ?thesis unfolding sp by (auto split: option.splits)
    next
      case part
      have "\<exists>c'. markTempBuf c (int ?v) (drop (p + COUNT_SIZE) ?L) (left - int COUNT_SIZE) = Some c'
            \<and> sync_wf c' \<and> pending le c' = take (nat left) (drop p ?L)"
        using markTempBuf_keeps [of c "int ?v" "left - int COUNT_SIZE" "drop (p + COUNT_SIZE) ?L" le]
          assms(1) less.prems part lr c4 store_load_host [OF len4, of le] take_header [OF c4, of p ?L]
        by auto
      moreover have "\<not> ?v \<le> length ?rest"
      proof -
        have "\<not> ?v \<le> nat (left - int COUNT_SIZE)"
          using part(3) c4 by (simp add: not_le nat_less_iff)
        then show ?thesis using lr by simp
      qed
      ultimately show ?thesis using cut spl part by auto
    qed
  qed
qed

subsection \<open>A read of any length\<close>

text \<open>
  \<open>rawInput\<close> on a read \<open>x\<close> is the specification on the kept bytes followed by \<open>x\<close>. The last
  premise is the room in \<open>mLargeBuf\<close>, where the length, the kept piece and \<open>x\<close> are put together.
\<close>

lemma rawInput_more:
  assumes "sync_wf c" and "x \<noteq> []" and "mNextLen c < int (length x) + mBufLen c"
    and "int (length x) + mBufLen c + int COUNT_SIZE \<le> int (length (mLargeBuf c))"
  shows "\<exists>c1. rawInput le cb c (int (length x)) x s = drain le cb c1 0 (int (length (pending le c @ x))) 0 s
     \<and> sync_wf c1 \<and> length (pending le c @ x) \<le> length (mLargeBuf c1)
     \<and> take (length (pending le c @ x)) (mLargeBuf c1) = pending le c @ x"
proof -
  let ?t = "take (nat (mBufLen c)) (mTempBuf c)"
  let ?w = "if mNextLen c > 0 then store_host le COUNT_SIZE (nat (mNextLen c)) else []"
  have lt: "length ?t = nat (mBufLen c)" using assms(1) by (auto simp: sync_wf_def stream_sizes)
  then have rt: "read_bytes (mTempBuf c) 0 (nat (mBufLen c)) = Some ?t"
    using assms(1) by (auto simp: read_bytes_def sync_wf_def stream_sizes)
  have rx: "read_bytes x 0 (length x) = Some x" by (simp add: read_bytes_def)
  have room: "length (?w @ ?t @ x) \<le> length (mLargeBuf c)"
    using assms(1,4) lt by (auto simp: sync_wf_def)
  obtain lb where lb: "put_bytes (mLargeBuf c) 0 (?w @ ?t @ x) = Some (lb, length (?w @ ?t @ x))"
    and tk: "take (length (?w @ ?t @ x)) lb = ?w @ ?t @ x" "length lb = length (mLargeBuf c)"
    using put_bytes_fits [of 0 "?w @ ?t @ x" "mLargeBuf c"] room by (auto simp: holds_at_def)
  obtain b1 b2 where b1: "put_bytes (mLargeBuf c) 0 ?w = Some (b1, length ?w)"
    and b2: "put_bytes b1 (length ?w) ?t = Some (b2, length ?w + length ?t)"
    and wx: "write_bytes b2 (length ?w + length ?t) x = Some lb"
    using lb unfolding put_bytes_append by (fastforce simp: put_bytes_Some split: Option.bind_splits)
  have b1': "(if mNextLen c > 0 then put_bytes (mLargeBuf c) 0 (store_host le COUNT_SIZE (nat (mNextLen c)))
       else Some (mLargeBuf c, 0)) = Some (b1, length ?w)"
    using b1 by (auto simp: put_bytes_Some write_bytes_def)
  have "rawInput le cb c (int (length x)) x s
      = drain le cb (c\<lparr>mLargeBuf := lb\<rparr>) 0
          (if mNextLen c > 0 then int (length x) + mBufLen c + int COUNT_SIZE else int (length x) + mBufLen c) 0 s"
    using assms b2 wx rt rx by (simp add: rawInput_def sync_wf_def Let_def b1')
  also have "(if mNextLen c > 0 then int (length x) + mBufLen c + int COUNT_SIZE else int (length x) + mBufLen c)
      = int (length (?w @ ?t @ x))"
    using lt assms(1) by (simp add: sync_wf_def)
  finally have "rawInput le cb c (int (length x)) x s
      = drain le cb (c\<lparr>mLargeBuf := lb\<rparr>) 0 (int (length (?w @ ?t @ x))) 0 s" .
  then show ?thesis
    using tk room assms(1) by (intro exI [of _ "c\<lparr>mLargeBuf := lb\<rparr>"]) (auto simp: pending_def sync_wf_def)
qed

text \<open>While a length is known and the bytes do not exceed it, the specification takes one step.\<close>

lemma split_known_length:
  assumes "sync_wf c" "mNextLen c > 0"
  shows "split_frames le (pending le c @ x) =
     (let y = take (nat (mBufLen c)) (mTempBuf c) @ x; n = nat (mNextLen c) in
      if n \<le> length y then do { (ms, r) \<leftarrow> split_frames le (drop n y); Some (take n y # ms, r) }
      else Some ([], pending le c @ x))"
proof -
  have "load_host le (store_host le COUNT_SIZE (nat (mNextLen c))) = nat (mNextLen c)"
    using assms(1) by (intro load_store_host) (auto simp: sync_wf_def stream_sizes nat_less_iff)
  then show ?thesis
    using assms split_frames_cut [of "store_host le COUNT_SIZE (nat (mNextLen c))" le
        "take (nat (mBufLen c)) (mTempBuf c) @ x"]
    by (auto simp: pending_def Let_def sync_wf_def)
qed

lemma rawInput_refines:
  assumes wf: "sync_wf c" and "x \<noteq> []"
    and "int (length x) + mBufLen c + int COUNT_SIZE \<le> int (length (mLargeBuf c))"
  shows "case split_frames le (pending le c @ x) of
           None \<Rightarrow> rawInput le cb c (int (length x)) x s = None
         | Some (ms, r) \<Rightarrow> \<exists>n c'. rawInput le cb c (int (length x)) x s = Some (n, c', deliver cb ms s)
             \<and> sync_wf c' \<and> pending le c' = r"
proof (cases "mNextLen c < int (length x) + mBufLen c")
  case True
  obtain c1 where r: "rawInput le cb c (int (length x)) x s = drain le cb c1 0 (int (length (pending le c @ x))) 0 s"
    and "sync_wf c1" "length (pending le c @ x) \<le> length (mLargeBuf c1)"
    and tk: "take (length (pending le c @ x)) (mLargeBuf c1) = pending le c @ x"
    using rawInput_more [OF assms(1,2) True assms(3), of le cb s] by (elim exE conjE) rule
  then have "case split_frames le (take (nat (int (length (pending le c @ x)))) (drop 0 (mLargeBuf c1))) of
           None \<Rightarrow> drain le cb c1 0 (int (length (pending le c @ x))) 0 s = None
         | Some (ms, r) \<Rightarrow> \<exists>n c'. drain le cb c1 0 (int (length (pending le c @ x))) 0 s
             = Some (n, c', deliver cb ms s) \<and> sync_wf c' \<and> pending le c' = r"
    by (intro drain_refines) (simp_all only: nat_int of_nat_0_le_iff add_0)
  then show ?thesis by (simp only: r tk nat_int drop_0)
next
  case False
  moreover have "length x > 0" using assms(2) by simp
  ultimately have pos: "mNextLen c > 0" using assms(1) unfolding sync_wf_def by linarith
  let ?k = "nat (mBufLen c)"
  let ?y = "take ?k (mTempBuf c) @ x"
  have k: "0 \<le> mBufLen c" "mNextLen c < int MAX_BUF_SIZE" "length (mTempBuf c) = MAX_BUF_SIZE"
    using wf by (auto simp: sync_wf_def)
  have fit: "?k + length x \<le> MAX_BUF_SIZE" using False k by linarith
  have ly: "length ?y = ?k + length x" using fit k by simp
  let ?b = "take ?k (mTempBuf c) @ x @ drop (?k + length x) (mTempBuf c)"
  have wr: "write_bytes (mTempBuf c) ?k x = Some ?b"
    using fit k by (simp add: write_bytes_def)
  have rx: "read_bytes x 0 (length x) = Some x" by (simp add: read_bytes_def)
  have lb: "length ?b = MAX_BUF_SIZE" "take (?k + length x) ?b = ?y"
    using fit k by (simp_all add: min_absorb2)
  have guard: "mNextLen c \<le> int MAX_BUF_SIZE" "\<not> int (length x) > int (RSOCK_UV_MAX_BUF + MAX_BUF_SIZE)"
    using k fit by linarith+
  show ?thesis
  proof (cases "int (length x) + mBufLen c = mNextLen c")
    case True
    then have n: "nat (mNextLen c) = ?k + length x" using k by simp
    have rd: "read_bytes ?b 0 (?k + length x) = Some ?y"
      using lb fit unfolding read_bytes_def by simp
    have "split_frames le (pending le c @ x) = Some ([?y], [])"
      using split_known_length [OF wf pos, of le x] True k ly
      by (simp add: Let_def split_frames_short stream_sizes)
    moreover have "rawInput le cb c (int (length x)) x s
        = Some (fst (cb ?y s), c\<lparr>mTempBuf := ?b, mBufLen := 0, mNextLen := 0\<rparr>, snd (cb ?y s))"
      using True guard assms(2) wr rx rd
      by (simp add: rawInput_def Let_def n markTempBuf_def case_prod_beta)
    ultimately show ?thesis
      using wf lb by (simp add: sync_wf_def pending_def stream_sizes)
  next
    case less: False
    have "\<not> nat (mNextLen c) \<le> length ?y" unfolding ly using less False k by linarith
    then have "split_frames le (pending le c @ x) = Some ([], pending le c @ x)"
      by (simp only: split_known_length [OF wf pos, of le x] Let_def if_False)
    moreover have "rawInput le cb c (int (length x)) x s
        = Some (0, c\<lparr>mTempBuf := ?b, mBufLen := mBufLen c + int (length x)\<rparr>, s)"
      using less False guard assms(2) wr rx by (simp add: rawInput_def Let_def)
    ultimately show ?thesis
      using wf less False pos lb k by (simp add: sync_wf_def pending_def nat_add_distrib)
  qed
qed

subsection \<open>Whatever the reads, the packets come out\<close>

definition sendable :: "byte list \<Rightarrow> bool" where
  "sendable m \<longleftrightarrow> m \<noteq> [] \<and> COUNT_SIZE + length m < OM_MAX_PKT_SIZE"

lemma stream_Send_frame:
  assumes "length m \<le> MAX_BUF_SIZE - COUNT_SIZE" and "m \<noteq> []"
  shows "stream_Send le (int (length m)) m = (if sendable m then Some (frame le m) else None)"
proof -
  let ?h = "store_host le COUNT_SIZE (length m)"
  obtain b1 where b1: "write_bytes (replicate MAX_BUF_SIZE 0) 0 ?h = Some b1"
      "length b1 = MAX_BUF_SIZE" "take COUNT_SIZE b1 = ?h"
    by (auto simp: write_bytes_def stream_sizes)
  obtain b2 where b2: "write_bytes b1 COUNT_SIZE m = Some b2"
      "length b2 = MAX_BUF_SIZE" "take (COUNT_SIZE + length m) b2 = ?h @ m"
    using b1 assms(1) by (auto simp: write_bytes_def stream_sizes)
  have "read_bytes m 0 (length m) = Some m" by (simp add: read_bytes_def)
  moreover have "int (length m) + int COUNT_SIZE \<le> int MAX_BUF_SIZE"
    using assms(1) by (simp add: stream_sizes)
  moreover have "nat (int COUNT_SIZE + int (length m)) = COUNT_SIZE + length m" by simp
  moreover have "stream_doSend b2 (int COUNT_SIZE + int (length m)) = (if sendable m then Some (frame le m) else None)"
    using assms b2
    by (simp add: stream_doSend_def sendable_def frame_def read_bytes_def nat_add_distrib)
       (simp add: stream_sizes)
  ultimately show ?thesis
    using assms(2) b1(1) b2(1) by (simp add: stream_Send_def)
qed

lemma split_frames_prefix:
  assumes "list_all sendable ms" and "bs @ ys = concat (map (frame le) ms)"
  shows "\<exists>ms1 ms2 r. split_frames le bs = Some (ms1, r) \<and> ms = ms1 @ ms2
     \<and> r @ ys = concat (map (frame le) ms2)"
  using assms
proof (induction ms arbitrary: bs)
  case Nil
  then show ?case by (simp add: split_frames_short stream_sizes)
next
  case (Cons m ms)
  show ?case
  proof (cases "length bs < COUNT_SIZE")
    case True
    then show ?thesis using Cons.prems
      by (intro exI [of _ "[]"] exI [of _ "m # ms"] exI [of _ bs]) (simp add: split_frames_short)
  next
    case False
    let ?h = "store_host le COUNT_SIZE (length m)"
    obtain rest where bs: "bs = ?h @ rest" and rest: "rest @ ys = m @ concat (map (frame le) ms)"
    proof
      have e: "bs @ ys = ?h @ m @ concat (map (frame le) ms)" using Cons.prems(2) by (simp add: frame_def [of le m])
      from arg_cong [OF e, of "take COUNT_SIZE"] False have "take COUNT_SIZE bs = ?h" by simp
      then show "bs = ?h @ drop COUNT_SIZE bs" by (metis append_take_drop_id)
      from arg_cong [OF e, of "drop COUNT_SIZE"] False
      show "drop COUNT_SIZE bs @ ys = m @ concat (map (frame le) ms)" by simp
    qed
    have m: "0 < length m" "length m < MAX_BUF_SIZE" "load_host le ?h = length m"
      using Cons.prems(1) load_store_host [of "length m" COUNT_SIZE le]
      by (auto simp: sendable_def stream_sizes)
    note cut = split_frames_cut [of ?h le rest, unfolded Let_def m(3)]
    show ?thesis
    proof (cases "length m \<le> length rest")
      case True
      from arg_cong [OF rest, of "take (length m)"] True have tk: "take (length m) rest = m" by simp
      from arg_cong [OF rest, of "drop (length m)"] True
      have "drop (length m) rest @ ys = concat (map (frame le) ms)" by simp
      with Cons.IH [OF _ this] Cons.prems(1)
      obtain ms1 ms2 r where "split_frames le (drop (length m) rest) = Some (ms1, r)" "ms = ms1 @ ms2"
        "r @ ys = concat (map (frame le) ms2)" by auto
      then show ?thesis
        using cut m tk bs True by (intro exI [of _ "m # ms1"] exI [of _ ms2] exI [of _ r]) auto
    next
      case False
      then show ?thesis
        using cut m bs Cons.prems(2)
        by (intro exI [of _ "[]"] exI [of _ "m # ms"] exI [of _ bs]) auto
    qed
  qed
qed

text \<open>
  What is kept between two reads of a stream of sent packets is the front of the next packet,
  so the room in \<open>mLargeBuf\<close> is always enough for a full read.
\<close>

lemma pending_room:
  assumes "sync_wf c" "list_all sendable ms" "pending le c @ ys = concat (map (frame le) ms)"
  shows "mBufLen c + int COUNT_SIZE \<le> int MAX_BUF_SIZE"
proof (cases "mNextLen c > 0")
  case True
  let ?h = "store_host le COUNT_SIZE (nat (mNextLen c))"
  have "?h \<noteq> []"
    by (intro notI, drule arg_cong [where f = length]) (simp add: stream_sizes)
  then obtain m ms' where ms: "ms = m # ms'"
    using assms(3) True by (cases ms) (auto simp: pending_def)
  have "?h @ take (nat (mBufLen c)) (mTempBuf c) @ ys
      = store_host le COUNT_SIZE (length m) @ m @ concat (map (frame le) ms')"
    using assms(3) True ms by (simp add: pending_def frame_def [of le m])
  then have "?h = store_host le COUNT_SIZE (length m)" by simp
  then have "load_host le ?h = load_host le (store_host le COUNT_SIZE (length m))" by simp
  then have "nat (mNextLen c) = length m"
    using assms(1,2) ms
    by (simp add: load_store_host sync_wf_def sendable_def stream_sizes nat_less_iff)
  then have "mNextLen c = int (length m)" using True by simp
  then show ?thesis using assms(1,2) ms True by (simp add: sync_wf_def sendable_def stream_sizes)
next
  case False
  then show ?thesis using assms(1) by (auto simp: sync_wf_def stream_sizes)
qed

lemma streamCb_step:
  assumes "sync_wf c" "list_all sendable ms" "length x \<le> RSOCK_UV_MAX_BUF"
    and "pending le c @ x @ ys = concat (map (frame le) ms)"
  shows "\<exists>c' ms1 ms2. streamCb le cb c (int (length x)) x s = Some (c', deliver cb ms1 s)
     \<and> ms = ms1 @ ms2 \<and> sync_wf c' \<and> pending le c' @ ys = concat (map (frame le) ms2)"
proof (cases "x = []")
  case True
  then show ?thesis
    using assms by (intro exI [of _ c] exI [of _ "[]"] exI [of _ ms]) (simp add: streamCb_def)
next
  case False
  have room: "int (length x) + mBufLen c + int COUNT_SIZE \<le> int (length (mLargeBuf c))"
    using pending_room [OF assms(1,2,4)] assms(1,3) by (simp add: sync_wf_def)
  obtain ms1 ms2 r where sp: "split_frames le (pending le c @ x) = Some (ms1, r)" and ms: "ms = ms1 @ ms2"
    and r: "r @ ys = concat (map (frame le) ms2)"
    using split_frames_prefix [OF assms(2), of "pending le c @ x" ys le] assms(4) by auto
  from rawInput_refines [OF assms(1) False room, of le cb s] sp
  obtain n c' where "rawInput le cb c (int (length x)) x s = Some (n, c', deliver cb ms1 s)"
    "sync_wf c'" "pending le c' = r" by auto
  then show ?thesis
    using False ms r by (intro exI [of _ c'] exI [of _ ms1] exI [of _ ms2]) (simp add: streamCb_def)
qed

lemma deliver_append: "deliver cb (ms1 @ ms2) s = deliver cb ms2 (deliver cb ms1 s)"
  by (induction ms1 arbitrary: s) simp_all

lemma feed_delivers:
  assumes "sync_wf c" "list_all sendable ms" "list_all (\<lambda>x. length x \<le> RSOCK_UV_MAX_BUF) xs"
    and "pending le c @ concat xs = concat (map (frame le) ms)"
  shows "\<exists>c'. feed le cb c xs s = Some (c', deliver cb ms s) \<and> sync_wf c' \<and> pending le c' = []"
  using assms
proof (induction xs arbitrary: c ms s)
  case Nil
  have "ms = []"
  proof (rule ccontr)
    assume "ms \<noteq> []"
    then obtain m ms' where ms: "ms = m # ms'" by (cases ms) auto
    have s: "split_frames le (pending le c) = Some ([], pending le c)"
    proof (cases "mNextLen c > 0")
      case True
      then show ?thesis
        using split_known_length [OF Nil.prems(1) True, of le "[]"] Nil.prems(1)
        by (auto simp: sync_wf_def Let_def)
    next
      case False
      then show ?thesis
        using Nil.prems(1) by (intro split_frames_short) (auto simp: sync_wf_def pending_def stream_sizes)
    qed
    have "load_host le (store_host le COUNT_SIZE (length m)) = length m"
      using Nil.prems(2) ms by (intro load_store_host) (simp add: sendable_def stream_sizes)
    then have "split_frames le (pending le c) \<noteq> Some ([], pending le c)"
      using Nil.prems(2,4) ms
        split_frames_cut [of "store_host le COUNT_SIZE (length m)" le "m @ concat (map (frame le) ms')"]
      by (auto simp: frame_def [of le m] sendable_def stream_sizes split: Option.bind_splits)
    with s show False by simp
  qed
  with Nil.prems show ?case by simp
next
  case (Cons x xs)
  then obtain c' ms1 ms2 where "streamCb le cb c (int (length x)) x s = Some (c', deliver cb ms1 s)"
    and ms: "ms = ms1 @ ms2" and "sync_wf c'" "pending le c' @ concat xs = concat (map (frame le) ms2)"
    using streamCb_step [of c ms x le "concat xs" cb s] by auto
  then show ?case
    using Cons.IH [of c' ms2 "deliver cb ms1 s"] Cons.prems(2,3) by (auto simp: deliver_append)
qed

lemma new_stream_conn_wf: "sync_wf new_stream_conn" "pending le new_stream_conn = []"
  by (simp_all add: sync_wf_def pending_def new_stream_conn_def stream_sizes)

subsection \<open>Properties\<close>

text \<open>
  C5: The loop-back stream gives back what was sent, however the kernel cuts it. Let \<open>ms\<close> be
  packets for which \<open>Send\<close> put the frames \<open>ws\<close> on the socket, and let the reads \<open>xs\<close>, none
  longer than the buffer that libuv is given, cut the bytes of \<open>ws\<close> anywhere, inside a length
  or inside a packet. Then no access of \<open>rawInput\<close> leaves an array, no assertion fails, the
  callback is called once with each packet, in order and with nothing else, and no byte is
  left over.
\<close>

theorem stream_reassembly:
  assumes "list_all2 (\<lambda>m w. m \<noteq> [] \<and> length m \<le> MAX_BUF_SIZE - COUNT_SIZE
             \<and> stream_Send le (int (length m)) m = Some w) ms ws"
    and "concat xs = concat ws" and "list_all (\<lambda>x. length x \<le> RSOCK_UV_MAX_BUF) xs"
  shows "\<exists>c. feed le cb new_stream_conn xs s = Some (c, deliver cb ms s) \<and> sync_wf c \<and> pending le c = []"
proof -
  have "ws = map (frame le) ms \<and> list_all sendable ms"
    using assms(1)
    by (induction rule: list_all2_induct) (auto simp: stream_Send_frame split: if_splits)
  then show ?thesis
    using feed_delivers [of new_stream_conn ms xs le cb s] assms(2,3) new_stream_conn_wf by simp
qed

theorem stream_reassembly_witness:
  "\<exists>c. feed True (\<lambda>m s. (int (length m), s @ [m])) new_stream_conn [[2, 0], [0, 0, 7, 8, 1], [0, 0, 0, 9]] []
        = Some (c, [[7, 8], [9]]) \<and> sync_wf c \<and> pending True c = []"
proof -
  have "stream_Send True 2 [7, 8] = Some [2, 0, 0, 0, 7, 8]" "stream_Send True 1 [9] = Some [1, 0, 0, 0, 9]"
    using stream_Send_frame [of "[7, 8]" True] stream_Send_frame [of "[9]" True]
    by (simp_all add: sendable_def frame_def stream_sizes store_host_def) code_simp+
  then show ?thesis
    using stream_reassembly [where le = True and ms = "[[7, 8], [9]]" and ws = "[[2, 0, 0, 0, 7, 8], [1, 0, 0, 0, 9]]"
        and xs = "[[2, 0], [0, 0, 7, 8, 1], [0, 0, 0, 9]]" and cb = "\<lambda>m s. (int (length m), s @ [m])" and s = "[]"]
    by (simp add: stream_sizes)
qed

text \<open>
  C6: One read, on any well-formed state. If the kept bytes followed by the read split into
  packets, \<open>rawInput\<close> delivers exactly these in order, keeps exactly the rest and stays
  well-formed; it aborts only where the bytes contain a length outside of
  1 .. \<open>MAX_BUF_SIZE\<close> - 1. The last premise, the room in \<open>mLargeBuf\<close>, holds for every
  read as long as the kept length is one that \<open>Send\<close> writes.
\<close>

theorem rawInput_refines_split:
  assumes "sync_wf c" and "x \<noteq> []" and "length x + nat (mBufLen c) + COUNT_SIZE \<le> length (mLargeBuf c)"
  shows "(\<forall>ms r. split_frames le (pending le c @ x) = Some (ms, r) \<longrightarrow>
            (\<exists>n c'. rawInput le cb c (int (length x)) x s = Some (n, c', deliver cb ms s)
               \<and> sync_wf c' \<and> pending le c' = r))
       \<and> (split_frames le (pending le c @ x) = None \<longleftrightarrow> rawInput le cb c (int (length x)) x s = None)"
proof -
  have "int (length x) + mBufLen c + int COUNT_SIZE \<le> int (length (mLargeBuf c))"
    using assms(1,3) by (simp add: sync_wf_def)
  from rawInput_refines [OF assms(1,2) this, of le cb s] show ?thesis
    by (auto split: option.splits)
qed

theorem rawInput_refines_split_witness:
  "\<exists>n c'. rawInput True (\<lambda>m s. (0, s @ [m])) new_stream_conn 7 [1, 0, 0, 0, 5, 9, 0] [] = Some (n, c', [[5]])
      \<and> sync_wf c' \<and> pending True c' = [9, 0]"
proof -
  have "split_frames True [1, 0, 0, 0, 5, 9, 0] = Some ([[5]], [9, 0])" by code_simp
  then show ?thesis
    using rawInput_refines_split [of new_stream_conn "[1, 0, 0, 0, 5, 9, 0]" True "\<lambda>m s. (0, s @ [m])" "[]"]
      new_stream_conn_wf by (simp add: new_stream_conn_def stream_sizes)
qed

end
