(* ===== verification/Port_List.thy ===== *)
theory Port_List
  imports Dec_String
begin

section \<open>Port lists (util/RPortList.cpp, util/PortPair.cpp)\<close>

text \<open>
  A port list keeps single ports and ranges as they were added and a flat list that is rebuilt
  on demand; \<open>mValid\<close> says whether the flat list is up to date. A range is a pair
  \<open>PortPair\<close>, whose \<open>operator==\<close> is the equality of pairs. The textual form is read
  back by a regular expression: \<open>regex_search\<close> is its leftmost match, where the alternative
  with a dash is tried first. \<open>FromString\<close> is \<^const>\<open>None\<close> where \<open>std::stoi\<close> throws. The
  build defines \<open>RSOCK_NNDEBUG\<close>, so \<open>AddPortRange\<close> returns on a wrong range.
\<close>

subsection \<open>Definitions\<close>

type_synonym port_pair = "u16 \<times> u16"

record port_list =
  mValid :: bool
  mRawList :: "u16 list"
  mSingleOnes :: "u16 list"
  mValentines :: "port_pair list"

definition new_port_list :: port_list where
  "new_port_list = \<lparr>mValid = False, mRawList = [], mSingleOnes = [], mValentines = []\<rparr>"

definition AddPort16 :: "port_list \<Rightarrow> u16 \<Rightarrow> port_list" where
  "AddPort16 l port = l\<lparr>mValid := False, mSingleOnes := mSingleOnes l @ [port]\<rparr>"

definition AddPortRange :: "port_list \<Rightarrow> u16 \<Rightarrow> u16 \<Rightarrow> port_list" where
  "AddPortRange l start fin =
     (if start \<ge> fin then l
      else if (start, fin) \<in> set (mValentines l) then l
      else l\<lparr>mValid := False, mValentines := mValentines l @ [(start, fin)]\<rparr>)"

definition range_ports :: "port_pair \<Rightarrow> u16 list" where
  "range_ports p = map of_nat [unat (fst p)..<Suc (unat (snd p))]"

definition rebuild :: "port_list \<Rightarrow> port_list" where
  "rebuild l = l\<lparr>mRawList := mSingleOnes l @ concat (map range_ports (mValentines l)), mValid := True\<rparr>"

definition GetRawList :: "port_list \<Rightarrow> u16 list \<times> port_list" where
  "GetRawList l = (let l = (if mValid l then l else rebuild l) in (mRawList l, l))"

definition GetSinglePortList :: "port_list \<Rightarrow> u16 list \<times> port_list" where
  "GetSinglePortList l = (let l = (if mValid l then l else rebuild l) in (mSingleOnes l, l))"

definition GetPortRangeList :: "port_list \<Rightarrow> port_pair list \<times> port_list" where
  "GetPortRangeList l = (let l = (if mValid l then l else rebuild l) in (mValentines l, l))"

definition port_list_empty :: "port_list \<Rightarrow> bool" where
  "port_list_empty l \<longleftrightarrow> mSingleOnes l = [] \<and> mValentines l = []"

primrec buildRPortList :: "port_list \<Rightarrow> port_pair list \<Rightarrow> port_list" where
  "buildRPortList l [] = l"
| "buildRPortList l (p # ps) = buildRPortList
     (if fst p < snd p then l\<lparr>mValentines := mValentines l @ [p]\<rparr>
      else if fst p > snd p \<and> snd p = 0 then l\<lparr>mSingleOnes := mSingleOnes l @ [fst p]\<rparr>
      else l) ps"

text \<open>The loops of \<open>ToString\<close> write their separators between two elements only.\<close>

fun join_sep :: "string list \<Rightarrow> string" where
  "join_sep [] = ''''"
| "join_sep [x] = x"
| "join_sep (x # y # ys) = x @ '', '' @ join_sep (y # ys)"

definition port_str :: "u16 \<Rightarrow> string" where
  "port_str p = to_string (unat p)"

definition pair_str :: "port_pair \<Rightarrow> string" where
  "pair_str p = port_str (fst p) @ ''-'' @ port_str (snd p)"

definition PortList_ToString :: "port_list \<Rightarrow> string" where
  "PortList_ToString l = join_sep (map port_str (mSingleOnes l))
     @ (if mValentines l \<noteq> [] \<and> mSingleOnes l \<noteq> [] then '', '' else '''')
     @ join_sep (map pair_str (mValentines l))"

definition regex_search :: "string \<Rightarrow> (string \<times> string) option" where
  "regex_search s =
     (let t = dropWhile (\<lambda>c. \<not> is_digit c) s; d = takeWhile is_digit t; r = dropWhile is_digit t in
      if t = [] then None
      else (case r of
          [] \<Rightarrow> Some (d, [])
        | c # r' \<Rightarrow>
            if c = CHR ''-'' \<and> takeWhile is_digit r' \<noteq> []
            then Some (d @ ''-'' @ takeWhile is_digit r', dropWhile is_digit r')
            else Some (d, r)))"

lemma regex_search_suffix: "regex_search s = Some (m, r) \<Longrightarrow> length r < length s"
proof -
  assume a: "regex_search s = Some (m, r)"
  let ?t = "dropWhile (\<lambda>c. \<not> is_digit c) s"
  have "?t \<noteq> []" using a by (auto simp: regex_search_def Let_def split: if_splits)
  then obtain c t where t: "?t = c # t" and c: "is_digit c"
    using hd_dropWhile [of "\<lambda>c. \<not> is_digit c" s] by (cases ?t) auto
  have "length ?t \<le> length s" by (rule length_dropWhile_le)
  moreover have "length (dropWhile is_digit ?t) < length ?t"
    using t c length_dropWhile_le [of is_digit t] by simp
  moreover have "length (dropWhile is_digit r') \<le> length r'" for r'
    by (rule length_dropWhile_le)
  ultimately show ?thesis
    using a t by (auto simp: regex_search_def Let_def split: list.splits if_splits)
      (metis Suc_le_lessD le_less_trans less_imp_le_nat length_Cons less_trans not_less)+
qed

text \<open>The loop of \<open>FromString\<close>: the result with the ports read so far.\<close>

function scan_ports :: "string \<Rightarrow> u16 list \<Rightarrow> port_pair list \<Rightarrow> (bool \<times> u16 list \<times> port_pair list) option" where
  "scan_ports str single valentines =
     (case regex_search str of
        None \<Rightarrow> Some (True, single, valentines)
      | Some (t, suffix) \<Rightarrow>
          if CHR ''-'' \<notin> set t then do {
            p \<leftarrow> stoi t;
            scan_ports suffix (single @ [of_nat p]) valentines }
          else do {
            start \<leftarrow> stoi (takeWhile (\<lambda>c. c \<noteq> CHR ''-'') t);
            fin \<leftarrow> stoi (tl (dropWhile (\<lambda>c. c \<noteq> CHR ''-'') t));
            if start \<ge> fin \<or> start = 0 \<or> fin = 0 then Some (False, [], [])
            else scan_ports suffix single (valentines @ [(of_nat start, of_nat fin)]) })"
  by pat_completeness auto
termination
  by (relation "measure (\<lambda>(s, _, _). length s)") (auto dest: regex_search_suffix)

declare scan_ports.simps [simp del]

definition valid_port_char :: "char \<Rightarrow> bool" where
  "valid_port_char c \<longleftrightarrow> is_digit c \<or> c = CHR '','' \<or> c = CHR ''-'' \<or> c = CHR '' ''"

definition PortList_FromString :: "port_list \<Rightarrow> string \<Rightarrow> (bool \<times> port_list) option" where
  "PortList_FromString l s =
     (let l = l\<lparr>mSingleOnes := [], mValentines := []\<rparr> in
      if \<not> list_all valid_port_char s then Some (False, l)
      else do {
        (ok, single, valentines) \<leftarrow> scan_ports s [] [];
        Some (ok, l\<lparr>mSingleOnes := single, mValentines := valentines\<rparr>) })"

text \<open>The flat list is coherent when it is marked valid only while it is up to date.\<close>

definition port_list_wf :: "port_list \<Rightarrow> bool" where
  "port_list_wf l \<longleftrightarrow> (mValid l \<longrightarrow> mRawList l = mRawList (rebuild l))"

definition printable :: "port_list \<Rightarrow> bool" where
  "printable l \<longleftrightarrow> list_all (\<lambda>p. 0 < fst p \<and> fst p < snd p) (mValentines l)"

subsection \<open>Reading back one port or range\<close>

definition port_end :: "string \<Rightarrow> bool" where
  "port_end s \<longleftrightarrow> (case s of [] \<Rightarrow> True | c # _ \<Rightarrow> c = CHR '','')"

lemma number_then_end:
  assumes "port_end rest"
  shows "takeWhile is_digit (to_string n @ rest) = to_string n"
    and "dropWhile is_digit (to_string n @ rest) = rest"
  using assms by (auto simp: port_end_def takeWhile_to_string dropWhile_append2 to_string_digits
      split: list.splits)

lemma dropWhile_not_digit [simp]: "dropWhile (\<lambda>c. \<not> is_digit c) (to_string n @ rest) = to_string n @ rest"
  using to_string_nonempty [of n] to_string_digits [of "hd (to_string n)" n]
  by (cases "to_string n") auto

lemma stoi_port: "stoi (port_str p) = Some (unat p)"
  using unat_u16_less [of p] by (simp add: port_str_def stoi_to_string INT_MAX_def)

lemma search_port: "port_end rest \<Longrightarrow> regex_search (port_str p @ rest) = Some (port_str p, rest)"
  using number_then_end [of rest "unat p"]
  by (auto simp: regex_search_def port_str_def Let_def port_end_def split: list.splits)

lemma search_pair: "port_end rest \<Longrightarrow> regex_search (pair_str p @ rest) = Some (pair_str p, rest)"
  using number_then_end [of rest "unat (snd p)"]
  by (simp add: regex_search_def pair_str_def port_str_def Let_def)

lemma scan_port:
  "port_end rest \<Longrightarrow> scan_ports (port_str p @ rest) a b = scan_ports rest (a @ [p]) b"
  using not_digit_notin_to_string [of "CHR ''-''" "unat p"] stoi_port [of p]
  by (subst scan_ports.simps) (simp add: search_port, simp add: port_str_def)

lemma scan_pair:
  assumes "port_end rest" "0 < fst p" "fst p < snd p"
  shows "scan_ports (pair_str p @ rest) a b = scan_ports rest a (b @ [p])"
proof -
  have "c \<noteq> CHR ''-''" if "c \<in> set (port_str (fst p))" for c
    using not_digit_notin_to_string [of "CHR ''-''" "unat (fst p)"] that by (auto simp: port_str_def)
  then have "takeWhile (\<lambda>c. c \<noteq> CHR ''-'') (pair_str p) = port_str (fst p)"
    "tl (dropWhile (\<lambda>c. c \<noteq> CHR ''-'') (pair_str p)) = port_str (snd p)"
    by (simp_all add: pair_str_def takeWhile_append2 dropWhile_append2)
  moreover have "CHR ''-'' \<in> set (pair_str p)" by (simp add: pair_str_def)
  moreover have "unat (fst p) < unat (snd p)" "0 < unat (fst p)"
    using assms(2,3) by (simp_all add: word_less_nat_alt)
  ultimately show ?thesis
    using assms(1) by (subst scan_ports.simps) (simp add: search_pair stoi_port)
qed

lemma scan_sep: "scan_ports ('', '' @ s) a b = scan_ports s a b"
  by (subst (1 2) scan_ports.simps) (simp add: regex_search_def)

subsection \<open>Reading back a list\<close>

lemma join_sep_Cons: "join_sep (x # xs) = x @ (if xs = [] then [] else '', '' @ join_sep xs)"
  by (cases xs) auto

lemma join_sep_append:
  "join_sep (xs @ ys) = join_sep xs @ (if xs \<noteq> [] \<and> ys \<noteq> [] then '', '' else '''') @ join_sep ys"
  by (induction xs) (auto simp: join_sep_Cons)

lemma scan_pairs:
  assumes "list_all (\<lambda>p. 0 < fst p \<and> fst p < snd p) ps"
  shows "scan_ports (join_sep (map pair_str ps)) a b = Some (True, a, b @ ps)"
  using assms
proof (induction ps arbitrary: b)
  case Nil
  show ?case by (subst scan_ports.simps) (simp add: regex_search_def)
next
  case (Cons p ps)
  have "port_end (if ps = [] then [] else '', '' @ join_sep (map pair_str ps))" by (simp add: port_end_def)
  from scan_pair [OF this, of p a b] Cons show ?case
    by (auto simp: join_sep_Cons scan_sep [simplified])
qed

lemma scan_all:
  assumes "list_all (\<lambda>p. 0 < fst p \<and> fst p < snd p) ps"
  shows "scan_ports (join_sep (map port_str xs @ map pair_str ps)) a [] = Some (True, a @ xs, ps)"
proof (induction xs arbitrary: a)
  case Nil
  show ?case using scan_pairs [OF assms, of a "[]"] by simp
next
  case (Cons x xs)
  let ?r = "map port_str xs @ map pair_str ps"
  have "port_end (if ?r = [] then [] else '', '' @ join_sep ?r)" by (simp add: port_end_def)
  from scan_port [OF this, of x a "[]"] Cons [of "a @ [x]"] show ?case
    by (auto simp: join_sep_Cons scan_sep [simplified])
qed

lemma port_chars: "list_all valid_port_char (PortList_ToString l)"
proof -
  have n: "list_all valid_port_char (port_str p)" for p
    by (auto simp: list_all_iff port_str_def valid_port_char_def dest: to_string_digits)
  have j: "list_all (list_all valid_port_char) xs \<Longrightarrow> list_all valid_port_char (join_sep xs)" for xs
    by (induction xs) (auto simp: join_sep_Cons valid_port_char_def)
  show ?thesis
    unfolding PortList_ToString_def
    using n by (auto simp: pair_str_def valid_port_char_def list.pred_map intro!: j)
      (auto simp: list_all_iff valid_port_char_def pair_str_def)
qed

subsection \<open>Properties\<close>

lemma from_to_string:
  assumes "printable l"
  shows "\<exists>l'. PortList_FromString l0 (PortList_ToString l) = Some (True, l')
     \<and> mSingleOnes l' = mSingleOnes l \<and> mValentines l' = mValentines l"
proof -
  have "PortList_ToString l = join_sep (map port_str (mSingleOnes l) @ map pair_str (mValentines l))"
    by (simp add: PortList_ToString_def join_sep_append)
  then show ?thesis
    using scan_all [of "mValentines l" "mSingleOnes l" "[]"] assms port_chars [of l]
    by (simp add: PortList_FromString_def printable_def Let_def)
qed

text \<open>
  \<open>FromString\<close> reads back what \<open>ToString\<close> wrote: for a list whose ranges are not empty
  and do not start at 0, parsing its text succeeds and gives the same single ports and the
  same ranges in the same order, whatever the target held before.
\<close>

theorem port_list_roundtrip:
  assumes "printable l"
  shows "\<exists>l'. PortList_FromString l0 (PortList_ToString l) = Some (True, l')
     \<and> mSingleOnes l' = mSingleOnes l \<and> mValentines l' = mValentines l"
  by (rule from_to_string [OF assms])

theorem port_list_roundtrip_witness:
  "\<exists>l'. PortList_FromString new_port_list ''80, 22-25'' = Some (True, l')
     \<and> mSingleOnes l' = [80] \<and> mValentines l' = [(22, 25)]"
proof -
  let ?l = "\<lparr>mValid = False, mRawList = [], mSingleOnes = [80], mValentines = [(22, 25)]\<rparr>"
  have "PortList_ToString ?l = ''80, 22-25''" "printable ?l"
    by (code_simp, code_simp)
  then show ?thesis using port_list_roundtrip [of ?l new_port_list] by simp
qed

lemma mem_range_ports: "q \<in> set (range_ports p) \<longleftrightarrow> fst p \<le> q \<and> q \<le> snd p"
proof
  assume "q \<in> set (range_ports p)"
  then obtain n where n: "q = of_nat n" "unat (fst p) \<le> n" "n \<le> unat (snd p)"
    by (auto simp: range_ports_def)
  then have "unat q = n" using unat_u16_less [of "snd p"] by (simp add: unat_of_nat)
  with n show "fst p \<le> q \<and> q \<le> snd p" by (simp add: word_le_nat_alt)
next
  assume "fst p \<le> q \<and> q \<le> snd p"
  then have "unat q \<in> set [unat (fst p)..<Suc (unat (snd p))]" by (auto simp: word_le_nat_alt)
  then have "of_nat (unat q) \<in> set (range_ports p)" unfolding range_ports_def by (metis image_eqI set_map)
  then show "q \<in> set (range_ports p)" by simp
qed

text \<open>
  The flat list is always current while ports and ranges are added: \<open>AddPort16\<close>,
  \<open>AddPortRange\<close> and the three getters keep the list coherent, and \<open>GetRawList\<close> returns
  exactly the single ports and the ports of the ranges, both ends included, without changing
  the ports themselves.
\<close>

theorem raw_list_current:
  assumes "port_list_wf l"
  shows "port_list_wf (AddPort16 l q) \<and> port_list_wf (AddPortRange l s d)
     \<and> port_list_wf (snd (GetRawList l)) \<and> port_list_wf (snd (GetSinglePortList l))
     \<and> port_list_wf (snd (GetPortRangeList l))
     \<and> (p \<in> set (fst (GetRawList l)) \<longleftrightarrow>
          p \<in> set (mSingleOnes l) \<or> list_ex (\<lambda>r. fst r \<le> p \<and> p \<le> snd r) (mValentines l))
     \<and> p \<in> set (fst (GetRawList (AddPort16 l p)))
     \<and> (s < d \<longrightarrow> s \<le> p \<longrightarrow> p \<le> d \<longrightarrow> p \<in> set (fst (GetRawList (AddPortRange l s d))))"
proof -
  have raw: "port_list_wf l \<Longrightarrow> fst (GetRawList l) = mSingleOnes l @ concat (map range_ports (mValentines l))" for l
    by (simp add: GetRawList_def Let_def port_list_wf_def rebuild_def)
  have wf: "port_list_wf (AddPort16 l q)" "port_list_wf (AddPortRange l s d)" for q s d
    using assms by (auto simp: AddPort16_def AddPortRange_def port_list_wf_def)
  moreover have "port_list_wf (snd (GetRawList l))" "port_list_wf (snd (GetSinglePortList l))"
    "port_list_wf (snd (GetPortRangeList l))"
    using assms by (auto simp: port_list_wf_def GetRawList_def GetSinglePortList_def GetPortRangeList_def
        Let_def rebuild_def)
  moreover have "p \<in> set (fst (GetRawList l)) \<longleftrightarrow>
      p \<in> set (mSingleOnes l) \<or> list_ex (\<lambda>r. fst r \<le> p \<and> p \<le> snd r) (mValentines l)"
    using raw [OF assms] by (auto simp: mem_range_ports list_ex_iff)
  moreover have "p \<in> set (fst (GetRawList (AddPort16 l p)))"
    using raw [OF wf(1), of p] by (simp add: AddPort16_def)
  moreover have "p \<in> set (fst (GetRawList (AddPortRange l s d)))" if "s < d" "s \<le> p" "p \<le> d"
  proof -
    have "(s, d) \<in> set (mValentines (AddPortRange l s d))" using that(1) by (simp add: AddPortRange_def not_le)
    moreover have "p \<in> set (range_ports (s, d))" using that by (simp add: mem_range_ports)
    ultimately show ?thesis unfolding raw [OF wf(2)] by auto
  qed
  ultimately show ?thesis by blast
qed

theorem raw_list_current_witness:
  "fst (GetRawList (AddPortRange (AddPort16 new_port_list 80) 22 24)) = [80, 22, 23, 24]
     \<and> 23 \<in> set (fst (GetRawList (AddPortRange (AddPort16 new_port_list 80) 22 24)))"
proof -
  have "port_list_wf (AddPort16 new_port_list 80)"
    by (simp add: port_list_wf_def AddPort16_def new_port_list_def)
  from raw_list_current [OF this, of 0 22 24 23]
  have "23 \<in> set (fst (GetRawList (AddPortRange (AddPort16 new_port_list 80) 22 24)))" by simp
  moreover have "fst (GetRawList (AddPortRange (AddPort16 new_port_list 80) 22 24)) = [80, 22, 23, 24]"
    by code_simp
  ultimately show ?thesis by blast
qed

text \<open>
  \<open>FromString\<close> does not invalidate the flat list. A list whose raw list was asked for once
  keeps returning the old ports after new text was parsed into it.
\<close>

theorem from_string_keeps_raw_list:
  assumes "mValid l" and "PortList_FromString l s = Some (ok, l')"
  shows "fst (GetRawList l') = mRawList l"
  using assms by (auto simp: PortList_FromString_def GetRawList_def Let_def split: if_splits Option.bind_splits)

theorem from_string_keeps_raw_list_witness:
  "\<exists>l'. PortList_FromString (snd (GetRawList (AddPort16 new_port_list 80))) ''443'' = Some (True, l')
     \<and> mSingleOnes l' = [443] \<and> fst (GetRawList l') = [80]"
proof -
  let ?l = "snd (GetRawList (AddPort16 new_port_list 80))"
  have l: "mValid ?l" "mRawList ?l = [80]"
    by (simp_all add: GetRawList_def AddPort16_def new_port_list_def rebuild_def)
  have "PortList_ToString \<lparr>mValid = False, mRawList = [], mSingleOnes = [443], mValentines = []\<rparr> = ''443''"
    by code_simp
  then obtain l' where "PortList_FromString ?l ''443'' = Some (True, l')" "mSingleOnes l' = [443]"
    using scan_all [of "[]" "[443]" "[]"] by (auto simp: PortList_FromString_def PortList_ToString_def
        valid_port_char_def is_digit_def Let_def)
  then show ?thesis using from_string_keeps_raw_list [OF l(1)] l(2) by metis
qed

end
