(* ===== verification/Ack_Pool.thy ===== *)
theory Ack_Pool
  imports Conn_Info Std_Map
begin

section \<open>The pool of captured handshakes (net/TcpAckPool.cpp)\<close>

text \<open>
  The capture thread records the sequence numbers of every SYN it sees; the event loop fetches
  the record of a connection it has just accepted or dialled. \<open>mInfoPool\<close> is a
  \<open>std::map<TcpInfo, uint64_t, TcpCmpFn>\<close>: the comparator looks at the addresses and ports
  only, so the numbers travel in the stored key. \<open>Wait2TransferInfo\<close> blocks on a condition
  variable with the lock released; the model takes the wake-ups as a list, each with the
  status of \<open>wait_for\<close> and the pool as the other thread has left it. \<^const>\<open>None\<close> means
  that the list is used up and the caller still waits.
\<close>

subsection \<open>Definitions\<close>

record ack_pool =
  EXPIRE_INTERVAL_MS :: u64
  mInfoPool :: "(tcp_info, u64) smap"

definition new_ack_pool :: "u64 \<Rightarrow> ack_pool option" where
  "new_ack_pool expireMs =
     (if expireMs = 0 then None else Some \<lparr>EXPIRE_INTERVAL_MS = expireMs, mInfoPool = []\<rparr>)"

definition AddInfoFromPeer :: "ack_pool \<Rightarrow> tcp_info \<Rightarrow> u8 \<Rightarrow> u64 \<Rightarrow> bool \<times> ack_pool" where
  "AddInfoFromPeer p info flags now =
     (if ci_sp info = 0 \<or> ci_dp info = 0 \<or> flags AND TH_SYN = 0 then (False, p)
      else (True, p\<lparr>mInfoPool := map_assign TcpCmpFn info (now + EXPIRE_INTERVAL_MS p) (mInfoPool p)\<rparr>))"

definition locklessRemove :: "ack_pool \<Rightarrow> tcp_info \<Rightarrow> nat \<times> ack_pool" where
  "locklessRemove p info =
     (if map_has TcpCmpFn info (mInfoPool p) then 1 else 0,
      p\<lparr>mInfoPool := map_erase TcpCmpFn info (mInfoPool p)\<rparr>)"

definition RemoveInfo :: "ack_pool \<Rightarrow> tcp_info \<Rightarrow> nat \<times> ack_pool" where
  "RemoveInfo p info = locklessRemove p info"

definition getInfoIfExists :: "ack_pool \<Rightarrow> tcp_info \<Rightarrow> tcp_info option" where
  "getInfoIfExists p info =
     (case map_find TcpCmpFn info (mInfoPool p) of
        Some (k, _) \<Rightarrow> Some (info\<lparr>ti_seq := ti_seq k, ti_ack := ti_ack k\<rparr>)
      | None \<Rightarrow> None)"

datatype cv_status = no_timeout | timeout

type_synonym wake_ups = "(cv_status \<times> ack_pool) list"

fun Wait2TransferInfo :: "ack_pool \<Rightarrow> tcp_info \<Rightarrow> wake_ups \<Rightarrow> (bool \<times> tcp_info \<times> ack_pool) option" where
  "Wait2TransferInfo p info wakes =
     (case getInfoIfExists p info of
        Some info \<Rightarrow> Some (True, info, snd (locklessRemove p info))
      | None \<Rightarrow> (case wakes of
            [] \<Rightarrow> None
          | (no_timeout, p) # wakes \<Rightarrow> Wait2TransferInfo p info wakes
          | (timeout, p) # _ \<Rightarrow> Some (False, info, p)))"

fun ContainsInfo :: "ack_pool \<Rightarrow> tcp_info \<Rightarrow> wake_ups \<Rightarrow> (bool \<times> ack_pool) option" where
  "ContainsInfo p info wakes =
     (if map_has TcpCmpFn info (mInfoPool p) then Some (True, p)
      else (case wakes of
          [] \<Rightarrow> None
        | (no_timeout, p) # wakes \<Rightarrow> ContainsInfo p info wakes
        | (timeout, p) # _ \<Rightarrow> Some (False, p)))"

declare Wait2TransferInfo.simps [simp del]
declare ContainsInfo.simps [simp del]

definition AckPool_OnFlush :: "ack_pool \<Rightarrow> u64 \<Rightarrow> ack_pool" where
  "AckPool_OnFlush p timestamp = p\<lparr>mInfoPool := filter (\<lambda>e. \<not> snd e \<le> timestamp) (mInfoPool p)\<rparr>"

definition AckPool_Dump :: "ack_pool \<Rightarrow> string" where
  "AckPool_Dump p = concat (map (\<lambda>e. TcpInfo_ToStr (fst e) @ ''; '') (mInfoPool p))"

definition PersistMs :: "ack_pool \<Rightarrow> u64" where
  "PersistMs p = EXPIRE_INTERVAL_MS p"

definition ack_wf :: "ack_pool \<Rightarrow> bool" where
  "ack_wf p \<longleftrightarrow> map_wf TcpCmpFn (mInfoPool p)"

subsection \<open>Pools whose entries expire\<close>

text \<open>
  The pool of handshakes and the server's pool of accepted sockets are ordered maps that a
  timer sweeps. The sweep is a filter on the values; what it promises does not depend on what
  the values are.
\<close>

locale expiring_map = strict_weak_order lt for lt :: "'k \<Rightarrow> 'k \<Rightarrow> bool" +
  fixes live :: "u64 \<Rightarrow> 'v \<Rightarrow> bool"
  assumes live_antimono: "t \<le> t' \<Longrightarrow> live t' v \<Longrightarrow> live t v"
begin

lemma find_sweep:
  "map_wf lt m \<Longrightarrow> map_find lt k (filter (\<lambda>e. live t (snd e)) m)
     = (case map_find lt k m of None \<Rightarrow> None | Some e \<Rightarrow> if live t (snd e) then Some e else None)"
proof (induction m)
  case Nil
  then show ?case by simp
next
  case (Cons e m)
  have "map_find lt k m = None" if "key_equiv lt k (fst e)"
  proof -
    have "\<forall>x \<in> set m. lt k (fst x)" using lt_equiv_left [OF that] Cons.prems by auto
    then show ?thesis by (auto simp: map_find_None_iff key_equiv_def)
  qed
  with Cons show ?case by (auto split: option.splits)
qed

lemma sweep_sweep:
  "t \<le> t' \<Longrightarrow> filter (\<lambda>e. live t' (snd e)) (filter (\<lambda>e. live t (snd e)) m) = filter (\<lambda>e. live t' (snd e)) m"
  by (auto simp: live_antimono intro: filter_cong)

lemma sweep_survives:
  "map_wf lt m \<Longrightarrow> map_find lt k m = Some e \<Longrightarrow> live t' (snd e) \<Longrightarrow> t \<le> t' \<Longrightarrow>
     map_find lt k (filter (\<lambda>e. live t (snd e)) m) = Some e"
  using find_sweep [of m k t] live_antimono by simp

end

interpretation ack_expiry: expiring_map TcpCmpFn "\<lambda>t (v :: u64). \<not> v \<le> t"
  by unfold_locales auto

subsection \<open>Adding and fetching\<close>

lemma ack_wf_AddInfoFromPeer [wf_intros]: "ack_wf p \<Longrightarrow> ack_wf (snd (AddInfoFromPeer p i f now))"
  by (auto simp: AddInfoFromPeer_def ack_wf_def intro: tcp_cmp.wf_assign)

lemma ack_wf_RemoveInfo [wf_intros]: "ack_wf p \<Longrightarrow> ack_wf (snd (RemoveInfo p i))"
  by (auto simp: RemoveInfo_def locklessRemove_def ack_wf_def intro: map_wf_erase)

lemma ack_wf_OnFlush [wf_intros]: "ack_wf p \<Longrightarrow> ack_wf (AckPool_OnFlush p t)"
  by (auto simp: AckPool_OnFlush_def ack_wf_def intro: map_wf_filter)

lemma getInfoIfExists_equals: "getInfoIfExists p i = Some i' \<Longrightarrow> TcpEquals i' i"
  by (auto simp: getInfoIfExists_def TcpEquals_def split: option.splits)

lemma getInfoIfExists_cong:
  "TcpEquals i j \<Longrightarrow> getInfoIfExists p j = map_option (\<lambda>k. j\<lparr>ti_seq := ti_seq k, ti_ack := ti_ack k\<rparr>) (getInfoIfExists p i)"
  using tcp_cmp.find_cong [of j i "mInfoPool p"]
  by (auto simp: getInfoIfExists_def TcpCmpFn_equiv TcpEquals_def split: option.splits)

lemma getInfo_after_remove:
  "TcpEquals i j \<Longrightarrow> getInfoIfExists (snd (locklessRemove p i)) j = None"
  using tcp_cmp.find_cong [of j i "map_erase TcpCmpFn i (mInfoPool p)"]
  by (auto simp: getInfoIfExists_def locklessRemove_def TcpCmpFn_equiv TcpEquals_def)

lemma getInfo_remove_other:
  "\<not> TcpEquals i j \<Longrightarrow> getInfoIfExists (snd (locklessRemove p i)) j = getInfoIfExists p j"
  by (simp add: getInfoIfExists_def locklessRemove_def tcp_cmp.find_erase_other TcpCmpFn_equiv)

text \<open>What the wait returns, in terms of the pools it has looked at.\<close>

primrec seen_before_timeout :: "wake_ups \<Rightarrow> ack_pool list" where
  "seen_before_timeout [] = []"
| "seen_before_timeout (w # ws) = (case fst w of timeout \<Rightarrow> [] | no_timeout \<Rightarrow> snd w # seen_before_timeout ws)"

lemma Wait_found:
  "getInfoIfExists p i = Some i' \<Longrightarrow> Wait2TransferInfo p i ws = Some (True, i', snd (locklessRemove p i'))"
  by (subst Wait2TransferInfo.simps) simp

lemma Wait_none:
  "getInfoIfExists p i = None \<Longrightarrow> Wait2TransferInfo p i ws =
     (case ws of [] \<Rightarrow> None
      | w # ws \<Rightarrow> (case fst w of no_timeout \<Rightarrow> Wait2TransferInfo (snd w) i ws | timeout \<Rightarrow> Some (False, i, snd w)))"
  by (subst Wait2TransferInfo.simps) (auto split: list.splits cv_status.splits)

lemma Wait_spec:
  "Wait2TransferInfo p i ws = Some (ok, i', p') \<Longrightarrow>
     (if ok then \<exists>q \<in> set (p # seen_before_timeout ws).
                   getInfoIfExists q i = Some i' \<and> p' = snd (locklessRemove q i')
      else i' = i \<and> (\<forall>q \<in> set (p # seen_before_timeout ws). getInfoIfExists q i = None) \<and> (timeout, p') \<in> set ws)"
proof (induction ws arbitrary: p)
  case Nil
  then show ?case by (cases "getInfoIfExists p i") (auto simp: Wait_found Wait_none)
next
  case (Cons w ws)
  show ?case
  proof (cases "getInfoIfExists p i")
    case None
    obtain st q where w: "w = (st, q)" by (cases w)
    show ?thesis
    proof (cases st)
      case no_timeout
      with Cons.prems None w have "Wait2TransferInfo q i ws = Some (ok, i', p')" by (simp add: Wait_none)
      from Cons.IH [OF this] show ?thesis using None w no_timeout by (cases ok) auto
    next
      case timeout
      with Cons.prems None w show ?thesis by (simp add: Wait_none)
    qed
  next
    case (Some j)
    with Cons.prems show ?thesis by (auto simp: Wait_found)
  qed
qed

subsection \<open>Properties\<close>



text \<open>
  \<open>AddInfoFromPeer\<close> does not overwrite the numbers. When a record of the same addresses
  and ports is still in the pool, the assignment replaces the expiry time but \<open>std::map\<close>
  keeps the stored key: the next fetch returns \<open>seq\<close> and \<open>ack\<close> of the old handshake.
\<close>

theorem second_handshake_keeps_old_numbers:
  assumes "ack_wf p" and "map_find TcpCmpFn i (mInfoPool p) = Some (old, t)"
  shows "getInfoIfExists (snd (AddInfoFromPeer p i flags now)) i
     = Some (i\<lparr>ti_seq := ti_seq old, ti_ack := ti_ack old\<rparr>)"
  using assms by (auto simp: getInfoIfExists_def AddInfoFromPeer_def ack_wf_def tcp_cmp.find_assign_same)

theorem second_handshake_keeps_old_numbers_witness:
  "let old = (TcpInfo_of \<lparr>ci_src = 1, ci_dst = 2, ci_sp = 10, ci_dp = 20, ci_head = None\<rparr>)\<lparr>ti_seq := 7\<rparr>;
       new = old\<lparr>ti_seq := 8\<rparr>
   in getInfoIfExists (snd (AddInfoFromPeer \<lparr>EXPIRE_INTERVAL_MS = 5000, mInfoPool = [(old, 1)]\<rparr> new TH_SYN 2)) new
        = Some (new\<lparr>ti_seq := 7\<rparr>)"
  unfolding Let_def
  using second_handshake_keeps_old_numbers [where p = "\<lparr>EXPIRE_INTERVAL_MS = 5000, mInfoPool =
        [((TcpInfo_of \<lparr>ci_src = 1, ci_dst = 2, ci_sp = 10, ci_dp = 20, ci_head = None\<rparr>)\<lparr>ti_seq := 7\<rparr>, 1)]\<rparr>"
      and i = "(TcpInfo_of \<lparr>ci_src = 1, ci_dst = 2, ci_sp = 10, ci_dp = 20, ci_head = None\<rparr>)\<lparr>ti_seq := 8\<rparr>"
      and flags = TH_SYN and now = 2]
  by (simp add: ack_wf_def TcpCmpFn_equiv TcpEquals_def TcpInfo_of_def)

text \<open>
  The wait is exact about the pools it looks at. If \<open>Wait2TransferInfo\<close> succeeds, one of the
  pools it looked at (the first one, or one left by a notification before the timeout) held the
  record, the result carries its numbers, and exactly the records of this connection were
  removed from that pool. If it fails, none of these pools held the record, the caller's
  info is unchanged and the pool is as the timeout found it.
\<close>

theorem wait_exact:
  assumes "Wait2TransferInfo p i ws = Some (ok, i', p')"
  shows "(if ok then \<exists>q \<in> set (p # seen_before_timeout ws).
                   getInfoIfExists q i = Some i' \<and> p' = snd (locklessRemove q i') \<and> getInfoIfExists p' i = None
          else i' = i \<and> (\<forall>q \<in> set (p # seen_before_timeout ws). getInfoIfExists q i = None)
             \<and> (timeout, p') \<in> set ws)"
proof -
  have "getInfoIfExists (snd (locklessRemove q i')) i = None" if "getInfoIfExists q i = Some i'" for q
    using getInfo_after_remove getInfoIfExists_equals [OF that] by blast
  with Wait_spec [OF assms] show ?thesis by (auto split: if_splits)
qed

theorem wait_exact_witness:
  "let i = new_tcp_info; p = \<lparr>EXPIRE_INTERVAL_MS = 1, mInfoPool = []\<rparr>
   in Wait2TransferInfo p i [(no_timeout, p), (timeout, p)] = Some (False, i, p)
      \<and> (timeout, p) \<in> set [(no_timeout, p), (timeout, p)]"
  unfolding Let_def
  using wait_exact [of "\<lparr>EXPIRE_INTERVAL_MS = 1, mInfoPool = []\<rparr>" new_tcp_info
      "[(no_timeout, \<lparr>EXPIRE_INTERVAL_MS = 1, mInfoPool = []\<rparr>), (timeout, \<lparr>EXPIRE_INTERVAL_MS = 1, mInfoPool = []\<rparr>)]"
      False new_tcp_info "\<lparr>EXPIRE_INTERVAL_MS = 1, mInfoPool = []\<rparr>"]
  by (simp add: Wait_none getInfoIfExists_def)

end
