(* ===== verification/Server_Net.thy ===== *)
theory Server_Net
  imports Ack_Pool Port_List "HOL-Library.Multiset"
begin

section \<open>Sockets of the server (net/TcpListenPool.cpp, server/ServerNetManager.cpp)\<close>

text \<open>
  The server listens on every port of its list and keeps an accepted socket in a pool until the
  first packet of its connection asks for it; sockets nobody asks for expire. Handles of libuv
  are numbers; what libuv answers (the result of opening a listener, the names of a socket) is
  a parameter of the definitions. \<open>sn_closed\<close> lists the handles passed to \<open>uv_close\<close>, so that
  leaks and double closes can be stated.
\<close>

subsection \<open>Names of a socket (util/rsutil.cpp)\<close>

type_synonym handle = nat

text \<open>The answers of \<open>uv_tcp_getsockname\<close> and \<open>uv_tcp_getpeername\<close>: an error or an address and port.\<close>

type_synonym sock_names = "handle \<Rightarrow> (int + u32 \<times> u16) \<times> (int + u32 \<times> u16)"

definition GetTcpInfo :: "sock_names \<Rightarrow> 'a conn_info_scheme \<Rightarrow> handle option \<Rightarrow> int \<times> 'a conn_info_scheme" where
  "GetTcpInfo names info tcp =
     (case tcp of
        None \<Rightarrow> (-1, info)
      | Some h \<Rightarrow> (case fst (names h) of
            Inl err \<Rightarrow> (err, info)
          | Inr (src, sp) \<Rightarrow> (case snd (names h) of
                Inl err \<Rightarrow> (err, info)
              | Inr (dst, dp) \<Rightarrow> (0, info\<lparr>ci_src := src, ci_sp := sp, ci_dst := dst, ci_dp := dp\<rparr>))))"

subsection \<open>The listening sockets\<close>

record listen_pool =
  lp_ports :: port_list
  lp_pool :: "handle list"
  lp_cb :: bool
  lp_closed :: "handle list"

text \<open>The three results are those of \<open>uv_tcp_init\<close>, \<open>uv_tcp_bind\<close> and \<open>uv_listen\<close>.\<close>

definition initTcp :: "handle \<Rightarrow> int \<times> int \<times> int \<Rightarrow> listen_pool \<Rightarrow> handle option \<times> listen_pool" where
  "initTcp h r lp =
     (case r of (ini, bnd, lis) \<Rightarrow>
        if ini = 0 then
          if bnd = 0 then
            if lis \<noteq> 0 then (None, lp\<lparr>lp_closed := lp_closed lp @ [h]\<rparr>) else (Some h, lp)
          else (None, lp)
        else (None, lp))"

definition clearPool :: "listen_pool \<Rightarrow> listen_pool" where
  "clearPool lp = lp\<lparr>lp_closed := lp_closed lp @ lp_pool lp, lp_pool := []\<rparr>"

primrec listen_all :: "(u16 \<Rightarrow> handle \<times> int \<times> int \<times> int) \<Rightarrow> u16 list \<Rightarrow> listen_pool \<Rightarrow> listen_pool" where
  "listen_all uv [] lp = lp"
| "listen_all uv (p # ps) lp =
     (case initTcp (fst (uv p)) (snd (uv p)) lp of
        (Some h, lp) \<Rightarrow> listen_all uv ps (lp\<lparr>lp_pool := lp_pool lp @ [h]\<rparr>)
      | (None, lp) \<Rightarrow> listen_all uv ps lp)"

definition ListenPool_Init :: "(u16 \<Rightarrow> handle \<times> int \<times> int \<times> int) \<Rightarrow> listen_pool \<Rightarrow> int \<times> listen_pool" where
  "ListenPool_Init uv lp =
     (if \<not> lp_cb lp then (-1, lp)
      else (let (lists, ports) = GetRawList (lp_ports lp);
                lp = listen_all uv lists (lp\<lparr>lp_ports := ports\<rparr>);
                lp = (if length (lp_pool lp) \<noteq> length lists then clearPool lp else lp)
            in (if length (lp_pool lp) = length lists then 0 else -1, lp)))"

definition SetNewConnCb :: "listen_pool \<Rightarrow> bool \<Rightarrow> listen_pool" where
  "SetNewConnCb lp cb = lp\<lparr>lp_cb := cb\<rparr>"

definition ListenPool_Close :: "listen_pool \<Rightarrow> listen_pool" where
  "ListenPool_Close lp = clearPool (lp\<lparr>lp_cb := False\<rparr>)"

text \<open>\<open>newConn\<close> hands an accepted socket on (the first component) or forgets a failed listener.\<close>

definition newConn :: "listen_pool \<Rightarrow> handle \<Rightarrow> int \<Rightarrow> handle option \<times> listen_pool" where
  "newConn lp tcp status =
     (if status = 0 then (Some tcp, lp) else (None, lp\<lparr>lp_pool := remove1 tcp (lp_pool lp)\<rparr>))"

definition UV_ECANCELED :: int where "UV_ECANCELED = -125"

text \<open>\<open>client\<close> is the fresh handle and \<open>nret\<close> the result of \<open>uv_accept\<close>.\<close>

definition new_conn_cb :: "listen_pool \<Rightarrow> handle \<Rightarrow> int \<Rightarrow> handle \<Rightarrow> int \<Rightarrow> handle option \<times> listen_pool" where
  "new_conn_cb lp server status client nret =
     (if status \<noteq> 0 \<and> status \<noteq> UV_ECANCELED then newConn lp server status
      else if nret = 0 then newConn lp client 0
      else (None, lp))"

subsection \<open>The pool of accepted sockets\<close>

record conn_helper =
  ch_conn :: "handle option"
  ch_expireMs :: u64

record server_net =
  sn_ackPool :: ack_pool
  POOL_PERSIST_MS :: u64
  sn_listen :: listen_pool
  sn_pool :: "(tcp_info, conn_helper) smap"
  sn_closed :: "handle list"

definition new_server_net :: "port_list \<Rightarrow> ack_pool \<Rightarrow> server_net" where
  "new_server_net ports ackPool =
     \<lparr>sn_ackPool = ackPool, POOL_PERSIST_MS = PersistMs ackPool,
      sn_listen = \<lparr>lp_ports = ports, lp_pool = [], lp_cb = False, lp_closed = []\<rparr>, sn_pool = [], sn_closed = []\<rparr>"

definition closeTcp :: "handle option \<Rightarrow> server_net \<Rightarrow> server_net" where
  "closeTcp tcp s = (case tcp of None \<Rightarrow> s | Some h \<Rightarrow> s\<lparr>sn_closed := sn_closed s @ [h]\<rparr>)"

text \<open>\<open>INetManager::Init\<close> registers a timer; its result is \<open>nret\<close>.\<close>

definition ServerNet_Init :: "int \<Rightarrow> (u16 \<Rightarrow> handle \<times> int \<times> int \<times> int) \<Rightarrow> server_net \<Rightarrow> int \<times> server_net" where
  "ServerNet_Init nret uv s =
     (if nret \<noteq> 0 then (nret, s)
      else (let (n, lp) = ListenPool_Init uv (SetNewConnCb (sn_listen s) True) in (n, s\<lparr>sn_listen := lp\<rparr>)))"

definition ServerNet_Close :: "server_net \<Rightarrow> server_net" where
  "ServerNet_Close s =
     (let s = fold (closeTcp \<circ> ch_conn \<circ> snd) (sn_pool s) s in
      s\<lparr>sn_pool := map (\<lambda>e. (fst e, (snd e)\<lparr>ch_conn := None\<rparr>)) (sn_pool s),
        sn_listen := SetNewConnCb (ListenPool_Close (sn_listen s)) False\<rparr>)"

definition add2Pool :: "sock_names \<Rightarrow> handle \<Rightarrow> u64 \<Rightarrow> server_net \<Rightarrow> server_net" where
  "add2Pool names tcp now s =
     (let (nret, tcpInfo) = GetTcpInfo names new_tcp_info (Some tcp) in
      if nret = 0 then
        s\<lparr>sn_pool := map_emplace TcpCmpFn tcpInfo \<lparr>ch_conn = Some tcp, ch_expireMs = now + POOL_PERSIST_MS s\<rparr> (sn_pool s)\<rparr>
      else s\<lparr>sn_ackPool := snd (RemoveInfo (sn_ackPool s) tcpInfo)\<rparr>)"

definition OnNewConnection :: "sock_names \<Rightarrow> handle \<Rightarrow> u64 \<Rightarrow> server_net \<Rightarrow> server_net" where
  "OnNewConnection names tcp now s = add2Pool names tcp now s"

definition GetTcp :: "server_net \<Rightarrow> tcp_info \<Rightarrow> wake_ups \<Rightarrow> (handle option \<times> tcp_info \<times> server_net) option" where
  "GetTcp s info wakes =
     (let miss = (\<lambda>info s. Some (None, info, s\<lparr>sn_ackPool := snd (RemoveInfo (sn_ackPool s) info)\<rparr>)) in
      case map_find TcpCmpFn info (sn_pool s) of
        Some (_, h) \<Rightarrow> (case ch_conn h of
            None \<Rightarrow> Some (None, info, s)
          | Some tcp \<Rightarrow> (let s = s\<lparr>sn_pool := map_erase TcpCmpFn info (sn_pool s)\<rparr> in do {
              (ok, info, p) \<leftarrow> Wait2TransferInfo (sn_ackPool s) info wakes;
              let s = s\<lparr>sn_ackPool := p\<rparr>;
              if ok then Some (Some tcp, info, s)
              else miss info (closeTcp (Some tcp) s) }))
      | None \<Rightarrow> miss info s)"

definition ContainsTcp :: "server_net \<Rightarrow> tcp_info \<Rightarrow> bool" where
  "ContainsTcp s info = map_has TcpCmpFn info (sn_pool s)"

definition expired_conn :: "u64 \<Rightarrow> conn_helper \<Rightarrow> bool" where
  "expired_conn t e \<longleftrightarrow> ch_conn e = None \<or> t \<ge> ch_expireMs e"

text \<open>The loop over the pool: the entries that stay and the state with the sockets closed.\<close>

primrec flush_pool :: "u64 \<Rightarrow> (tcp_info, conn_helper) smap \<Rightarrow> server_net \<Rightarrow> (tcp_info, conn_helper) smap \<times> server_net" where
  "flush_pool t [] s = ([], s)"
| "flush_pool t (e # m) s =
     (case ch_conn (snd e) of
        Some tcp \<Rightarrow>
          if t \<ge> ch_expireMs (snd e) then flush_pool t m (closeTcp (Some tcp) s)
          else (let (m, s) = flush_pool t m s in (e # m, s))
      | None \<Rightarrow> flush_pool t m s)"

definition ServerNet_OnFlush :: "u64 \<Rightarrow> server_net \<Rightarrow> server_net" where
  "ServerNet_OnFlush t s = (let (m, s) = flush_pool t (sn_pool s) s in s\<lparr>sn_pool := m\<rparr>)"

definition pool_handles :: "server_net \<Rightarrow> handle list" where
  "pool_handles s = concat (map (\<lambda>e. case ch_conn (snd e) of None \<Rightarrow> [] | Some h \<Rightarrow> [h]) (sn_pool s))"

definition server_wf :: "server_net \<Rightarrow> bool" where
  "server_wf s \<longleftrightarrow> map_wf TcpCmpFn (sn_pool s) \<and> ack_wf (sn_ackPool s)"

interpretation pool_expiry: expiring_map TcpCmpFn "\<lambda>t e. \<not> expired_conn t e"
  by unfold_locales (auto simp: expired_conn_def)

subsection \<open>The sweep\<close>

lemma flush_pool_eq:
  "flush_pool t m s = (filter (\<lambda>e. \<not> expired_conn t (snd e)) m,
     fold (closeTcp \<circ> ch_conn \<circ> snd) (filter (\<lambda>e. expired_conn t (snd e)) m) s)"
  by (induction m arbitrary: s) (auto simp: expired_conn_def closeTcp_def split: option.splits)

lemma fold_closeTcp:
  "fold (closeTcp \<circ> ch_conn \<circ> snd) es s
     = s\<lparr>sn_closed := sn_closed s @ concat (map (\<lambda>e. case ch_conn (snd e) of None \<Rightarrow> [] | Some h \<Rightarrow> [h]) es)\<rparr>"
  by (induction es arbitrary: s) (auto simp: closeTcp_def split: option.splits)

lemma ServerNet_OnFlush_pool: "sn_pool (ServerNet_OnFlush t s) = filter (\<lambda>e. \<not> expired_conn t (snd e)) (sn_pool s)"
  by (simp add: ServerNet_OnFlush_def flush_pool_eq)

lemma mset_concat_split:
  "mset (concat (map f (filter P xs))) + mset (concat (map f (filter (\<lambda>x. \<not> P x) xs))) = mset (concat (map f xs))"
  by (induction xs) auto

lemma erase_found:
  assumes "map_wf TcpCmpFn m" "map_find TcpCmpFn i m = Some e"
  shows "mset m = add_mset e (mset (map_erase TcpCmpFn i m))"
  using assms
proof (induction m)
  case (Cons x m)
  show ?case
  proof (cases "key_equiv TcpCmpFn i (fst x)")
    case True
    have "\<forall>y \<in> set m. TcpCmpFn i (fst y)" using tcp_cmp.lt_equiv_left [OF True] Cons.prems(1) by auto
    then have "filter (\<lambda>e. \<not> key_equiv TcpCmpFn i (fst e)) m = m"
      by (intro filter_True) (auto simp: key_equiv_def)
    with True Cons.prems show ?thesis by (simp add: map_erase_def)
  next
    case False
    with Cons show ?thesis by (simp add: map_erase_def)
  qed
qed simp

lemma mset_pool_handles:
  "mset (pool_handles s) = (\<Sum>e\<in>#mset (sn_pool s). case ch_conn (snd e) of None \<Rightarrow> {#} | Some h \<Rightarrow> {#h#})"
proof -
  have "mset (concat (map (\<lambda>e. case ch_conn (snd e) of None \<Rightarrow> [] | Some h \<Rightarrow> [h]) m))
      = (\<Sum>e\<in>#mset m. case ch_conn (snd e) of None \<Rightarrow> {#} | Some h \<Rightarrow> {#h#})" for m :: "(tcp_info, conn_helper) smap"
    by (induction m) (auto split: option.splits)
  then show ?thesis by (simp add: pool_handles_def)
qed

subsection \<open>Properties\<close>

text \<open>
  C36: No accepted socket is lost or closed twice while the pool is used. \<open>OnFlush\<close> and \<open>GetTcp\<close>
  keep the multiset of handles made of the pool, the handles closed so far and the handle
  returned; and a socket enters the pool with \<open>OnNewConnection\<close> whenever libuv can name it and
  no socket of the same addresses and ports is there already.
\<close>

theorem sockets_conserved:
  assumes "server_wf s"
  shows "mset (pool_handles (ServerNet_OnFlush t s)) + mset (sn_closed (ServerNet_OnFlush t s))
           = mset (pool_handles s) + mset (sn_closed s)
     \<and> (\<forall>r i' s'. GetTcp s i ws = Some (r, i', s') \<longrightarrow>
          mset (pool_handles s') + mset (sn_closed s') + (case r of None \<Rightarrow> {#} | Some h \<Rightarrow> {#h#})
            = mset (pool_handles s) + mset (sn_closed s))
     \<and> (\<forall>i. GetTcpInfo names new_tcp_info (Some h) = (0, i) \<longrightarrow> \<not> ContainsTcp s i \<longrightarrow>
          mset (pool_handles (OnNewConnection names h now s)) = add_mset h (mset (pool_handles s)))"
proof (intro conjI allI impI)
  show "mset (pool_handles (ServerNet_OnFlush t s)) + mset (sn_closed (ServerNet_OnFlush t s))
      = mset (pool_handles s) + mset (sn_closed s)"
    using mset_concat_split [of _ "\<lambda>e. expired_conn t (snd e)" "sn_pool s"]
    by (simp add: ServerNet_OnFlush_def flush_pool_eq fold_closeTcp pool_handles_def ac_simps)
next
  fix r i' s' assume g: "GetTcp s i ws = Some (r, i', s')"
  show "mset (pool_handles s') + mset (sn_closed s') + (case r of None \<Rightarrow> {#} | Some h \<Rightarrow> {#h#})
      = mset (pool_handles s) + mset (sn_closed s)"
    using g assms erase_found [of "sn_pool s" i]
    by (auto simp: GetTcp_def Let_def closeTcp_def mset_pool_handles server_wf_def
        split: option.splits prod.splits if_splits Option.bind_splits)
next
  fix i assume i: "GetTcpInfo names new_tcp_info (Some h) = (0, i)" and c: "\<not> ContainsTcp s i"
  let ?v = "\<lparr>ch_conn = Some h, ch_expireMs = now + POOL_PERSIST_MS s\<rparr>"
  have "mset (map_emplace TcpCmpFn i ?v m) = add_mset (i, ?v) (mset m)"
    if "\<not> map_has TcpCmpFn i m" for m
    using that by (induction m) (auto simp: map_has_def key_equiv_def split: if_splits)
  then show "mset (pool_handles (OnNewConnection names h now s)) = add_mset h (mset (pool_handles s))"
    using i c by (simp add: OnNewConnection_def add2Pool_def mset_pool_handles ContainsTcp_def)
qed

theorem sockets_conserved_witness:
  "let p = \<lparr>EXPIRE_INTERVAL_MS = 1000, mInfoPool = []\<rparr>; names = (\<lambda>h. (Inr (1, 80), Inr (2, 90)));
       s = OnNewConnection names 5 10 (new_server_net new_port_list p)
   in mset (pool_handles s) = {#5#} \<and> pool_handles (ServerNet_OnFlush 1010 s) = [] \<and> sn_closed (ServerNet_OnFlush 1010 s) = [5]"
proof -
  let ?p = "\<lparr>EXPIRE_INTERVAL_MS = 1000, mInfoPool = []\<rparr>"
  let ?names = "\<lambda>h. (Inr (1, 80), Inr (2, 90)) :: (int + u32 \<times> u16) \<times> (int + u32 \<times> u16)"
  have "server_wf (new_server_net new_port_list ?p)"
    by (simp add: server_wf_def new_server_net_def ack_wf_def)
  from sockets_conserved [OF this, where h = 5 and now = 10 and names = ?names]
  have "mset (pool_handles (OnNewConnection ?names 5 10 (new_server_net new_port_list ?p))) = {#5#}"
    by (auto simp: GetTcpInfo_def ContainsTcp_def new_server_net_def map_has_def pool_handles_def)
  moreover have "pool_handles (ServerNet_OnFlush 1010 (OnNewConnection ?names 5 10 (new_server_net new_port_list ?p))) = []
      \<and> sn_closed (ServerNet_OnFlush 1010 (OnNewConnection ?names 5 10 (new_server_net new_port_list ?p))) = [5]"
    by (simp add: OnNewConnection_def add2Pool_def GetTcpInfo_def new_server_net_def PersistMs_def
        ServerNet_OnFlush_def pool_handles_def closeTcp_def)
  ultimately show ?thesis by (simp add: Let_def)
qed

text \<open>
  A connection is handed out exactly when both halves are there. If the pool has a socket
  and the pool of handshakes a record for the addresses and ports asked for, \<open>GetTcp\<close> returns
  that socket with the captured \<open>seq\<close> and \<open>ack\<close>, and afterwards neither half is left. If
  there is no socket, it returns null, leaves the info alone and discards the record.
\<close>

theorem get_tcp_both_halves:
  assumes "server_wf s"
  shows "(\<forall>k h e j. map_find TcpCmpFn i (sn_pool s) = Some (k, \<lparr>ch_conn = Some h, ch_expireMs = e\<rparr>) \<longrightarrow>
            getInfoIfExists (sn_ackPool s) i = Some j \<longrightarrow>
            (\<exists>s'. GetTcp s i ws = Some (Some h, j, s') \<and> TcpEquals j i
               \<and> \<not> ContainsTcp s' i \<and> getInfoIfExists (sn_ackPool s') i = None \<and> sn_closed s' = sn_closed s))
       \<and> (\<not> ContainsTcp s i \<longrightarrow>
            (\<exists>s'. GetTcp s i ws = Some (None, i, s') \<and> getInfoIfExists (sn_ackPool s') i = None
               \<and> sn_pool s' = sn_pool s \<and> sn_closed s' = sn_closed s))"
proof (intro conjI allI impI)
  fix k h e j
  assume f: "map_find TcpCmpFn i (sn_pool s) = Some (k, \<lparr>ch_conn = Some h, ch_expireMs = e\<rparr>)"
    and a: "getInfoIfExists (sn_ackPool s) i = Some j"
  have "TcpEquals j i" by (rule getInfoIfExists_equals [OF a])
  then show "\<exists>s'. GetTcp s i ws = Some (Some h, j, s') \<and> TcpEquals j i
      \<and> \<not> ContainsTcp s' i \<and> getInfoIfExists (sn_ackPool s') i = None \<and> sn_closed s' = sn_closed s"
    using f Wait_found [OF a, of ws] getInfo_after_remove [of j i]
    by (simp add: GetTcp_def Let_def ContainsTcp_def map_has_def)
next
  assume "\<not> ContainsTcp s i"
  then have "map_find TcpCmpFn i (sn_pool s) = None" unfolding ContainsTcp_def map_has_def by blast
  moreover have "TcpEquals i i" by (simp add: TcpEquals_def)
  ultimately show "\<exists>s'. GetTcp s i ws = Some (None, i, s') \<and> getInfoIfExists (sn_ackPool s') i = None
      \<and> sn_pool s' = sn_pool s \<and> sn_closed s' = sn_closed s"
    by (simp add: GetTcp_def Let_def RemoveInfo_def getInfo_after_remove)
qed

theorem get_tcp_both_halves_witness:
  "let i = TcpInfo_of \<lparr>ci_src = 1, ci_dst = 2, ci_sp = 80, ci_dp = 90, ci_head = None\<rparr>;
       s = (new_server_net new_port_list \<lparr>EXPIRE_INTERVAL_MS = 9, mInfoPool = [(i\<lparr>ti_seq := 3\<rparr>, 9)]\<rparr>)
             \<lparr>sn_pool := [(i, \<lparr>ch_conn = Some 5, ch_expireMs = 9\<rparr>)]\<rparr>
   in \<exists>s'. GetTcp s i [] = Some (Some 5, i\<lparr>ti_seq := 3\<rparr>, s') \<and> \<not> ContainsTcp s' i"
proof -
  let ?i = "TcpInfo_of \<lparr>ci_src = 1, ci_dst = 2, ci_sp = 80, ci_dp = 90, ci_head = None\<rparr>"
  let ?s = "(new_server_net new_port_list \<lparr>EXPIRE_INTERVAL_MS = 9, mInfoPool = [(?i\<lparr>ti_seq := 3\<rparr>, 9)]\<rparr>)
             \<lparr>sn_pool := [(?i, \<lparr>ch_conn = Some 5, ch_expireMs = 9\<rparr>)]\<rparr>"
  have "server_wf ?s" by (simp add: server_wf_def new_server_net_def ack_wf_def)
  moreover have "map_find TcpCmpFn ?i (sn_pool ?s) = Some (?i, \<lparr>ch_conn = Some 5, ch_expireMs = 9\<rparr>)"
    by (simp add: TcpCmpFn_equiv TcpEquals_def)
  moreover have "getInfoIfExists (sn_ackPool ?s) ?i = Some (?i\<lparr>ti_seq := 3\<rparr>)"
    by (simp add: getInfoIfExists_def new_server_net_def TcpCmpFn_equiv TcpEquals_def TcpInfo_of_def)
  ultimately show ?thesis
    using get_tcp_both_halves [of ?s ?i "[]"] unfolding Let_def by blast
qed

text \<open>
  A second socket for addresses and ports that are still in the pool is leaked: \<open>add2Pool\<close>
  logs that it overrides the entry, but \<open>emplace\<close> leaves the old one, and the new handle is
  neither in the pool nor closed.
\<close>

theorem duplicate_socket_leaked:
  assumes "server_wf s" and "GetTcpInfo names new_tcp_info (Some h) = (0, i)" and "ContainsTcp s i"
  shows "OnNewConnection names h now s = s"
proof -
  have "map_emplace TcpCmpFn i v (sn_pool s) = sn_pool s" for v
    using assms(1,3) by (intro tcp_cmp.emplace_present) (auto simp: server_wf_def ContainsTcp_def map_has_def)
  then show ?thesis using assms(2) by (simp add: OnNewConnection_def add2Pool_def)
qed

theorem duplicate_socket_leaked_witness:
  "let i = TcpInfo_of \<lparr>ci_src = 1, ci_dst = 2, ci_sp = 80, ci_dp = 90, ci_head = None\<rparr>;
       s = (new_server_net new_port_list \<lparr>EXPIRE_INTERVAL_MS = 9, mInfoPool = []\<rparr>)
             \<lparr>sn_pool := [(i, \<lparr>ch_conn = Some 5, ch_expireMs = 9\<rparr>)]\<rparr>
   in OnNewConnection (\<lambda>h. (Inr (1, 80), Inr (2, 90))) 6 0 s = s"
proof -
  let ?i = "TcpInfo_of \<lparr>ci_src = 1, ci_dst = 2, ci_sp = 80, ci_dp = 90, ci_head = None\<rparr>"
  let ?s = "(new_server_net new_port_list \<lparr>EXPIRE_INTERVAL_MS = 9, mInfoPool = []\<rparr>)
             \<lparr>sn_pool := [(?i, \<lparr>ch_conn = Some 5, ch_expireMs = 9\<rparr>)]\<rparr>"
  let ?names = "\<lambda>h. (Inr (1, 80), Inr (2, 90)) :: (int + u32 \<times> u16) \<times> (int + u32 \<times> u16)"
  have "server_wf ?s" by (simp add: server_wf_def new_server_net_def ack_wf_def)
  moreover have "GetTcpInfo ?names new_tcp_info (Some 6) = (0, ?i)"
    by (simp add: GetTcpInfo_def new_tcp_info_def new_conn_info_def TcpInfo_of_def)
  moreover have "ContainsTcp ?s ?i" by (simp add: ContainsTcp_def map_has_def TcpCmpFn_equiv TcpEquals_def)
  ultimately show ?thesis using duplicate_socket_leaked [of ?s ?names 6 ?i 0] by (simp add: Let_def)
qed

lemma listen_all_ok:
  "length (lp_pool (listen_all uv ps lp)) \<le> length (lp_pool lp) + length ps
   \<and> (length (lp_pool (listen_all uv ps lp)) = length (lp_pool lp) + length ps \<longleftrightarrow> (\<forall>p \<in> set ps. snd (uv p) = (0, 0, 0)))
   \<and> ((\<forall>p \<in> set ps. snd (uv p) = (0, 0, 0)) \<longrightarrow>
        listen_all uv ps lp = lp\<lparr>lp_pool := lp_pool lp @ map (fst \<circ> uv) ps\<rparr>)"
proof (induction ps arbitrary: lp)
  case Nil
  then show ?case by simp
next
  case (Cons p ps)
  obtain h a b c where u: "uv p = (h, a, b, c)" by (cases "uv p") auto
  show ?case
  proof (cases "a = 0 \<and> b = 0 \<and> c = 0")
    case True
    then show ?thesis using Cons.IH [of "lp\<lparr>lp_pool := lp_pool lp @ [h]\<rparr>"] u by (auto simp: initTcp_def)
  next
    case False
    define lp' where "lp' = snd (initTcp h (a, b, c) lp)"
    with False have lp': "initTcp h (a, b, c) lp = (None, lp')" "lp_pool lp' = lp_pool lp"
      by (auto simp: initTcp_def)
    then have "listen_all uv (p # ps) lp = listen_all uv ps lp'" using u by simp
    moreover have "length (lp_pool (listen_all uv ps lp')) \<le> length (lp_pool lp) + length ps"
      using Cons.IH [of lp'] lp'(2) by simp
    ultimately show ?thesis using False u by auto
  qed
qed

text \<open>
  Listening is all or nothing. With a callback set and no listeners yet, \<open>Init\<close> succeeds
  exactly when libuv lets every port of the list be bound and listened on, and then has one
  listener per port; otherwise it fails with the pool empty again.
\<close>

theorem listen_all_or_nothing:
  assumes "lp_cb lp" and "lp_pool lp = []" and "port_list_wf (lp_ports lp)"
  shows "let ports = fst (GetRawList (lp_ports lp)); (n, lp') = ListenPool_Init uv lp in
     (if \<forall>p \<in> set ports. snd (uv p) = (0, 0, 0) then n = 0 \<and> lp_pool lp' = map (fst \<circ> uv) ports
      else n = -1 \<and> lp_pool lp' = [])"
proof -
  let ?ps = "fst (GetRawList (lp_ports lp))"
  let ?lp = "lp\<lparr>lp_ports := snd (GetRawList (lp_ports lp))\<rparr>"
  let ?l = "listen_all uv ?ps ?lp"
  let ?ok = "\<forall>p \<in> set ?ps. snd (uv p) = (0, 0, 0)"
  have l: "length (lp_pool ?l) = length ?ps \<longleftrightarrow> ?ok" "?ok \<Longrightarrow> lp_pool ?l = map (fst \<circ> uv) ?ps"
    using listen_all_ok [of uv ?ps ?lp] assms(2) by auto
  have i: "ListenPool_Init uv lp = (let q = (if length (lp_pool ?l) \<noteq> length ?ps then clearPool ?l else ?l)
      in (if length (lp_pool q) = length ?ps then 0 else -1, q))"
    using assms(1) by (simp add: ListenPool_Init_def case_prod_beta Let_def)
  show ?thesis
  proof (cases ?ok)
    case True
    then show ?thesis using l i by (simp add: Let_def)
  next
    case False
    then have "?ps \<noteq> []" by auto
    with False show ?thesis using l i by (simp add: Let_def clearPool_def)
  qed
qed

theorem listen_all_or_nothing_witness:
  "let lp = \<lparr>lp_ports = AddPort16 new_port_list 80, lp_pool = [], lp_cb = True, lp_closed = []\<rparr>
   in fst (ListenPool_Init (\<lambda>p. (7, 0, 0, 0)) lp) = 0 \<and> lp_pool (snd (ListenPool_Init (\<lambda>p. (7, 0, 0, 0)) lp)) = [7]"
proof -
  let ?lp = "\<lparr>lp_ports = AddPort16 new_port_list 80, lp_pool = [], lp_cb = True, lp_closed = []\<rparr>"
  have "port_list_wf (lp_ports ?lp)" by (simp add: port_list_wf_def AddPort16_def new_port_list_def)
  moreover have "fst (GetRawList (lp_ports ?lp)) = [80]"
    by (simp add: GetRawList_def AddPort16_def new_port_list_def rebuild_def)
  ultimately show ?thesis
    using listen_all_or_nothing [of ?lp "\<lambda>p. (7, 0, 0, 0)"] by (simp add: Let_def case_prod_beta)
qed

end
