(* ===== verification/Handler.thy ===== *)
theory Handler
  imports Rsock_Prelude
begin

section \<open>Messages and delayed tasks (util/Handler.cpp)\<close>

text \<open>
  A handler keeps tasks and messages, both sorted by the time they are due, and one timer of
  the event loop. Functions and objects are numbers here; \<^const>\<open>None\<close> is the null pointer.
  \<open>mOneShotTimer\<close> is the time the timer fires, or \<^const>\<open>None\<close> when there is no timer. An
  operation takes the time \<open>now\<close> as an argument: the clock does not advance during one
  operation. Delivering is returning: \<open>OnTimeout\<close> gives the tasks and the messages it runs, in
  order, with the state in which the first of them is run (the lock is not held there, so what
  they do with the handler are further operations). Functions that throw are \<^const>\<open>None\<close>.
\<close>

subsection \<open>Definitions\<close>

record message =
  m_what :: int
  m_arg1 :: int
  m_msg :: string
  m_obj :: "nat option"
  m_handler :: "nat option"
  m_expireMs :: u64

record task =
  t_mTask :: "nat option"
  t_mKey :: int
  t_expireMs :: u64

record handler =
  h_this :: nat
  mCallback :: bool
  mTaskList :: "task list"
  mMessageList :: "message list"
  mNextTimeoutMs :: u64
  mOneShotTimer :: "u64 option"

definition INTERVAL :: u64 where "INTERVAL = 10"

definition new_handler :: "nat \<Rightarrow> bool \<Rightarrow> handler" where
  "new_handler this cb = \<lparr>h_this = this, mCallback = cb, mTaskList = [], mMessageList = [],
     mNextTimeoutMs = 0, mOneShotTimer = None\<rparr>"

definition message_eq :: "message \<Rightarrow> message \<Rightarrow> bool" where
  "message_eq a b \<longleftrightarrow> m_what b = m_what a \<and> m_arg1 b = m_arg1 a \<and> m_msg b = m_msg a
     \<and> m_obj b = m_obj a \<and> m_handler b = m_handler a"

definition task_eq :: "task \<Rightarrow> task \<Rightarrow> bool" where
  "task_eq a b \<longleftrightarrow> t_mKey a = t_mKey b"

definition ObtainMessage :: "handler \<Rightarrow> int \<Rightarrow> int \<Rightarrow> string \<Rightarrow> nat option \<Rightarrow> message" where
  "ObtainMessage h what arg1 msg obj = \<lparr>m_what = what, m_arg1 = arg1, m_msg = msg, m_obj = obj,
     m_handler = Some (h_this h), m_expireMs = 0\<rparr>"

definition destroyTimer :: "handler \<Rightarrow> handler" where
  "destroyTimer h = h\<lparr>mOneShotTimer := None\<rparr>"

text \<open>\<open>uv_timer_start\<close> takes the delay; a negative one (as \<open>int64_t\<close>) is cut to 0.\<close>

definition setupOneShotTimer :: "handler \<Rightarrow> u64 \<Rightarrow> u64 \<Rightarrow> u64 \<Rightarrow> handler" where
  "setupOneShotTimer h ts prev_timeout_ts now =
     (let start = (\<lambda>h. h\<lparr>mOneShotTimer := Some (now + (if sint (ts - now) < 0 then 0 else ts - now))\<rparr>) in
      if mOneShotTimer h \<noteq> None then
        if ts + INTERVAL < prev_timeout_ts then start (destroyTimer h) else h
      else start h)"

definition next_ts :: "handler \<Rightarrow> u64" where
  "next_ts h =
     (let ts = (if mTaskList h \<noteq> [] then t_expireMs (hd (mTaskList h)) else 0) in
      if mMessageList h \<noteq> [] then
        (let ts2 = m_expireMs (hd (mMessageList h)) in
         if ts \<noteq> 0 then (if ts < ts2 then ts else ts2) else ts2)
      else ts)"

definition updateNextMsAndTimer :: "handler \<Rightarrow> u64 \<Rightarrow> handler" where
  "updateNextMsAndTimer h now =
     (if mTaskList h = [] \<and> mMessageList h = [] then destroyTimer (h\<lparr>mNextTimeoutMs := 0\<rparr>)
      else (let ts = next_ts h in
            (setupOneShotTimer h ts (mNextTimeoutMs h) now)\<lparr>mNextTimeoutMs := ts\<rparr>))"

text \<open>The search for the first element that is due later, and the insertion before it.\<close>

primrec insert_due :: "('a \<Rightarrow> u64) \<Rightarrow> 'a \<Rightarrow> 'a list \<Rightarrow> 'a list" where
  "insert_due expire x [] = [x]"
| "insert_due expire x (y # ys) = (if expire y > expire x then x # y # ys else y # insert_due expire x ys)"

definition doPost :: "handler \<Rightarrow> task \<Rightarrow> u64 \<Rightarrow> u64 \<Rightarrow> bool \<times> handler" where
  "doPost h t ts now =
     (if t_mTask t = None then (False, h)
      else (let ts = (if ts < now then now else ts) in
        if list_ex (task_eq t) (mTaskList h) then (False, h)
        else (True, updateNextMsAndTimer (h\<lparr>mTaskList := insert_due t_expireMs (t\<lparr>t_expireMs := ts\<rparr>) (mTaskList h)\<rparr>) now)))"

definition Post :: "handler \<Rightarrow> task \<Rightarrow> u64 \<Rightarrow> handler" where
  "Post h t now = snd (doPost h t now now)"

definition PostDelayed :: "handler \<Rightarrow> task \<Rightarrow> u64 \<Rightarrow> u64 \<Rightarrow> handler" where
  "PostDelayed h t delay now = snd (doPost h t (now + delay) now)"

definition PostAtTime :: "handler \<Rightarrow> task \<Rightarrow> u64 \<Rightarrow> u64 \<Rightarrow> handler" where
  "PostAtTime h t ts now = snd (doPost h t ts now)"

primrec remove_first :: "('a \<Rightarrow> bool) \<Rightarrow> 'a list \<Rightarrow> 'a list" where
  "remove_first P [] = []"
| "remove_first P (x # xs) = (if P x then xs else x # remove_first P xs)"

definition RemoveTask :: "handler \<Rightarrow> task \<Rightarrow> bool \<times> handler" where
  "RemoveTask h t =
     (if list_ex (task_eq t) (mTaskList h)
      then (True, h\<lparr>mTaskList := remove_first (task_eq t) (mTaskList h)\<rparr>) else (False, h))"

definition RemoveAll :: "handler \<Rightarrow> handler" where
  "RemoveAll h = destroyTimer (h\<lparr>mTaskList := [], mMessageList := []\<rparr>)"

definition Handler_Close :: "handler \<Rightarrow> handler" where
  "Handler_Close h = RemoveAll h"

definition Handler_Size :: "handler \<Rightarrow> nat" where
  "Handler_Size h = length (mTaskList h) + length (mMessageList h)"

definition SendMessageAtTime :: "handler \<Rightarrow> message \<Rightarrow> u64 \<Rightarrow> u64 \<Rightarrow> (bool \<times> handler) option" where
  "SendMessageAtTime h msg ts now =
     (if mCallback h then
        (let ts = (if ts < now then now else ts);
             message = msg\<lparr>m_expireMs := ts, m_handler := Some (h_this h)\<rparr> in
         if list_ex (message_eq message) (mMessageList h) then Some (False, h)
         else Some (True, updateNextMsAndTimer (h\<lparr>mMessageList := insert_due m_expireMs message (mMessageList h)\<rparr>) now))
      else None)"

definition SendMessage :: "handler \<Rightarrow> message \<Rightarrow> u64 \<Rightarrow> (bool \<times> handler) option" where
  "SendMessage h msg now = SendMessageAtTime h msg now now"

definition SendMessageDelayed :: "handler \<Rightarrow> message \<Rightarrow> u64 \<Rightarrow> u64 \<Rightarrow> (bool \<times> handler) option" where
  "SendMessageDelayed h msg delay now = SendMessageAtTime h msg (now + delay) now"

definition SendToTarget :: "handler \<Rightarrow> message \<Rightarrow> u64 \<Rightarrow> (bool \<times> handler) option" where
  "SendToTarget h msg now = (if m_handler msg = None then None else SendMessage h msg now)"

definition HasMessages :: "handler \<Rightarrow> int \<Rightarrow> bool" where
  "HasMessages h what = list_ex (\<lambda>m. m_what m = what) (mMessageList h)"

definition RemoveMessage :: "handler \<Rightarrow> message \<Rightarrow> bool \<times> handler" where
  "RemoveMessage h msg =
     (if m_handler msg \<noteq> None \<and> list_ex (message_eq msg) (mMessageList h)
      then (True, h\<lparr>mMessageList := remove_first (message_eq msg) (mMessageList h)\<rparr>) else (False, h))"

text \<open>
  \<open>RemoveMessages\<close> works in place: the inner loop moves element \<open>i\<close> down to position \<open>k\<close> by
  swapping neighbours, the outer loop does so with every element to be deleted, and the second
  loop pops them off the front.
\<close>

function swap_down :: "nat \<Rightarrow> nat \<Rightarrow> 'a list \<Rightarrow> 'a list" where
  "swap_down j k xs = (if j > k then swap_down (j - 1) k (xs[j := xs ! (j - 1), j - 1 := xs ! j]) else xs)"
  by pat_completeness auto
termination
  by (relation "measure (\<lambda>(j, k, xs). j)") auto

declare swap_down.simps [simp del]

lemma length_swap_down [simp]: "length (swap_down j k xs) = length xs"
  by (induction j k xs rule: swap_down.induct) (subst swap_down.simps, auto)

function move_front :: "('a \<Rightarrow> bool) \<Rightarrow> nat \<Rightarrow> nat \<Rightarrow> 'a list \<Rightarrow> 'a list" where
  "move_front P i k xs =
     (if i < length xs then
        if P (xs ! i) then move_front P (i + 1) (k + 1) (swap_down i k xs)
        else move_front P (i + 1) k xs
      else xs)"
  by pat_completeness auto
termination
  by (relation "measure (\<lambda>(P, i, k, xs). length xs - i)") auto

declare move_front.simps [simp del]

definition RemoveMessages :: "handler \<Rightarrow> int \<Rightarrow> bool \<times> handler" where
  "RemoveMessages h what =
     (let l = move_front (\<lambda>m. m_what m = what) 1 0 (mMessageList h) in
      (l \<noteq> [] \<and> m_what (hd l) = what, h\<lparr>mMessageList := dropWhile (\<lambda>m. m_what m = what) l\<rparr>))"

definition is_due :: "u64 \<Rightarrow> u64 \<Rightarrow> bool" where
  "is_due now expire \<longleftrightarrow> sint (expire - now) < sint INTERVAL"

definition OnTimeout :: "handler \<Rightarrow> u64 \<Rightarrow> (task list \<times> message list \<times> handler) option" where
  "OnTimeout h now =
     (let h = destroyTimer h in
      if mMessageList h = [] \<and> mTaskList h = [] then Some ([], [], h)
      else if mNextTimeoutMs h > now + INTERVAL then Some ([], [], updateNextMsAndTimer h now)
      else if mNextTimeoutMs h = 0 then None
      else Some (filter (\<lambda>t. is_due now (t_expireMs t)) (mTaskList h),
                 filter (\<lambda>m. is_due now (m_expireMs m)) (mMessageList h),
                 updateNextMsAndTimer
                   (h\<lparr>mTaskList := filter (\<lambda>t. \<not> is_due now (t_expireMs t)) (mTaskList h),
                      mMessageList := filter (\<lambda>m. \<not> is_due now (m_expireMs m)) (mMessageList h)\<rparr>) now))"

text \<open>
  The invariant: both lists are sorted; as long as there is something to deliver, there is a
  timer and \<open>mNextTimeoutMs\<close> is a lower bound of what is in the lists, and not 0. Times are
  those of a clock that stays below \<open>2 ^ 62\<close> milliseconds.
\<close>

definition MAX_MS :: u64 where "MAX_MS = 2 ^ 62"

definition expiries :: "handler \<Rightarrow> u64 list" where
  "expiries h = map t_expireMs (mTaskList h) @ map m_expireMs (mMessageList h)"

definition handler_wf :: "handler \<Rightarrow> bool" where
  "handler_wf h \<longleftrightarrow> sorted (map t_expireMs (mTaskList h)) \<and> sorted (map m_expireMs (mMessageList h))
     \<and> (expiries h \<noteq> [] \<longrightarrow> mOneShotTimer h \<noteq> None \<and> mNextTimeoutMs h \<noteq> 0)
     \<and> (\<forall>e \<in> set (expiries h). mNextTimeoutMs h \<le> e \<and> e < MAX_MS)"

subsection \<open>Deleting in place\<close>

lemma swap_down_eq: "k \<le> j \<Longrightarrow> j < length xs \<Longrightarrow>
    swap_down j k xs = take k xs @ xs ! j # take (j - k) (drop k xs) @ drop (Suc j) xs"
proof (induction "j - k" arbitrary: j xs)
  case 0
  then show ?case
    by (subst swap_down.simps) (simp add: id_take_nth_drop [symmetric])
next
  case (Suc n)
  then have j: "k < j" "k \<le> j - 1" "n = j - 1 - k" by auto
  obtain i where i: "j = Suc i" using j by (cases j) auto
  let ?ys = "xs[j := xs ! (j - 1), j - 1 := xs ! j]"
  have "swap_down j k xs = swap_down i k ?ys" using j i by (subst swap_down.simps) simp
  also have "\<dots> = take k ?ys @ ?ys ! i # take (i - k) (drop k ?ys) @ drop (Suc i) ?ys"
    using Suc.hyps(1) [of i ?ys] j i Suc.prems by simp
  also have "\<dots> = take k xs @ xs ! j # take (j - k) (drop k xs) @ drop (Suc j) xs"
  proof -
    have "drop (Suc i) ?ys = xs ! i # drop (Suc j) xs"
      using Cons_nth_drop_Suc [of "Suc i" "xs[Suc i := xs ! i]"] i Suc.prems
      by (simp add: drop_update_cancel)
    moreover have "take (j - k) (drop k xs) = take (i - k) (drop k xs) @ [xs ! i]"
      using i j Suc.prems by (simp add: Suc_diff_le take_Suc_conv_app_nth)
    moreover have "take (i - k) (drop k ?ys) = take (i - k) (drop k xs)"
      using i j by (simp add: drop_update_swap)
    ultimately show ?thesis using i j Suc.prems by simp
  qed
  finally show ?case .
qed

text \<open>
  While the outer loop runs, the list is: \<open>k\<close> moved elements, all to be deleted, the untouched
  first element, the elements that stay, and the rest.
\<close>

lemma move_front_eq:
  assumes "list_all P ds" and "list_all (\<lambda>x. \<not> P x) keep"
  shows "dropWhile P (move_front P (Suc (length ds + length keep)) (length ds) (ds @ x # keep @ rest))
       = filter (\<lambda>x. \<not> P x) (x # keep @ rest)"
  using assms
proof (induction rest arbitrary: ds keep)
  case Nil
  have "dropWhile P (ds @ x # keep) = dropWhile P (x # keep)"
    using Nil.prems(1) by (simp add: dropWhile_append2 list_all_iff)
  moreover have "dropWhile P keep = keep" "filter (\<lambda>x. \<not> P x) keep = keep"
    using Nil.prems(2) by (cases keep; simp add: list_all_iff)+
  ultimately show ?case by (subst move_front.simps) simp
next
  case (Cons r rest)
  let ?l = "ds @ x # keep @ r # rest"
  have r: "?l ! Suc (length ds + length keep) = r" by (simp add: nth_append)
  show ?case
  proof (cases "P r")
    case True
    have "swap_down (Suc (length ds + length keep)) (length ds) ?l = (ds @ [r]) @ x # keep @ rest"
      by (subst swap_down_eq) (simp_all add: r)
    then have "move_front P (Suc (length ds + length keep)) (length ds) ?l
        = move_front P (Suc (length (ds @ [r]) + length keep)) (length (ds @ [r])) ((ds @ [r]) @ x # keep @ rest)"
      using True r by (subst move_front.simps) simp
    with Cons.IH [of "ds @ [r]" keep] Cons.prems True show ?thesis by simp
  next
    case False
    have "move_front P (Suc (length ds + length keep)) (length ds) ?l
        = move_front P (Suc (length ds + length (keep @ [r]))) (length ds) (ds @ x # (keep @ [r]) @ rest)"
      using False r by (subst move_front.simps) simp
    with Cons.IH [of ds "keep @ [r]"] Cons.prems False show ?thesis by simp
  qed
qed

lemma move_front_filter: "dropWhile P (move_front P (Suc 0) 0 xs) = filter (\<lambda>x. \<not> P x) xs"
proof (cases xs)
  case Nil
  then show ?thesis by (subst move_front.simps) simp
next
  case (Cons x rest)
  then show ?thesis using move_front_eq [of P "[]" "[]" x rest] by simp
qed

lemma set_swap_down: "j < length xs \<Longrightarrow> set (swap_down j k xs) = set xs"
proof (induction j k xs rule: swap_down.induct)
  case (1 j k xs)
  show ?case
  proof (cases "j > k")
    case True
    with 1 show ?thesis by (subst swap_down.simps) (simp add: set_swap)
  next
    case False
    then show ?thesis by (subst swap_down.simps) simp
  qed
qed

lemma set_move_front: "set (move_front P i k xs) = set xs"
proof (induction P i k xs rule: move_front.induct)
  case (1 P i k xs)
  then show ?case by (subst move_front.simps) (simp add: set_swap_down)
qed

subsection \<open>The timer\<close>

lemma is_due_iff:
  assumes "now < MAX_MS" "e < MAX_MS"
  shows "is_due now e \<longleftrightarrow> e < now + INTERVAL"
proof -
  have b: "uint now < 4611686018427387904" "uint e < 4611686018427387904"
    using assms by (simp_all add: MAX_MS_def word_less_def)
  have ge: "0 \<le> uint now" "0 \<le> uint e" by simp_all
  have "(uint e - uint now + 9223372036854775808) mod 18446744073709551616 = uint e - uint now + 9223372036854775808"
    using b ge by (intro mod_pos_pos_trivial) linarith+
  then have s: "sint (e - now) = uint e - uint now"
    using int_word_sint [where 'a = 64 and x = "uint e - uint now"] unfolding word_sub_wi by simp
  have "uint (now + INTERVAL) = uint now + 10"
  proof -
    have "uint now + uint INTERVAL < 2 ^ 64" using b by (simp add: INTERVAL_def)
    then show ?thesis using uint_add_lem [of now INTERVAL] by (simp add: INTERVAL_def)
  qed
  moreover have "sint INTERVAL = 10" by (simp add: INTERVAL_def)
  ultimately show ?thesis using s by (auto simp: is_due_def word_less_def)
qed

definition lists_ok :: "handler \<Rightarrow> bool" where
  "lists_ok h \<longleftrightarrow> sorted (map t_expireMs (mTaskList h)) \<and> sorted (map m_expireMs (mMessageList h))
     \<and> (\<forall>e \<in> set (expiries h). e \<noteq> 0 \<and> e < MAX_MS)"

lemma handler_wf_lists: "handler_wf h \<Longrightarrow> lists_ok h"
  by (auto simp: handler_wf_def lists_ok_def)

lemma setup_lists [simp]:
  "mTaskList (setupOneShotTimer h ts p now) = mTaskList h"
  "mMessageList (setupOneShotTimer h ts p now) = mMessageList h"
  by (auto simp: setupOneShotTimer_def Let_def destroyTimer_def)

lemma setup_armed: "mOneShotTimer (setupOneShotTimer h ts p now) \<noteq> None"
  by (auto simp: setupOneShotTimer_def Let_def destroyTimer_def)

lemma update_lists [simp]:
  "mTaskList (updateNextMsAndTimer h now) = mTaskList h"
  "mMessageList (updateNextMsAndTimer h now) = mMessageList h"
  "expiries (updateNextMsAndTimer h now) = expiries h"
  by (auto simp: updateNextMsAndTimer_def Let_def destroyTimer_def expiries_def)

lemma update_nonempty:
  "expiries h \<noteq> [] \<Longrightarrow> updateNextMsAndTimer h now
     = (setupOneShotTimer h (next_ts h) (mNextTimeoutMs h) now)\<lparr>mNextTimeoutMs := next_ts h\<rparr>"
  by (auto simp: updateNextMsAndTimer_def Let_def expiries_def)

lemma update_timer: "expiries h \<noteq> [] \<Longrightarrow> mOneShotTimer (updateNextMsAndTimer h now) \<noteq> None"
  using setup_armed by (simp add: update_nonempty del: not_None_eq)

lemma next_ts_least:
  assumes "lists_ok h" "e \<in> set (expiries h)"
  shows "next_ts h \<le> e \<and> next_ts h \<noteq> 0"
proof -
  obtain ts ms where l: "mTaskList h = ts" "mMessageList h = ms" by blast
  have t: "t_expireMs (hd ts) \<noteq> 0 \<and> (\<forall>x \<in> set ts. t_expireMs (hd ts) \<le> t_expireMs x)" if "ts \<noteq> []"
    using assms(1) that l by (cases ts) (auto simp: lists_ok_def expiries_def)
  have m: "m_expireMs (hd ms) \<noteq> 0 \<and> (\<forall>x \<in> set ms. m_expireMs (hd ms) \<le> m_expireMs x)" if "ms \<noteq> []"
    using assms(1) that l by (cases ms) (auto simp: lists_ok_def expiries_def)
  have e: "e \<in> t_expireMs ` set ts \<union> m_expireMs ` set ms"
    using assms(2) l by (simp add: expiries_def)
  show ?thesis
  proof (cases "ts = []")
    case True
    then show ?thesis using m e l by (auto simp: next_ts_def)
  next
    case nt: False
    show ?thesis
    proof (cases "ms = []")
      case True
      then show ?thesis using nt t e l by (auto simp: next_ts_def)
    next
      case False
      then have "next_ts h = (if t_expireMs (hd ts) < m_expireMs (hd ms) then t_expireMs (hd ts) else m_expireMs (hd ms))"
        using nt t l by (simp add: next_ts_def Let_def)
      then have "next_ts h \<le> t_expireMs (hd ts)" "next_ts h \<le> m_expireMs (hd ms)" "next_ts h \<noteq> 0"
        using t [OF nt] m [OF False] by (auto simp: not_less)
      then show ?thesis using e t [OF nt] m [OF False] by (auto intro: order_trans)
    qed
  qed
qed

lemma update_next:
  "lists_ok h \<Longrightarrow> e \<in> set (expiries h) \<Longrightarrow>
     mNextTimeoutMs (updateNextMsAndTimer h now) \<le> e \<and> mNextTimeoutMs (updateNextMsAndTimer h now) \<noteq> 0"
  using next_ts_least [of h e] by (cases "expiries h = []") (auto simp: update_nonempty)

lemma update_wf: "lists_ok h \<Longrightarrow> handler_wf (updateNextMsAndTimer h now)"
  unfolding handler_wf_def
proof (intro conjI impI ballI)
  assume ok: "lists_ok h"
  then show "sorted (map t_expireMs (mTaskList (updateNextMsAndTimer h now)))"
    "sorted (map m_expireMs (mMessageList (updateNextMsAndTimer h now)))"
    by (simp_all add: lists_ok_def)
  show "mOneShotTimer (updateNextMsAndTimer h now) \<noteq> None" if "expiries (updateNextMsAndTimer h now) \<noteq> []"
    using that update_timer by simp
  show "mNextTimeoutMs (updateNextMsAndTimer h now) \<noteq> 0" if "expiries (updateNextMsAndTimer h now) \<noteq> []"
    using that update_next [OF ok] by (cases "expiries h") auto
  fix e assume "e \<in> set (expiries (updateNextMsAndTimer h now))"
  then show "mNextTimeoutMs (updateNextMsAndTimer h now) \<le> e" "e < MAX_MS"
    using update_next [OF ok, of e now] ok by (auto simp: lists_ok_def)
qed

lemma set_insert_due [simp]: "set (insert_due f x xs) = insert x (set xs)"
  by (induction xs) auto

lemma sorted_insert_due: "sorted (map f xs) \<Longrightarrow> sorted (map f (insert_due f x xs))"
  by (induction xs) (auto simp: not_less intro: order_trans)

lemma remove_first_subset: "set (remove_first P xs) \<subseteq> set xs"
  by (induction xs) auto

lemma sorted_remove_first: "sorted (map f xs) \<Longrightarrow> sorted (map f (remove_first P xs))"
proof (induction xs)
  case (Cons x xs)
  then show ?case using remove_first_subset [of P xs] by auto
qed simp

text \<open>Deleting from the lists keeps the invariant: the timer may fire for nothing, never too late for it.\<close>

lemma shrink_wf:
  assumes "handler_wf h" and "sorted (map t_expireMs ts)" "sorted (map m_expireMs ms)"
    and "set ts \<subseteq> set (mTaskList h)" "set ms \<subseteq> set (mMessageList h)"
  shows "handler_wf (h\<lparr>mTaskList := ts, mMessageList := ms\<rparr>)"
proof -
  have s: "set (expiries (h\<lparr>mTaskList := ts, mMessageList := ms\<rparr>)) \<subseteq> set (expiries h)"
    using assms(4,5) by (auto simp: expiries_def)
  then have "expiries (h\<lparr>mTaskList := ts, mMessageList := ms\<rparr>) \<noteq> [] \<longrightarrow> expiries h \<noteq> []" by auto
  then show ?thesis using assms(1-3) s by (auto simp: handler_wf_def)
qed

text \<open>Times the clock shows: not 0 and below the bound.\<close>

definition clock_ok :: "u64 \<Rightarrow> bool" where
  "clock_ok now \<longleftrightarrow> now \<noteq> 0 \<and> now < MAX_MS"

lemma doPost_wf [wf_intros]:
  assumes "handler_wf h" "now \<noteq> 0" "now < MAX_MS" "ts < MAX_MS"
  shows "handler_wf (snd (doPost h t ts now))"
proof -
  have "(if ts < now then now else ts) \<noteq> 0" "(if ts < now then now else ts) < MAX_MS"
    using assms(2-4) word_gt_0 [of now] by auto
  then show ?thesis
    using handler_wf_lists [OF assms(1)] assms(1)
    by (auto simp: doPost_def Let_def lists_ok_def expiries_def intro!: update_wf sorted_insert_due)
qed

lemma SendMessageAtTime_wf [wf_intros]:
  assumes "handler_wf h" "now \<noteq> 0" "now < MAX_MS" "ts < MAX_MS" "SendMessageAtTime h m ts now = Some (ok, h')"
  shows "handler_wf h'"
proof -
  have "(if ts < now then now else ts) \<noteq> 0" "(if ts < now then now else ts) < MAX_MS"
    using assms(2-4) word_gt_0 [of now] by auto
  then show ?thesis
    using handler_wf_lists [OF assms(1)] assms(1,5)
    by (auto simp: SendMessageAtTime_def Let_def lists_ok_def expiries_def intro!: update_wf sorted_insert_due
        split: if_splits)
qed

lemma remove_wf [wf_intros]:
  assumes "handler_wf h"
  shows "handler_wf (snd (RemoveTask h t))" "handler_wf (snd (RemoveMessage h m))"
    "handler_wf (snd (RemoveMessages h w))" "handler_wf (RemoveAll h)"
proof -
  have s: "sorted (map t_expireMs (mTaskList h))" "sorted (map m_expireMs (mMessageList h))"
    using assms by (simp_all add: handler_wf_def)
  show "handler_wf (snd (RemoveTask h t))"
    using assms s shrink_wf [of h "remove_first (task_eq t) (mTaskList h)" "mMessageList h"]
    by (simp add: RemoveTask_def sorted_remove_first remove_first_subset)
  show "handler_wf (snd (RemoveMessage h m))"
    using assms s shrink_wf [of h "mTaskList h" "remove_first (message_eq m) (mMessageList h)"]
    by (simp add: RemoveMessage_def sorted_remove_first remove_first_subset)
  show "handler_wf (snd (RemoveMessages h w))"
    using assms s shrink_wf [of h "mTaskList h" "filter (\<lambda>m. m_what m \<noteq> w) (mMessageList h)"]
    by (simp add: RemoveMessages_def Let_def move_front_filter sorted_filter)
  show "handler_wf (RemoveAll h)"
    by (simp add: RemoveAll_def destroyTimer_def handler_wf_def expiries_def)
qed

lemma OnTimeout_exact:
  assumes "handler_wf h" and "now < MAX_MS"
  shows "\<exists>h'. OnTimeout h now = Some (filter (\<lambda>t. t_expireMs t < now + INTERVAL) (mTaskList h),
           filter (\<lambda>m. m_expireMs m < now + INTERVAL) (mMessageList h), h') \<and> handler_wf h'
        \<and> mTaskList h' = filter (\<lambda>t. \<not> t_expireMs t < now + INTERVAL) (mTaskList h)
        \<and> mMessageList h' = filter (\<lambda>m. \<not> m_expireMs m < now + INTERVAL) (mMessageList h)"
proof -
  have due: "is_due now e \<longleftrightarrow> e < now + INTERVAL" if "e \<in> set (expiries h)" for e
    using that assms(1,2) by (intro is_due_iff) (auto simp: handler_wf_def)
  then have dt: "filter (\<lambda>t. is_due now (t_expireMs t)) (mTaskList h) = filter (\<lambda>t. t_expireMs t < now + INTERVAL) (mTaskList h)"
      "filter (\<lambda>m. is_due now (m_expireMs m)) (mMessageList h) = filter (\<lambda>m. m_expireMs m < now + INTERVAL) (mMessageList h)"
      "filter (\<lambda>t. \<not> is_due now (t_expireMs t)) (mTaskList h) = filter (\<lambda>t. \<not> t_expireMs t < now + INTERVAL) (mTaskList h)"
      "filter (\<lambda>m. \<not> is_due now (m_expireMs m)) (mMessageList h) = filter (\<lambda>m. \<not> m_expireMs m < now + INTERVAL) (mMessageList h)"
    by (auto simp: expiries_def intro!: filter_cong)
  have early: "filter (\<lambda>t. t_expireMs t < now + INTERVAL) (mTaskList h) = []
      \<and> filter (\<lambda>m. m_expireMs m < now + INTERVAL) (mMessageList h) = []" if "mNextTimeoutMs h > now + INTERVAL"
  proof -
    have "\<not> e < now + INTERVAL" if "e \<in> set (expiries h)" for e
      using assms(1) that \<open>mNextTimeoutMs h > now + INTERVAL\<close> unfolding handler_wf_def
      by (meson leD less_le_trans less_imp_le)
    then show ?thesis by (auto simp: expiries_def filter_empty_conv)
  qed
  have ok: "lists_ok (h\<lparr>mTaskList := filter P (mTaskList h), mMessageList := filter Q (mMessageList h)\<rparr>)" for P Q
    using handler_wf_lists [OF assms(1)] by (auto simp: lists_ok_def expiries_def sorted_filter)
  have up: "handler_wf (updateNextMsAndTimer (h\<lparr>mOneShotTimer := None, mTaskList := filter P (mTaskList h),
      mMessageList := filter Q (mMessageList h)\<rparr>) now)" for P Q
    using ok [where P = P and Q = Q] by (intro update_wf) (simp add: lists_ok_def expiries_def)
  show ?thesis
  proof (cases "expiries h = []")
    case True
    then show ?thesis
      by (auto simp: OnTimeout_def expiries_def destroyTimer_def handler_wf_def)
  next
    case False
    have z: "mNextTimeoutMs h \<noteq> 0" using assms(1) False by (simp add: handler_wf_def)
    show ?thesis
    proof (cases "mNextTimeoutMs h > now + INTERVAL")
      case True
      have "OnTimeout h now = Some ([], [], updateNextMsAndTimer (destroyTimer h) now)"
        using True False by (auto simp: OnTimeout_def expiries_def destroyTimer_def)
      moreover have "handler_wf (updateNextMsAndTimer (destroyTimer h) now)"
        using up [of "\<lambda>_. True" "\<lambda>_. True"] by (simp add: destroyTimer_def)
      moreover note early [OF True]
      ultimately show ?thesis
        by (auto simp: destroyTimer_def filter_empty_conv)
    next
      case late: False
      have "OnTimeout h now = Some (filter (\<lambda>t. t_expireMs t < now + INTERVAL) (mTaskList h),
          filter (\<lambda>m. m_expireMs m < now + INTERVAL) (mMessageList h),
          updateNextMsAndTimer (h\<lparr>mOneShotTimer := None, mTaskList := filter (\<lambda>t. \<not> t_expireMs t < now + INTERVAL) (mTaskList h),
            mMessageList := filter (\<lambda>m. \<not> m_expireMs m < now + INTERVAL) (mMessageList h)\<rparr>) now)"
        using late False z by (auto simp: OnTimeout_def Let_def expiries_def destroyTimer_def dt)
      then show ?thesis using up by simp
    qed
  qed
qed

subsection \<open>Properties\<close>

text \<open>
  C34: \<open>RemoveMessages\<close>, which shuffles the queue in place by swapping neighbours and then pops
  the front, is the obvious filter: it deletes exactly the messages with the given \<open>what\<close>,
  keeps all the others in their order, and reports whether there was one to delete.
\<close>

theorem RemoveMessages_is_filter:
  "mMessageList (snd (RemoveMessages h what)) = filter (\<lambda>m. m_what m \<noteq> what) (mMessageList h)
     \<and> (fst (RemoveMessages h what) \<longleftrightarrow> HasMessages h what)"
proof -
  let ?P = "\<lambda>m. m_what m = what"
  let ?l = "move_front ?P (Suc 0) 0 (mMessageList h)"
  have f: "dropWhile ?P ?l = filter (\<lambda>m. \<not> ?P m) (mMessageList h)" by (rule move_front_filter)
  have "?l \<noteq> [] \<and> ?P (hd ?l) \<longleftrightarrow> list_ex ?P (mMessageList h)"
  proof
    assume "?l \<noteq> [] \<and> ?P (hd ?l)"
    then have "hd ?l \<in> set ?l \<and> ?P (hd ?l)" by simp
    then show "list_ex ?P (mMessageList h)" unfolding list_ex_iff set_move_front by blast
  next
    assume "list_ex ?P (mMessageList h)"
    then have "\<exists>m \<in> set ?l. ?P m" unfolding list_ex_iff set_move_front .
    then have "filter (\<lambda>m. \<not> ?P m) ?l \<noteq> ?l" by (auto simp: filter_id_conv)
    moreover have "dropWhile ?P ?l = ?l" if "?l = [] \<or> \<not> ?P (hd ?l)" using that by (cases ?l) auto
    ultimately show "?l \<noteq> [] \<and> ?P (hd ?l)"
      by (metis f filter_filter [of "\<lambda>m. \<not> ?P m" "\<lambda>m. \<not> ?P m"] conj_absorb)
  qed
  then show ?thesis using f by (simp add: RemoveMessages_def Let_def HasMessages_def)
qed

text \<open>
  C33: Nothing that was posted is forgotten. Whatever sequence of operations is run, the lists
  stay sorted, a timer is armed as long as a task or a message waits, and the time the handler
  believes to be the next one is never later than any of them; so \<open>OnTimeout\<close> never fails its
  assertion, runs exactly what is due within the interval of 10 ms, in order, keeps the rest,
  and arms the timer again if anything is left.
\<close>

theorem handler_never_forgets:
  assumes "handler_wf h" and "now \<noteq> 0" "now < MAX_MS" "ts < MAX_MS"
  shows "handler_wf (snd (doPost h t ts now))
     \<and> (\<forall>ok h'. SendMessageAtTime h m ts now = Some (ok, h') \<longrightarrow> handler_wf h')
     \<and> handler_wf (snd (RemoveTask h t)) \<and> handler_wf (snd (RemoveMessage h m))
     \<and> handler_wf (snd (RemoveMessages h w)) \<and> handler_wf (RemoveAll h)
     \<and> (\<exists>h'. OnTimeout h now = Some (filter (\<lambda>t. t_expireMs t < now + INTERVAL) (mTaskList h),
                                     filter (\<lambda>m. m_expireMs m < now + INTERVAL) (mMessageList h), h')
          \<and> handler_wf h'
          \<and> mTaskList h' = filter (\<lambda>t. \<not> t_expireMs t < now + INTERVAL) (mTaskList h)
          \<and> mMessageList h' = filter (\<lambda>m. \<not> m_expireMs m < now + INTERVAL) (mMessageList h))"
  using assms doPost_wf [OF assms] SendMessageAtTime_wf [OF assms] remove_wf [OF assms(1)]
    OnTimeout_exact [OF assms(1,3)] by blast

theorem handler_never_forgets_witness:
  "let h = snd (doPost (new_handler 1 True) \<lparr>t_mTask = Some 7, t_mKey = 3, t_expireMs = 0\<rparr> 105 100)
   in \<exists>h'. OnTimeout h 100 = Some ([\<lparr>t_mTask = Some 7, t_mKey = 3, t_expireMs = 105\<rparr>], [], h') \<and> handler_wf h'"
proof -
  let ?t = "\<lparr>t_mTask = Some 7, t_mKey = 3, t_expireMs = 0\<rparr>"
  let ?h = "snd (doPost (new_handler 1 True) ?t 105 100)"
  have "handler_wf (new_handler 1 True)" by (simp add: handler_wf_def new_handler_def expiries_def)
  then have wf: "handler_wf ?h" by (rule doPost_wf) (simp_all add: MAX_MS_def)
  have l: "mTaskList ?h = [?t\<lparr>t_expireMs := 105\<rparr>]" "mMessageList ?h = []"
    by (simp_all add: doPost_def new_handler_def)
  have "(100 :: u64) \<noteq> 0" "(100 :: u64) < MAX_MS" by (simp_all add: MAX_MS_def)
  from handler_never_forgets [OF wf this this(2)] obtain h' where
    "OnTimeout ?h 100 = Some (filter (\<lambda>t. t_expireMs t < 100 + INTERVAL) (mTaskList ?h),
       filter (\<lambda>m. m_expireMs m < 100 + INTERVAL) (mMessageList ?h), h')" "handler_wf h'" by blast
  then show ?thesis unfolding Let_def l by (simp add: INTERVAL_def)
qed

text \<open>
  Requests that are each a little earlier than the one before do not move the timer.
  \<open>setupOneShotTimer\<close> keeps the timer when the new time is less than 10 ms before the previous
  request, but compares with the previous request and not with the time the timer is set to.
  So when a message is due within 10 ms before the earliest one, the timer stays where it is
  although the recorded next time moves, and every further such message adds to the delay.
\<close>

theorem timer_not_moved_for_near_request:
  assumes "handler_wf h" "mCallback h" and "mOneShotTimer h = Some due"
    and "mTaskList h = []" and "mMessageList h \<noteq> []"
    and "mNextTimeoutMs h = m_expireMs (hd (mMessageList h))"
    and "now \<noteq> 0" "now \<le> ts" "ts < mNextTimeoutMs h" "mNextTimeoutMs h \<le> ts + INTERVAL"
    and "\<not> list_ex (message_eq (m\<lparr>m_expireMs := ts, m_handler := Some (h_this h)\<rparr>)) (mMessageList h)"
  shows "\<exists>h'. SendMessageAtTime h m ts now = Some (True, h') \<and> mOneShotTimer h' = Some due \<and> mNextTimeoutMs h' = ts"
proof -
  let ?m = "m\<lparr>m_expireMs := ts, m_handler := Some (h_this h)\<rparr>"
  let ?h = "h\<lparr>mMessageList := insert_due m_expireMs ?m (mMessageList h)\<rparr>"
  have "insert_due m_expireMs ?m (mMessageList h) = ?m # mMessageList h"
    using assms(5,6,9) by (cases "mMessageList h") auto
  moreover have "\<not> ts < now" using assms(8) by (simp add: not_less)
  moreover have "\<not> ts + INTERVAL < mNextTimeoutMs h" using assms(10) by (simp add: not_less)
  moreover have "next_ts (h\<lparr>mMessageList := ?m # mMessageList h\<rparr>) = ts"
    using assms(4) by (simp add: next_ts_def)
  ultimately show ?thesis
    using assms(2,3,11)
    by (simp add: SendMessageAtTime_def Let_def updateNextMsAndTimer_def setupOneShotTimer_def)
qed

theorem timer_not_moved_for_near_request_witness:
  "let m = (\<lambda>w. \<lparr>m_what = w, m_arg1 = 0, m_msg = [], m_obj = None, m_handler = Some 1, m_expireMs = 0\<rparr>);
       h = (new_handler 1 True)\<lparr>mMessageList := [(m 1)\<lparr>m_expireMs := 120\<rparr>], mNextTimeoutMs := 120, mOneShotTimer := Some 120\<rparr>
   in \<exists>h'. SendMessageAtTime h (m 2) 110 100 = Some (True, h') \<and> mOneShotTimer h' = Some 120 \<and> mNextTimeoutMs h' = 110"
proof -
  let ?m = "\<lambda>w :: int. \<lparr>m_what = w, m_arg1 = 0, m_msg = [], m_obj = None, m_handler = Some 1, m_expireMs = 0\<rparr>"
  let ?h = "(new_handler 1 True)\<lparr>mMessageList := [(?m 1)\<lparr>m_expireMs := 120\<rparr>], mNextTimeoutMs := 120, mOneShotTimer := Some 120\<rparr>"
  have "handler_wf ?h" by (simp add: handler_wf_def expiries_def new_handler_def MAX_MS_def)
  then show ?thesis
    using timer_not_moved_for_near_request [of ?h 120 100 110 "?m 2"]
    by (simp add: Let_def new_handler_def message_eq_def INTERVAL_def)
qed

end
