(* ===== verification/Net_Conn.thy ===== *)
theory Net_Conn
  imports Conn_Info Server_Net
begin

section \<open>Connections (conn/IConn.cpp, INetConn.cpp, FakeTcp.cpp, FakeUdp.cpp)\<close>

text \<open>
  \<open>IConn\<close> is the base class of everything packets flow through, \<open>INetConn\<close> the network side
  with its two subclasses: \<open>FakeTcp\<close> when \<open>nc_info\<close> is a \<open>TcpInfo\<close>, \<open>FakeUdp\<close> when it is a
  \<open>ConnInfo\<close>. The callbacks of a connection are bound to the group that owns it; the record
  only says whether they are set, and the function they are bound to is an argument. Such a
  callback takes the info the connection attaches and the bytes, and threads a state. A failed
  assertion is \<^const>\<open>None\<close>.
\<close>

subsection \<open>Traffic statistics (IConn::DataStat)\<close>

record data_stat =
  prev_in :: u32
  prev_out :: u32
  curr_in :: u32
  curr_out :: u32
  ds_mAlive :: bool

definition new_stat :: data_stat where
  "new_stat = \<lparr>prev_in = 0, prev_out = 0, curr_in = 0, curr_out = 0, ds_mAlive = True\<rparr>"

definition Stat_Flush :: "data_stat \<Rightarrow> data_stat" where
  "Stat_Flush d = d\<lparr>ds_mAlive := prev_in d \<noteq> curr_in d \<and> prev_out d \<noteq> curr_out d,
     prev_in := curr_in d, prev_out := curr_out d\<rparr>"

definition afterSend :: "int \<Rightarrow> data_stat \<Rightarrow> data_stat" where
  "afterSend nread d = (if nread > 0 then d\<lparr>curr_out := curr_out d + 1\<rparr> else d)"

definition afterInput :: "int \<Rightarrow> data_stat \<Rightarrow> data_stat" where
  "afterInput nread d = (if nread > 0 then d\<lparr>curr_in := curr_in d + 1\<rparr> else d)"

subsection \<open>Network connections\<close>

type_synonym 's conn_cb = "any_info \<Rightarrow> byte list \<Rightarrow> 's \<Rightarrow> int \<times> 's"

record net_conn =
  nc_inited :: bool
  nc_stat :: data_stat
  nc_outputCb :: bool
  nc_onRecvCb :: bool
  nc_printableStr :: string
  nc_intKey :: u64
  nc_new :: bool
  nc_alive :: bool
  nc_errCode :: int
  nc_established :: u64
  nc_info :: any_info
  nc_tcp :: "handle option"

definition ERR_TIMEOUT :: int where "ERR_TIMEOUT = 1"
definition ERR_FIN_RST :: int where "ERR_FIN_RST = 2"
definition HEAD_SIZE :: nat where "HEAD_SIZE = HASH_BUF_SIZE + unat GetMinEncSize"

definition new_net_conn :: "u64 \<Rightarrow> any_info \<Rightarrow> handle option \<Rightarrow> u64 \<Rightarrow> net_conn" where
  "new_net_conn key info tcp now =
     \<lparr>nc_inited = False, nc_stat = new_stat, nc_outputCb = False, nc_onRecvCb = False,
      nc_printableStr = StrForIntKey key, nc_intKey = key, nc_new = True, nc_alive = True, nc_errCode = 0,
      nc_established = now, nc_info = info, nc_tcp = tcp\<rparr>"

definition new_FakeTcp :: "sock_names \<Rightarrow> handle \<Rightarrow> u64 \<Rightarrow> tcp_info \<Rightarrow> u64 \<Rightarrow> net_conn option" where
  "new_FakeTcp names tcp key info now =
     (let (_, anInfo) = GetTcpInfo names new_tcp_info (Some tcp) in
      if TcpEquals anInfo info then Some (new_net_conn key (TcpI info) (Some tcp) now) else None)"

definition new_FakeUdp :: "u64 \<Rightarrow> conn_info \<Rightarrow> u64 \<Rightarrow> net_conn option" where
  "new_FakeUdp key info now =
     (if KeyForUdp info = Some key then Some (new_net_conn key (UdpI info) None now) else None)"

definition INetConn_Init :: "net_conn \<Rightarrow> net_conn option" where
  "INetConn_Init c =
     (if nc_inited c then None
      else Some (c\<lparr>nc_inited := True, nc_printableStr := BuildPrintableStr (nc_info c) (nc_intKey c)\<rparr>))"

text \<open>
  \<open>TcpUtil::SetISN\<close> and \<open>SetAckISN\<close> are given the connection's own info by reference, so the
  second one reads what the first one has just written.
\<close>

definition SetISN :: "tcp_info \<Rightarrow> tcp_info" where
  "SetISN info = UpdateSeq info (ti_ack info + 1)"

definition SetAckISN :: "tcp_info \<Rightarrow> tcp_info" where
  "SetAckISN info = UpdateAck info (ti_seq info + 1)"

definition Conn_Init :: "net_conn \<Rightarrow> net_conn option" where
  "Conn_Init c = do {
     c \<leftarrow> INetConn_Init c;
     case nc_info c of
       UdpI _ \<Rightarrow> Some c
     | TcpI info \<Rightarrow> if nc_tcp c = None then None
                    else Some (c\<lparr>nc_info := TcpI (SetAckISN (SetISN info))\<rparr>) }"

fun set_head :: "enc_head option \<Rightarrow> any_info \<Rightarrow> any_info" where
  "set_head h (UdpI i) = UdpI (i\<lparr>ci_head := h\<rparr>)"
| "set_head h (TcpI i) = TcpI (i\<lparr>ci_head := h\<rparr>)"

definition IConn_Output :: "'s conn_cb \<Rightarrow> net_conn \<Rightarrow> any_info \<Rightarrow> byte list \<Rightarrow> 's \<Rightarrow> (int \<times> 's) option" where
  "IConn_Output out c info b s =
     (if \<not> nc_inited c then None else if nc_outputCb c then Some (out info b s) else Some (0, s))"

text \<open>The head is the caller's and is changed in place: the new value is part of the result.\<close>

definition INetConn_Output ::
  "'s conn_cb \<Rightarrow> net_conn \<Rightarrow> enc_head \<Rightarrow> byte list \<Rightarrow> 's \<Rightarrow> (int \<times> net_conn \<times> enc_head \<times> 's) option" where
  "INetConn_Output out c head b s =
     (let head = head\<lparr>eh_key := nc_intKey c\<rparr>;
          c = c\<lparr>nc_info := set_head (Some head) (nc_info c), nc_new := False\<rparr> in do {
        (n, s) \<leftarrow> IConn_Output out c (nc_info c) b s;
        Some (n, c, head, s) })"

definition Conn_Output ::
  "'s conn_cb \<Rightarrow> net_conn \<Rightarrow> enc_head \<Rightarrow> byte list \<Rightarrow> 's \<Rightarrow> (int \<times> net_conn \<times> enc_head \<times> 's) option" where
  "Conn_Output out c head b s = do {
     (n, c, head, s) \<leftarrow> INetConn_Output out c head b s;
     case nc_info c of
       UdpI _ \<Rightarrow> Some (n, c, head, s)
     | TcpI info \<Rightarrow> Some (n,
         if n \<ge> 0 then c\<lparr>nc_info := TcpI (UpdateSeq info (of_nat (length b) + ti_seq info + of_nat HEAD_SIZE))\<rparr> else c,
         head, s) }"

definition Conn_Send ::
  "'s conn_cb \<Rightarrow> net_conn \<Rightarrow> enc_head \<Rightarrow> byte list \<Rightarrow> 's \<Rightarrow> (int \<times> net_conn \<times> enc_head \<times> 's) option" where
  "Conn_Send out c head b s =
     (if \<not> nc_inited c then None
      else do {
        (n, c, head, s) \<leftarrow> Conn_Output out c head b s;
        Some (n, c\<lparr>nc_stat := afterSend n (nc_stat c)\<rparr>, head, s) })"

definition IConn_OnRecv :: "'s conn_cb \<Rightarrow> net_conn \<Rightarrow> any_info \<Rightarrow> byte list \<Rightarrow> 's \<Rightarrow> (int \<times> 's) option" where
  "IConn_OnRecv recv c info b s =
     (if \<not> nc_inited c then None else if nc_onRecvCb c then Some (recv info b s) else Some (0, s))"

definition INetConn_OnRecv :: "'s conn_cb \<Rightarrow> net_conn \<Rightarrow> any_info \<Rightarrow> byte list \<Rightarrow> 's \<Rightarrow> (int \<times> 's) option" where
  "INetConn_OnRecv recv c info b s =
     (if ci_head (info_base info) = None then None else IConn_OnRecv recv c info b s)"

definition Conn_OnRecv :: "'s conn_cb \<Rightarrow> net_conn \<Rightarrow> any_info \<Rightarrow> byte list \<Rightarrow> 's \<Rightarrow> (int \<times> net_conn \<times> 's) option" where
  "Conn_OnRecv recv c info b s =
     (case nc_info c of
        UdpI _ \<Rightarrow> do { (n, s) \<leftarrow> INetConn_OnRecv recv c info b s; Some (n, c, s) }
      | TcpI mInfo \<Rightarrow> (case info of
            UdpI _ \<Rightarrow> None
          | TcpI i \<Rightarrow> do {
              (n, s) \<leftarrow> INetConn_OnRecv recv c info b s;
              Some (n, if n \<ge> 0 \<and> ti_ack mInfo < ti_seq i then c\<lparr>nc_info := TcpI (UpdateAck mInfo (ti_seq i))\<rparr> else c, s) }))"

definition Conn_Input :: "'s conn_cb \<Rightarrow> net_conn \<Rightarrow> any_info \<Rightarrow> byte list \<Rightarrow> 's \<Rightarrow> (int \<times> net_conn \<times> 's) option" where
  "Conn_Input recv c info b s =
     (if \<not> nc_inited c then None
      else do {
        (n, c, s) \<leftarrow> Conn_OnRecv recv c info b s;
        Some (n, c\<lparr>nc_stat := afterInput n (nc_stat c)\<rparr>, s) })"

definition NotifyErr :: "int \<Rightarrow> net_conn \<Rightarrow> net_conn" where
  "NotifyErr err c = c\<lparr>nc_errCode := err, nc_alive := False\<rparr>"

text \<open>\<open>FakeTcp::read_cb\<close>: an error of the real socket marks the connection dead.\<close>

definition read_cb :: "int \<Rightarrow> net_conn \<Rightarrow> net_conn" where
  "read_cb nread c = (if nread < 0 \<and> nread \<noteq> UV_ECANCELED then NotifyErr ERR_FIN_RST c else c)"

text \<open>\<open>Close\<close>: the second component is the handle given to \<open>uv_close\<close>.\<close>

definition Conn_Close :: "net_conn \<Rightarrow> net_conn \<times> handle option" where
  "Conn_Close c = (c\<lparr>nc_onRecvCb := False, nc_outputCb := False, nc_alive := False, nc_tcp := None\<rparr>, nc_tcp c)"

definition Conn_Alive :: "net_conn \<Rightarrow> bool" where
  "Conn_Alive c \<longleftrightarrow> (case nc_info c of UdpI _ \<Rightarrow> True | TcpI _ \<Rightarrow> nc_alive c)"

definition Conn_Flush :: "net_conn \<Rightarrow> net_conn" where
  "Conn_Flush c = c\<lparr>nc_stat := Stat_Flush (nc_stat c)\<rparr>"

subsection \<open>What the operations keep\<close>

definition conn_same :: "net_conn \<Rightarrow> net_conn \<Rightarrow> bool" where
  "conn_same c c' \<longleftrightarrow> nc_intKey c' = nc_intKey c \<and> nc_inited c' = nc_inited c \<and> nc_tcp c' = nc_tcp c
     \<and> IsUdp (nc_info c') = IsUdp (nc_info c) \<and> nc_outputCb c' = nc_outputCb c \<and> nc_onRecvCb c' = nc_onRecvCb c
     \<and> nc_established c' = nc_established c"

lemma IsUdp_set_head [simp]: "IsUdp (set_head h i) = IsUdp i"
  by (cases i) auto

lemma Conn_Send_ok:
  assumes "nc_inited c"
  shows "\<exists>n c' head' s'. Conn_Send out c head b s = Some (n, c', head', s') \<and> conn_same c c'
     \<and> Conn_Alive c' = Conn_Alive c \<and> \<not> nc_new c' \<and> head' = head\<lparr>eh_key := nc_intKey c\<rparr>"
  using assms
  by (cases "nc_info c")
     (auto simp: Conn_Send_def Conn_Output_def INetConn_Output_def IConn_Output_def Let_def conn_same_def
       Conn_Alive_def UpdateSeq_def case_prod_beta)

lemma Conn_Send_out:
  assumes "nc_inited c" "nc_outputCb c"
  shows "\<exists>c' head' s'. Conn_Send out c head b s = Some (fst (out (set_head (Some (head\<lparr>eh_key := nc_intKey c\<rparr>)) (nc_info c)) b s), c', head', s')
     \<and> s' = snd (out (set_head (Some (head\<lparr>eh_key := nc_intKey c\<rparr>)) (nc_info c)) b s)"
  using assms
  by (cases "nc_info c")
     (auto simp: Conn_Send_def Conn_Output_def INetConn_Output_def IConn_Output_def Let_def case_prod_beta)

lemma Conn_Input_same:
  "Conn_Input recv c info b s = Some (n, c', s') \<Longrightarrow> conn_same c c' \<and> Conn_Alive c' = Conn_Alive c"
  by (cases "nc_info c"; cases info)
     (auto simp: Conn_Input_def Conn_OnRecv_def INetConn_OnRecv_def conn_same_def Conn_Alive_def UpdateAck_def
       split: if_splits Option.bind_splits)

subsection \<open>Properties\<close>



text \<open>
  \<open>FakeTcp::Init\<close> loses the peer's sequence number. The captured info is passed to \<open>SetISN\<close>
  and \<open>SetAckISN\<close> by reference while the first one changes it, so the acknowledgement number
  starts at the captured \<open>ack\<close> plus 2 whatever the captured \<open>seq\<close> was, and not at \<open>seq\<close> plus 1.
\<close>

theorem fake_tcp_init_loses_peer_seq:
  assumes "\<not> nc_inited c" and "nc_tcp c \<noteq> None" and "nc_info c = TcpI i"
  shows "\<exists>c' i'. Conn_Init c = Some c' \<and> nc_info c' = TcpI i' \<and> ti_seq i' = ti_ack i + 1 \<and> ti_ack i' = ti_ack i + 2"
  using assms
  by (auto simp: Conn_Init_def INetConn_Init_def SetAckISN_def SetISN_def UpdateAck_def UpdateSeq_def)

theorem fake_tcp_init_loses_peer_seq_witness:
  "\<exists>c' i'. Conn_Init (new_net_conn 9 (TcpI (new_tcp_info\<lparr>ti_seq := 5000, ti_ack := 70\<rparr>)) (Some 4) 0) = Some c'
     \<and> nc_info c' = TcpI i' \<and> ti_seq i' = 71 \<and> ti_ack i' = 72"
  using fake_tcp_init_loses_peer_seq [of "new_net_conn 9 (TcpI (new_tcp_info\<lparr>ti_seq := 5000, ti_ack := 70\<rparr>)) (Some 4) 0"
      "new_tcp_info\<lparr>ti_seq := 5000, ti_ack := 70\<rparr>"]
  by (simp add: new_net_conn_def)

text \<open>
  \<open>DataStat\<close> needs traffic in both directions. After a \<open>Flush\<close> a connection counts as alive
  exactly when since the previous one there was both a packet sent and a packet received
  (their numbers modulo \<open>2 ^ 32\<close> not being 0); one-way traffic of any volume reports it dead.
\<close>

theorem stat_alive_iff_both:
  "ds_mAlive (Stat_Flush ((afterInput 1 ^^ i) ((afterSend 1 ^^ j) (Stat_Flush d))))
     \<longleftrightarrow> (of_nat i :: u32) \<noteq> 0 \<and> (of_nat j :: u32) \<noteq> 0"
proof -
  have s: "(afterSend 1 ^^ j) d = d\<lparr>curr_out := curr_out d + of_nat j\<rparr>" for d j
    by (induction j) (auto simp: afterSend_def)
  have r: "(afterInput 1 ^^ i) d = d\<lparr>curr_in := curr_in d + of_nat i\<rparr>" for d i
    by (induction i) (auto simp: afterInput_def)
  show ?thesis by (simp add: s r Stat_Flush_def)
qed

end
