(* ===== verification/Net_Group.thy ===== *)
theory Net_Group
  imports Net_Conn Handler
begin

section \<open>Groups of network connections (conn/IGroup.cpp, conn/INetGroup.cpp)\<close>

text \<open>
  A group owns its connections through raw pointers held in two maps, one by the textual key
  and one by the integer key. A dead connection is taken out of both and its pointer is posted
  to the group's handler, which closes and deletes it later. Pointers are addresses into
  \<open>ng_heap\<close>; a deleted object is \<^const>\<open>None\<close> there and using it makes the operation \<^const>\<open>None\<close>,
  as does a failed assertion. \<open>doSend\<close> picks a connection at random until it finds a usable
  one: the random numbers are a list, and \<^const>\<open>None\<close> with a list that is used up means that
  the loop is still running.
\<close>

subsection \<open>Definitions\<close>

definition ERR_NO_CONN :: int where "ERR_NO_CONN = -20"
definition MSG_CONN_ERR :: int where "MSG_CONN_ERR = 0"

record net_group =
  ng_key :: string
  ng_stat :: data_stat
  ng_mConns :: "(string, nat) smap"
  ng_mConnMap :: "(u64, nat) smap"
  ng_mHandler :: handler
  ng_errHandler :: bool
  ng_heap :: "nat \<Rightarrow> net_conn option"
  ng_closed :: "handle list"

definition new_net_group :: "string \<Rightarrow> handler \<Rightarrow> net_group" where
  "new_net_group groupId h = \<lparr>ng_key = groupId, ng_stat = new_stat, ng_mConns = [], ng_mConnMap = [],
     ng_mHandler = h, ng_errHandler = False, ng_heap = (\<lambda>_. None), ng_closed = []\<rparr>"

definition set_conn :: "nat \<Rightarrow> net_conn \<Rightarrow> net_group \<Rightarrow> net_group" where
  "set_conn a c g = g\<lparr>ng_heap := (ng_heap g)(a := Some c)\<rparr>"

definition SetNetConnErrorHandler :: "net_group \<Rightarrow> bool \<Rightarrow> net_group" where
  "SetNetConnErrorHandler g e = g\<lparr>ng_errHandler := e\<rparr>"

definition Group_Size :: "net_group \<Rightarrow> nat" where
  "Group_Size g = length (ng_mConns g)"

definition ConnOfKey :: "net_group \<Rightarrow> string \<Rightarrow> nat option" where
  "ConnOfKey g key = map_option snd (map_find (<) key (ng_mConns g))"

definition ConnOfIntKey :: "net_group \<Rightarrow> u64 \<Rightarrow> nat option option" where
  "ConnOfIntKey g key =
     (if length (ng_mConnMap g) \<noteq> Group_Size g then None
      else Some (map_option snd (map_find (<) key (ng_mConnMap g))))"

definition IGroup_AddConn :: "nat \<Rightarrow> net_group \<Rightarrow> net_group option" where
  "IGroup_AddConn a g = do {
     c \<leftarrow> ng_heap g a;
     Some (set_conn a (c\<lparr>nc_outputCb := True, nc_onRecvCb := True\<rparr>)
       (g\<lparr>ng_mConns := map_emplace (<) (StrForIntKey (nc_intKey c)) a (ng_mConns g)\<rparr>)) }"

definition AddNetConn :: "nat \<Rightarrow> net_group \<Rightarrow> net_group option" where
  "AddNetConn a g = do {
     g \<leftarrow> IGroup_AddConn a g;
     c \<leftarrow> ng_heap g a;
     let g = g\<lparr>ng_mConnMap := map_emplace (<) (nc_intKey c) a (ng_mConnMap g)\<rparr>;
     if length (ng_mConnMap g) = Group_Size g then Some g else None }"

definition IGroup_RemoveConn :: "nat \<Rightarrow> net_group \<Rightarrow> (bool \<times> net_group) option" where
  "IGroup_RemoveConn a g = do {
     c \<leftarrow> ng_heap g a;
     let key = StrForIntKey (nc_intKey c);
     Some (map_has (<) key (ng_mConns g),
       set_conn a (c\<lparr>nc_onRecvCb := False, nc_outputCb := False\<rparr>)
         (g\<lparr>ng_mConns := map_erase (<) key (ng_mConns g)\<rparr>)) }"

definition Net_RemoveConn :: "nat \<Rightarrow> net_group \<Rightarrow> (bool \<times> net_group) option" where
  "Net_RemoveConn a g = do {
     (ok, g) \<leftarrow> IGroup_RemoveConn a g;
     c \<leftarrow> ng_heap g a;
     let ok2 = map_has (<) (nc_intKey c) (ng_mConnMap g);
     let g = g\<lparr>ng_mConnMap := map_erase (<) (nc_intKey c) (ng_mConnMap g)\<rparr>;
     if ok = ok2 \<and> length (ng_mConnMap g) = Group_Size g then Some (ok, g) else None }"

definition childConnErrCb :: "u64 \<Rightarrow> nat \<Rightarrow> net_group \<Rightarrow> net_group option" where
  "childConnErrCb now a g = do {
     (_, g) \<leftarrow> Net_RemoveConn a g;
     let m = ObtainMessage (ng_mHandler g) MSG_CONN_ERR 0 [] (Some a);
     let h = snd (RemoveMessage (ng_mHandler g) m);
     (_, h) \<leftarrow> SendToTarget h m now;
     Some (g\<lparr>ng_mHandler := h\<rparr>) }"

text \<open>\<open>handleMessage\<close> closes and deletes the connection; the info of a connection that is
  reported to the error handler is the first component.\<close>

definition handleMessage :: "message \<Rightarrow> net_group \<Rightarrow> (any_info option \<times> net_group) option" where
  "handleMessage m g =
     (if m_what m = MSG_CONN_ERR then do {
        a \<leftarrow> m_obj m;
        c \<leftarrow> ng_heap g a;
        let (_, tcp) = Conn_Close c;
        Some (if ng_errHandler g then Some (nc_info c) else None,
          g\<lparr>ng_heap := (ng_heap g)(a := None), ng_closed := ng_closed g @ (case tcp of None \<Rightarrow> [] | Some h \<Rightarrow> [h])\<rparr>) }
      else Some (None, g))"

fun send_loop :: "nat list \<Rightarrow> u64 \<Rightarrow> u64 \<Rightarrow> 's conn_cb \<Rightarrow> byte list \<Rightarrow> enc_head \<Rightarrow> net_group \<Rightarrow> 's
    \<Rightarrow> (int \<times> net_group \<times> enc_head \<times> 's) option" where
  "send_loop rs keyOfConnToReset now out b head g s =
     (if ng_mConns g = [] then Some (ERR_NO_CONN, g, head, s)
      else (case rs of
          [] \<Rightarrow> None
        | r # rs \<Rightarrow> (let a = snd (ng_mConns g ! (r mod length (ng_mConns g))) in do {
            c \<leftarrow> ng_heap g a;
            if Conn_Alive c then
              if keyOfConnToReset \<noteq> 0 \<and> nc_intKey c = keyOfConnToReset
              then send_loop rs keyOfConnToReset now out b head g s
              else do {
                (n, c, head, s) \<leftarrow> Conn_Send out c head b s;
                Some (n, (set_conn a c g)\<lparr>ng_stat := afterSend n (ng_stat g)\<rparr>, head, s) }
            else do {
              g \<leftarrow> childConnErrCb now a g;
              send_loop rs keyOfConnToReset now out b head g s } })))"

declare send_loop.simps [simp del]

definition doSend :: "nat list \<Rightarrow> u64 \<Rightarrow> u64 \<Rightarrow> 's conn_cb \<Rightarrow> byte list \<Rightarrow> enc_head \<Rightarrow> net_group \<Rightarrow> 's
    \<Rightarrow> (int \<times> net_group \<times> enc_head \<times> 's) option" where
  "doSend rs keyOfConnToReset now out b head g s =
     (if b \<noteq> [] then send_loop rs keyOfConnToReset now out b head g s else Some (0, g, head, s))"

definition Net_Send :: "nat list \<Rightarrow> u64 \<Rightarrow> 's conn_cb \<Rightarrow> byte list \<Rightarrow> enc_head \<Rightarrow> net_group \<Rightarrow> 's
    \<Rightarrow> (int \<times> net_group \<times> enc_head \<times> 's) option" where
  "Net_Send rs now out b head g s = doSend rs 0 now out b head g s"

definition Net_SendNetConnReset :: "nat list \<Rightarrow> u64 \<Rightarrow> 's conn_cb \<Rightarrow> byte list \<Rightarrow> enc_head \<Rightarrow> u64 \<Rightarrow> net_group \<Rightarrow> 's
    \<Rightarrow> (int \<times> net_group \<times> enc_head \<times> 's) option" where
  "Net_SendNetConnReset rs now out b head key g s = doSend rs key now out b head g s"

text \<open>
  \<open>CreateNetConn\<close> is virtual: an argument that gives the new object and its address. The
  default connection only hands the packet to the group's own callback.
\<close>

definition Net_Input :: "(u64 \<Rightarrow> any_info \<Rightarrow> (nat \<times> net_conn) option) \<Rightarrow> 's conn_cb \<Rightarrow> any_info \<Rightarrow> byte list \<Rightarrow> net_group \<Rightarrow> 's
    \<Rightarrow> (int \<times> net_group \<times> 's) option" where
  "Net_Input create recv info b g s =
     (if b = [] then Some (0, g, s)
      else do {
        head \<leftarrow> ci_head (info_base info);
        let key = eh_key head;
        conn \<leftarrow> ConnOfIntKey g key;
        (conn, g) \<leftarrow> (case conn of
            Some a \<Rightarrow> Some (Some a, g)
          | None \<Rightarrow> (case create key info of
                Some (a, c) \<Rightarrow> do { g \<leftarrow> AddNetConn a (set_conn a c g); Some (Some a, g) }
              | None \<Rightarrow> Some (None, g)));
        case conn of
          Some a \<Rightarrow> do {
            c \<leftarrow> ng_heap g a;
            (n, c, s) \<leftarrow> Conn_Input recv c info b s;
            Some (n, (set_conn a c g)\<lparr>ng_stat := afterInput n (ng_stat g)\<rparr>, s) }
        | None \<Rightarrow> Some (ERR_NO_CONN, g, snd (recv info b s)) })"

definition alive_at :: "net_group \<Rightarrow> nat \<Rightarrow> bool" where
  "alive_at g a \<longleftrightarrow> (case ng_heap g a of None \<Rightarrow> False | Some c \<Rightarrow> Conn_Alive c)"

primrec kill_all :: "u64 \<Rightarrow> nat list \<Rightarrow> net_group \<Rightarrow> net_group option" where
  "kill_all now [] g = Some g"
| "kill_all now (a # as) g = do { g \<leftarrow> childConnErrCb now a g; kill_all now as g }"

primrec flush_conns :: "nat list \<Rightarrow> net_group \<Rightarrow> net_group option" where
  "flush_conns [] g = Some g"
| "flush_conns (a # as) g = do { c \<leftarrow> ng_heap g a; flush_conns as (set_conn a (Conn_Flush c) g) }"

definition Group_Flush :: "u64 \<Rightarrow> net_group \<Rightarrow> net_group option" where
  "Group_Flush now g = do {
     let fails = filter (\<lambda>a. \<not> alive_at g a) (map snd (ng_mConns g));
     g \<leftarrow> kill_all now fails g;
     flush_conns (map snd (ng_mConns g)) g }"

definition Group_Alive :: "net_group \<Rightarrow> bool" where
  "Group_Alive g \<longleftrightarrow> list_ex (alive_at g \<circ> snd) (ng_mConns g)"

subsection \<open>The invariant\<close>

text \<open>
  Both maps hold the same pointers under matching keys, every pointer in them is a live object
  that has its callbacks set, and the pointers waiting to be deleted are live objects too,
  none of them twice and none of them still in the group.
\<close>

definition pending_dead :: "net_group \<Rightarrow> nat list" where
  "pending_dead g = map (the \<circ> m_obj) (mMessageList (ng_mHandler g))"

definition net_wf :: "net_group \<Rightarrow> bool" where
  "net_wf g \<longleftrightarrow> map_wf (<) (ng_mConns g) \<and> map_wf (<) (ng_mConnMap g)
     \<and> set (ng_mConns g) = (\<lambda>(k, a). (StrForIntKey k, a)) ` set (ng_mConnMap g)
     \<and> (\<forall>(k, a) \<in> set (ng_mConnMap g). \<exists>c. ng_heap g a = Some c \<and> nc_intKey c = k \<and> nc_inited c \<and> nc_outputCb c)
     \<and> mCallback (ng_mHandler g) \<and> handler_wf (ng_mHandler g)
     \<and> (\<forall>m \<in> set (mMessageList (ng_mHandler g)). m_what m = MSG_CONN_ERR \<and> m_obj m \<noteq> None)
     \<and> distinct (pending_dead g) \<and> (\<forall>a \<in> set (pending_dead g). ng_heap g a \<noteq> None)
     \<and> set (pending_dead g) \<inter> snd ` set (ng_mConnMap g) = {}"

lemma net_wf_conn:
  assumes "net_wf g" "(k, a) \<in> set (ng_mConnMap g)"
  obtains c where "ng_heap g a = Some c" "nc_intKey c = k" "nc_inited c" "nc_outputCb c"
    "(StrForIntKey k, a) \<in> set (ng_mConns g)"
  using assms unfolding net_wf_def by force

lemma net_wf_member:
  assumes "net_wf g" "(x, a) \<in> set (ng_mConns g)"
  obtains k where "x = StrForIntKey k" "(k, a) \<in> set (ng_mConnMap g)"
  using assms by (auto simp: net_wf_def)

lemma net_wf_disjoint:
  assumes "net_wf g" "(k, a) \<in> set (ng_mConnMap g)"
  shows "a \<notin> set (pending_dead g)"
proof -
  have "set (pending_dead g) \<inter> snd ` set (ng_mConnMap g) = {}" using assms(1) by (simp add: net_wf_def)
  moreover have "a \<in> snd ` set (ng_mConnMap g)" using assms(2) by force
  ultimately show ?thesis by blast
qed

lemma maps_same_length:
  assumes "map_wf (<) m" "map_wf (<) n" and "set m = (\<lambda>(k, a). (StrForIntKey k, a)) ` set n"
  shows "length n = length (m :: (string, nat) smap)"
proof -
  have "length m = card (set m)" "length n = card (set n)"
    using std_less.wf_distinct [OF assms(1)] std_less.wf_distinct [OF assms(2)]
    by (simp_all add: distinct_card distinct_map)
  moreover have "inj_on (\<lambda>(k, a). (StrForIntKey k, a)) (set n)" by (auto simp: inj_on_def)
  ultimately show ?thesis using assms(3) by (simp add: card_image)
qed

lemma net_wf_length: "net_wf g \<Longrightarrow> length (ng_mConnMap g) = Group_Size g"
  using maps_same_length by (auto simp: net_wf_def Group_Size_def)

text \<open>Taking a connection out of the group touches only its own entries.\<close>

lemma Net_RemoveConn_ok:
  assumes wf: "net_wf g" and ka: "(k, a) \<in> set (ng_mConnMap g)" and c: "ng_heap g a = Some c"
  shows "Net_RemoveConn a g = Some (True,
     (set_conn a (c\<lparr>nc_onRecvCb := False, nc_outputCb := False\<rparr>) g)
       \<lparr>ng_mConns := map_erase (<) (StrForIntKey k) (ng_mConns g), ng_mConnMap := map_erase (<) k (ng_mConnMap g)\<rparr>)"
proof -
  obtain c' where c': "ng_heap g a = Some c'" "nc_intKey c' = k" "(StrForIntKey k, a) \<in> set (ng_mConns g)"
    using net_wf_conn [OF wf ka] by blast
  have has: "map_has (<) (StrForIntKey k) (ng_mConns g)" "map_has (<) k (ng_mConnMap g)"
    using c'(3) ka by (force simp: map_has_def std_less.find_map_of map_of_eq_None_iff)+
  have "set (map_erase (<) (StrForIntKey k) (ng_mConns g)) = (\<lambda>(k, a). (StrForIntKey k, a)) ` set (map_erase (<) k (ng_mConnMap g))"
    using wf by (auto simp: net_wf_def set_map_erase)
  then have "length (map_erase (<) k (ng_mConnMap g)) = length (map_erase (<) (StrForIntKey k) (ng_mConns g))"
    using wf by (intro maps_same_length) (auto simp: net_wf_def intro: map_wf_erase)
  then show ?thesis
    using c c' has by (simp add: Net_RemoveConn_def IGroup_RemoveConn_def set_conn_def Group_Size_def Let_def)
qed

lemma mset_insert_due: "mset (insert_due f x xs) = add_mset x (mset xs)"
  by (induction xs) auto

lemma distinct_insert_due: "distinct (map f (insert_due e x xs)) \<longleftrightarrow> f x \<notin> f ` set xs \<and> distinct (map f xs)"
proof -
  have "mset (map f (insert_due e x xs)) = mset (map f (x # xs))" by (simp add: mset_insert_due)
  then have "distinct (map f (insert_due e x xs)) = distinct (map f (x # xs))" by (rule mset_eq_imp_distinct_iff)
  then show ?thesis by simp
qed

lemma post_dead:
  assumes wf: "net_wf g" and now: "clock_ok now" and fresh: "a \<notin> set (pending_dead g)"
  defines "m \<equiv> ObtainMessage (ng_mHandler g) MSG_CONN_ERR 0 [] (Some a)"
  shows "\<exists>h. SendToTarget (snd (RemoveMessage (ng_mHandler g) m)) m now = Some (True, h) \<and> mCallback h \<and> handler_wf h
     \<and> set (mMessageList h) = insert (m\<lparr>m_expireMs := now\<rparr>) (set (mMessageList (ng_mHandler g)))
     \<and> distinct (map (the \<circ> m_obj) (mMessageList h))"
proof -
  let ?l = "mMessageList (ng_mHandler g)"
  have ne: "\<not> list_ex (message_eq n) ?l" if "m_obj n = Some a" for n
    using fresh that by (force simp: list_ex_iff message_eq_def pending_dead_def)
  then have "snd (RemoveMessage (ng_mHandler g) m) = ng_mHandler g"
    by (simp add: RemoveMessage_def m_def ObtainMessage_def)
  moreover have "SendToTarget (ng_mHandler g) m now = Some (True, updateNextMsAndTimer
      ((ng_mHandler g)\<lparr>mMessageList := insert_due m_expireMs (m\<lparr>m_expireMs := now\<rparr>) ?l\<rparr>) now)"
    using ne wf by (simp add: SendToTarget_def SendMessage_def SendMessageAtTime_def net_wf_def m_def ObtainMessage_def)
  moreover have "mCallback (updateNextMsAndTimer h n) = mCallback h" for h n
    by (auto simp: updateNextMsAndTimer_def destroyTimer_def setupOneShotTimer_def Let_def)
  moreover have "a \<notin> (the \<circ> m_obj) ` set ?l" "distinct (map (the \<circ> m_obj) ?l)"
    using fresh wf by (auto simp: pending_dead_def net_wf_def)
  then have "distinct (map (the \<circ> m_obj) (insert_due m_expireMs (m\<lparr>m_expireMs := now\<rparr>) ?l))"
    unfolding distinct_insert_due by (simp add: m_def ObtainMessage_def)
  moreover have "handler_wf h" if "SendToTarget (ng_mHandler g) m now = Some (True, h)" for h
    using that wf now SendMessageAtTime_wf [of "ng_mHandler g" now now m True h]
    by (simp add: SendToTarget_def SendMessage_def net_wf_def clock_ok_def split: if_splits)
  ultimately show ?thesis using wf by (simp add: net_wf_def)
qed

lemma childConnErrCb_ok:
  assumes wf: "net_wf g" and now: "clock_ok now" and ka: "(k, a) \<in> set (ng_mConnMap g)"
  shows "\<exists>g'. childConnErrCb now a g = Some g' \<and> net_wf g'
     \<and> ng_mConns g' = map_erase (<) (StrForIntKey k) (ng_mConns g)
     \<and> ng_mConnMap g' = map_erase (<) k (ng_mConnMap g)
     \<and> (\<forall>b. b \<noteq> a \<longrightarrow> ng_heap g' b = ng_heap g b)
     \<and> set (pending_dead g') = insert a (set (pending_dead g))
     \<and> ng_closed g' = ng_closed g"
proof -
  obtain c where c: "ng_heap g a = Some c" "nc_intKey c = k" using net_wf_conn [OF wf ka] by blast
  let ?g = "(set_conn a (c\<lparr>nc_onRecvCb := False, nc_outputCb := False\<rparr>) g)
       \<lparr>ng_mConns := map_erase (<) (StrForIntKey k) (ng_mConns g), ng_mConnMap := map_erase (<) k (ng_mConnMap g)\<rparr>"
  let ?m = "ObtainMessage (ng_mHandler g) MSG_CONN_ERR 0 [] (Some a)"
  have fresh: "a \<notin> set (pending_dead g)" by (rule net_wf_disjoint [OF wf ka])
  obtain h where h: "SendToTarget (snd (RemoveMessage (ng_mHandler g) ?m)) ?m now = Some (True, h)" "mCallback h \<and> handler_wf h"
     "set (mMessageList h) = insert (?m\<lparr>m_expireMs := now\<rparr>) (set (mMessageList (ng_mHandler g)))"
     "distinct (map (the \<circ> m_obj) (mMessageList h))"
    using post_dead [OF wf now fresh] by blast
  let ?g' = "?g\<lparr>ng_mHandler := h\<rparr>"
  have run: "childConnErrCb now a g = Some ?g'"
    using Net_RemoveConn_ok [OF wf ka c(1)] h(1) by (simp add: childConnErrCb_def set_conn_def)
  have pd: "set (pending_dead ?g') = insert a (set (pending_dead g))"
    using h(3) by (simp add: pending_dead_def ObtainMessage_def)
  have conns: "set (map_erase (<) (StrForIntKey k) (ng_mConns g)) = (\<lambda>(k, a). (StrForIntKey k, a)) ` set (map_erase (<) k (ng_mConnMap g))"
    using wf by (auto simp: net_wf_def set_map_erase)
  have other: "b \<noteq> a" if "(j, b) \<in> set (map_erase (<) k (ng_mConnMap g))" for j b
  proof
    assume "b = a"
    with that have "(j, a) \<in> set (ng_mConnMap g)" "j \<noteq> k" by (auto simp: set_map_erase)
    with net_wf_conn [OF wf this(1)] c show False by (metis option.inject)
  qed
  have msgs: "m_what x = MSG_CONN_ERR \<and> m_obj x \<noteq> None" if "x \<in> set (mMessageList h)" for x
    using that h(3) wf by (auto simp: net_wf_def ObtainMessage_def)
  have "net_wf ?g'"
    unfolding net_wf_def
  proof (intro conjI)
    show "\<forall>(j, b)\<in>set (ng_mConnMap ?g'). \<exists>c. ng_heap ?g' b = Some c \<and> nc_intKey c = j \<and> nc_inited c \<and> nc_outputCb c"
      using wf other by (fastforce simp: net_wf_def set_conn_def set_map_erase)
    show "\<forall>b\<in>set (pending_dead ?g'). ng_heap ?g' b \<noteq> None"
      using wf unfolding pd by (auto simp: net_wf_def set_conn_def)
    show "set (pending_dead ?g') \<inter> snd ` set (ng_mConnMap ?g') = {}"
    proof -
      have "b \<notin> set (pending_dead ?g')" if b: "(j, b) \<in> set (map_erase (<) k (ng_mConnMap g))" for j b
      proof -
        have "(j, b) \<in> set (ng_mConnMap g)" using b by (simp add: set_map_erase)
        then show ?thesis using net_wf_disjoint [OF wf] other [OF b] unfolding pd by blast
      qed
      then show ?thesis by auto
    qed
    show "distinct (pending_dead ?g')" using h(4) by (simp add: pending_dead_def)
  qed (use wf h(2) msgs conns in \<open>auto simp: net_wf_def intro: map_wf_erase\<close>)
  moreover have "\<forall>b. b \<noteq> a \<longrightarrow> ng_heap ?g' b = ng_heap g b" "ng_closed ?g' = ng_closed g"
    by (simp_all add: set_conn_def)
  ultimately show ?thesis using run pd by (intro exI [of _ ?g']) (simp add: set_conn_def)
qed

lemma set_conn_wf:
  assumes "net_wf g" "ng_heap g a = Some c" and "conn_same c c'"
  shows "net_wf (set_conn a c' g)"
  using assms by (fastforce simp: net_wf_def set_conn_def pending_dead_def conn_same_def)

lemma kill_step:
  assumes wf: "net_wf g" and now: "clock_ok now" and xa: "(x, a) \<in> set (ng_mConns g)"
  shows "\<exists>g'. childConnErrCb now a g = Some g' \<and> net_wf g'
     \<and> length (ng_mConns g) = Suc (length (ng_mConns g'))
     \<and> set (ng_mConns g') = {e \<in> set (ng_mConns g). snd e \<noteq> a}
     \<and> set (ng_mConnMap g') \<subseteq> set (ng_mConnMap g)
     \<and> (\<forall>b. b \<noteq> a \<longrightarrow> ng_heap g' b = ng_heap g b)
     \<and> set (pending_dead g') = insert a (set (pending_dead g))
     \<and> ng_closed g' = ng_closed g"
proof -
  obtain k where k: "x = StrForIntKey k" "(k, a) \<in> set (ng_mConnMap g)" using net_wf_member [OF wf xa] .
  have wm: "map_wf (<) (ng_mConns g)" using wf by (simp add: net_wf_def)
  have same: "snd e \<noteq> a \<longleftrightarrow> fst e \<noteq> x" if e: "e \<in> set (ng_mConns g)" for e
  proof
    assume "fst e \<noteq> x"
    obtain j where j: "fst e = StrForIntKey j" "(j, snd e) \<in> set (ng_mConnMap g)"
      using net_wf_member [OF wf, of "fst e" "snd e"] e by auto
    obtain c where c: "ng_heap g a = Some c" "nc_intKey c = k" using net_wf_conn [OF wf k(2)] by blast
    obtain d where d: "ng_heap g (snd e) = Some d" "nc_intKey d = j" using net_wf_conn [OF wf j(2)] by blast
    show "snd e \<noteq> a" using c d j(1) k(1) \<open>fst e \<noteq> x\<close> by auto
  next
    assume "snd e \<noteq> a"
    then show "fst e \<noteq> x"
      using eq_key_imp_eq_value [OF std_less.wf_distinct [OF wm], of x a "snd e"] xa e by (metis prod.collapse)
  qed
  have "length (ng_mConns g) = Suc (length (map_erase (<) x (ng_mConns g)))"
    using std_less.length_erase [OF wm, of x] xa std_less.find_member [OF wm xa]
    by (cases "ng_mConns g") auto
  moreover have "set (map_erase (<) x (ng_mConns g)) = {e \<in> set (ng_mConns g). snd e \<noteq> a}"
    using same by (auto simp: set_map_erase)
  ultimately show ?thesis
    using childConnErrCb_ok [OF wf now k(2)] k(1) by (auto simp: set_map_erase)
qed

text \<open>The picked element is one of the group, with a live object behind it.\<close>

lemma net_wf_pick:
  assumes "net_wf g" "ng_mConns g \<noteq> []"
  obtains x a c where "ng_mConns g ! (r mod length (ng_mConns g)) = (x, a)" "(x, a) \<in> set (ng_mConns g)"
    "ng_heap g a = Some c" "nc_inited c" "nc_outputCb c" "(nc_intKey c, a) \<in> set (ng_mConnMap g)"
proof -
  let ?e = "ng_mConns g ! (r mod length (ng_mConns g))"
  have m: "?e \<in> set (ng_mConns g)" using assms(2) by (simp add: nth_mem)
  obtain x a where e: "?e = (x, a)" by fastforce
  obtain k where k: "(k, a) \<in> set (ng_mConnMap g)" using net_wf_member [OF assms(1)] m e by metis
  obtain c where "ng_heap g a = Some c" "nc_intKey c = k" "nc_inited c" "nc_outputCb c"
    using net_wf_conn [OF assms(1) k] .
  then show ?thesis using that [OF e] m e k by simp
qed

text \<open>
  What a call of \<open>Send\<close> comes to: a live connection carries the packet if there is one; otherwise the answer is
  \<open>ERR_NO_CONN\<close> and every connection waits for its removal.
\<close>

definition send_result :: "'s conn_cb \<Rightarrow> byte list \<Rightarrow> enc_head \<Rightarrow> 's \<Rightarrow> net_group \<Rightarrow> int \<Rightarrow> net_group \<Rightarrow> 's \<Rightarrow> bool" where
  "send_result out b head s g n g' s' \<longleftrightarrow>
     (if Group_Alive g
      then \<exists>a c. a \<in> snd ` set (ng_mConns g) \<and> ng_heap g a = Some c \<and> Conn_Alive c
             \<and> out (set_head (Some (head\<lparr>eh_key := nc_intKey c\<rparr>)) (nc_info c)) b s = (n, s')
      else n = ERR_NO_CONN \<and> s' = s \<and> ng_mConns g' = [] \<and> snd ` set (ng_mConns g) \<subseteq> set (pending_dead g'))"

text \<open>A turn that picks a live connection.\<close>

lemma send_turn_alive:
  assumes wf: "net_wf g" and a: "(x, a) \<in> set (ng_mConns g)" and c: "ng_heap g a = Some c" "nc_inited c" "nc_outputCb c" "Conn_Alive c"
  shows "\<exists>n c' head' s'. Conn_Send out c head b s = Some (n, c', head', s') \<and> (let g' = (set_conn a c' g)\<lparr>ng_stat := afterSend n (ng_stat g)\<rparr> in
    net_wf g' \<and> pending_dead g' = pending_dead g \<and> send_result out b head s g n g' s')"
proof -
  let ?o = "out (set_head (Some (head\<lparr>eh_key := nc_intKey c\<rparr>)) (nc_info c)) b s"
  obtain c' head' s' where snd: "Conn_Send out c head b s = Some (fst ?o, c', head', s')" "s' = snd ?o"
    using Conn_Send_out [OF c(2,3), of out head b s] by (elim exE conjE) rule
  have same: "conn_same c c'" using Conn_Send_ok [OF c(2), of out head b s] snd by auto
  have "net_wf ((set_conn a c' g)\<lparr>ng_stat := st\<rparr>) \<and> pending_dead ((set_conn a c' g)\<lparr>ng_stat := st\<rparr>) = pending_dead g" for st
    using set_conn_wf [OF wf c(1) same] by (simp add: net_wf_def pending_dead_def set_conn_def)
  moreover have "Group_Alive g" "a \<in> snd ` set (ng_mConns g)"
    using a c(1,4) by (force simp: Group_Alive_def list_ex_iff alive_at_def)+
  moreover have "?o = (fst ?o, s')" using snd(2) by simp
  ultimately show ?thesis using snd(1) c(1,4) by (auto simp: send_result_def Let_def)
qed

text \<open>A turn that removes a dead connection leaves the result to the rest.\<close>

lemma send_turn_dead:
  assumes dead: "ng_heap g a = Some c" "\<not> Conn_Alive c" and set1: "set (ng_mConns g1) = {e \<in> set (ng_mConns g). snd e \<noteq> a}"
    and heap1: "\<forall>b. b \<noteq> a \<longrightarrow> ng_heap g1 b = ng_heap g b" and pend: "a \<in> set (pending_dead g')"
    and rest: "send_result out b head s g1 n g' s'"
  shows "send_result out b head s g n g' s'"
proof -
  have "\<not> alive_at g a" "\<And>b. b \<noteq> a \<Longrightarrow> alive_at g1 b = alive_at g b" using dead heap1 by (simp_all add: alive_at_def)
  then have al: "Group_Alive g1 = Group_Alive g"
    unfolding Group_Alive_def list_ex_iff comp_def set1 by (metis (mono_tags, lifting) mem_Collect_eq)
  have sub: "e \<in> snd ` set (ng_mConns g) \<and> ng_heap g1 e = ng_heap g e" if "e \<in> snd ` set (ng_mConns g1)" for e
    using that set1 heap1 by auto
  show ?thesis
  proof (cases "Group_Alive g")
    case True
    with rest al obtain d e where d: "d \<in> snd ` set (ng_mConns g1)" "ng_heap g1 d = Some e" "Conn_Alive e"
      "out (set_head (Some (head\<lparr>eh_key := nc_intKey e\<rparr>)) (nc_info e)) b s = (n, s')" by (auto simp: send_result_def)
    then have "d \<in> snd ` set (ng_mConns g)" "ng_heap g d = Some e" using sub [OF d(1)] by simp_all
    with d show ?thesis unfolding send_result_def if_P [OF True] by blast
  next
    case False
    have "snd ` set (ng_mConns g) \<subseteq> insert a (snd ` set (ng_mConns g1))" using set1 by auto
    moreover have "insert a (snd ` set (ng_mConns g1)) \<subseteq> set (pending_dead g')" using False rest al pend by (simp add: send_result_def)
    ultimately show ?thesis using False rest al by (simp add: send_result_def subset_trans)
  qed
qed

lemma send_loop_result:
  assumes "net_wf g" and "length (ng_mConns g) \<le> length rs" and now: "clock_ok now"
    and "key = 0 \<or> key \<notin> fst ` set (ng_mConnMap g)"
  shows "\<exists>n g' head' s'. send_loop rs key now out b head g s = Some (n, g', head', s') \<and> net_wf g'
     \<and> set (pending_dead g) \<subseteq> set (pending_dead g') \<and> send_result out b head s g n g' s'"
  using assms(1,2,4)
proof (induction rs arbitrary: g)
  case Nil
  then show ?case by (subst send_loop.simps) (simp add: send_result_def Group_Alive_def)
next
  case (Cons r rs)
  show ?case
  proof (cases "ng_mConns g = []")
    case True
    then show ?thesis using Cons.prems by (subst send_loop.simps) (simp add: send_result_def Group_Alive_def)
  next
    case False
    obtain x a c where p: "ng_mConns g ! (r mod length (ng_mConns g)) = (x, a)" "(x, a) \<in> set (ng_mConns g)"
      and c: "ng_heap g a = Some c" "nc_inited c" "nc_outputCb c" "(nc_intKey c, a) \<in> set (ng_mConnMap g)"
      using net_wf_pick [OF Cons.prems(1) False] .
    have use: "\<not> (key \<noteq> 0 \<and> nc_intKey c = key)" using Cons.prems(3) c(4) by force
    show ?thesis
    proof (cases "Conn_Alive c")
      case True
      from send_turn_alive [OF Cons.prems(1) p(2) c(1-3) True, of out head b s] show ?thesis
        using False p(1) c(1) True use by (subst send_loop.simps) (auto simp: Let_def)
    next
      case dead: False
      obtain g1 where g1: "childConnErrCb now a g = Some g1" "net_wf g1"
        "length (ng_mConns g) = Suc (length (ng_mConns g1))"
        "set (ng_mConns g1) = {e \<in> set (ng_mConns g). snd e \<noteq> a}"
        "\<forall>b. b \<noteq> a \<longrightarrow> ng_heap g1 b = ng_heap g b"
        "set (pending_dead g1) = insert a (set (pending_dead g))"
        "set (ng_mConnMap g1) \<subseteq> set (ng_mConnMap g)"
        using kill_step [OF Cons.prems(1) now p(2)] by (elim exE conjE) rule
      have run: "send_loop (r # rs) key now out b head g s = send_loop rs key now out b head g1 s"
        using False p(1) c(1) dead g1(1) by (subst send_loop.simps) simp
      have "length (ng_mConns g1) \<le> length rs" "key = 0 \<or> key \<notin> fst ` set (ng_mConnMap g1)"
        using g1(3,7) Cons.prems(2,3) by auto
      from Cons.IH [OF g1(2) this] obtain n g' head' s' where
        r: "send_loop rs key now out b head g1 s = Some (n, g', head', s')" "net_wf g'"
           "set (pending_dead g1) \<subseteq> set (pending_dead g')" "send_result out b head s g1 n g' s'"
        by (elim exE conjE) rule
      have "send_result out b head s g n g' s'" by (rule send_turn_dead [OF c(1) dead g1(4,5) _ r(4)]) (use g1(6) r(3) in blast)
      with r g1(6) show ?thesis unfolding run by (intro exI conjI) auto
    qed
  qed
qed

lemmas send_loop_ok = send_loop_result [unfolded send_result_def]

subsection \<open>Flushing, adding and deleting\<close>

lemma kill_all_ok:
  assumes "net_wf g" "clock_ok now" "distinct as" "set as \<subseteq> snd ` set (ng_mConns g)"
  shows "\<exists>g'. kill_all now as g = Some g' \<and> net_wf g'
     \<and> set (ng_mConns g') = {e \<in> set (ng_mConns g). snd e \<notin> set as}
     \<and> (\<forall>b. b \<notin> set as \<longrightarrow> ng_heap g' b = ng_heap g b)
     \<and> set (pending_dead g') = set as \<union> set (pending_dead g)"
  using assms(1,3,4)
proof (induction as arbitrary: g)
  case Nil
  then show ?case by simp
next
  case (Cons a as)
  then obtain x where x: "(x, a) \<in> set (ng_mConns g)" by auto
  obtain g1 where g1: "childConnErrCb now a g = Some g1" "net_wf g1"
        "set (ng_mConns g1) = {e \<in> set (ng_mConns g). snd e \<noteq> a}"
        "\<forall>b. b \<noteq> a \<longrightarrow> ng_heap g1 b = ng_heap g b"
        "set (pending_dead g1) = insert a (set (pending_dead g))"
    using kill_step [OF Cons.prems(1) assms(2) x] by (elim exE conjE) rule
  have "set as \<subseteq> snd ` set (ng_mConns g1)"
  proof
    fix y assume y: "y \<in> set as"
    then obtain e where "e \<in> set (ng_mConns g)" "y = snd e" using Cons.prems(3) by auto
    moreover have "y \<noteq> a" using y Cons.prems(2) by auto
    ultimately show "y \<in> snd ` set (ng_mConns g1)" unfolding g1(3) by blast
  qed
  from Cons.IH [OF g1(2) _ this] Cons.prems(2) obtain g' where "kill_all now as g1 = Some g'" "net_wf g'"
    "set (ng_mConns g') = {e \<in> set (ng_mConns g1). snd e \<notin> set as}"
    "\<forall>b. b \<notin> set as \<longrightarrow> ng_heap g' b = ng_heap g1 b" "set (pending_dead g') = set as \<union> set (pending_dead g1)"
    by auto
  with g1 show ?case by auto
qed

lemma Conn_Alive_Flush [simp]: "Conn_Alive (Conn_Flush c) = Conn_Alive c"
  by (cases "nc_info c") (simp_all add: Conn_Alive_def Conn_Flush_def)

lemma flush_conns_ok:
  assumes "net_wf g" "set as \<subseteq> snd ` set (ng_mConns g)"
  shows "\<exists>g'. flush_conns as g = Some g' \<and> net_wf g' \<and> ng_mConns g' = ng_mConns g
     \<and> pending_dead g' = pending_dead g \<and> (\<forall>b. alive_at g' b = alive_at g b)"
  using assms
proof (induction as arbitrary: g)
  case Nil
  then show ?case by simp
next
  case (Cons a as)
  then obtain x k where "(k, a) \<in> set (ng_mConnMap g)" using net_wf_member [OF Cons.prems(1)] by auto metis
  then obtain c where c: "ng_heap g a = Some c" using net_wf_conn [OF Cons.prems(1)] by metis
  let ?g = "set_conn a (Conn_Flush c) g"
  have "net_wf ?g" by (rule set_conn_wf [OF Cons.prems(1) c]) (simp add: conn_same_def Conn_Flush_def)
  moreover have "ng_mConns ?g = ng_mConns g" "pending_dead ?g = pending_dead g" "\<forall>b. alive_at ?g b = alive_at g b"
    using c by (auto simp: set_conn_def pending_dead_def alive_at_def)
  ultimately show ?case using Cons.IH [of ?g] Cons.prems(2) c by auto
qed

lemma distinct_conns:
  assumes "net_wf g"
  shows "distinct (map snd (ng_mConns g))"
proof -
  have wm: "map_wf (<) (ng_mConns g)" using assms by (simp add: net_wf_def)
  have "inj_on snd (set (ng_mConns g))"
  proof (rule inj_onI)
    fix e f assume e: "e \<in> set (ng_mConns g)" and f: "f \<in> set (ng_mConns g)" and s: "snd e = snd f"
    obtain j where j: "fst e = StrForIntKey j" "(j, snd e) \<in> set (ng_mConnMap g)"
      using net_wf_member [OF assms, of "fst e" "snd e"] e by auto
    obtain k where k: "fst f = StrForIntKey k" "(k, snd f) \<in> set (ng_mConnMap g)"
      using net_wf_member [OF assms, of "fst f" "snd f"] f by auto
    have "j = k" using net_wf_conn [OF assms j(2)] net_wf_conn [OF assms k(2)] s by (metis option.inject)
    then show "e = f" using j(1) k(1) s by (simp add: prod_eq_iff)
  qed
  moreover have "distinct (ng_mConns g)" using std_less.wf_distinct [OF wm] by (simp add: distinct_map)
  ultimately show ?thesis by (simp add: distinct_map)
qed

lemma Group_Flush_ok:
  assumes "net_wf g" "clock_ok now"
  shows "\<exists>g'. Group_Flush now g = Some g' \<and> net_wf g'
     \<and> set (ng_mConns g') = {e \<in> set (ng_mConns g). alive_at g (snd e)}
     \<and> set (pending_dead g') = {a \<in> snd ` set (ng_mConns g). \<not> alive_at g a} \<union> set (pending_dead g)
     \<and> (\<forall>e \<in> set (ng_mConns g'). alive_at g' (snd e))"
proof -
  let ?fails = "filter (\<lambda>a. \<not> alive_at g a) (map snd (ng_mConns g))"
  have d: "distinct ?fails" "set ?fails \<subseteq> snd ` set (ng_mConns g)"
    using distinct_conns [OF assms(1)] by auto
  obtain g1 where g1: "kill_all now ?fails g = Some g1" "net_wf g1"
    "set (ng_mConns g1) = {e \<in> set (ng_mConns g). snd e \<notin> set ?fails}"
    "\<forall>b. b \<notin> set ?fails \<longrightarrow> ng_heap g1 b = ng_heap g b"
    "set (pending_dead g1) = set ?fails \<union> set (pending_dead g)"
    using kill_all_ok [OF assms d] by (elim exE conjE) rule
  obtain g2 where g2: "flush_conns (map snd (ng_mConns g1)) g1 = Some g2" "net_wf g2" "ng_mConns g2 = ng_mConns g1"
     "pending_dead g2 = pending_dead g1" "\<forall>b. alive_at g2 b = alive_at g1 b"
    using flush_conns_ok [OF g1(2), of "map snd (ng_mConns g1)"] by auto
  have live: "set (ng_mConns g1) = {e \<in> set (ng_mConns g). alive_at g (snd e)}"
    unfolding g1(3) by force
  have "alive_at g2 (snd e)" if "e \<in> set (ng_mConns g1)" for e
    using that g2(5) g1(3,4) live by (simp add: alive_at_def)
  moreover have "set ?fails = {a \<in> snd ` set (ng_mConns g). \<not> alive_at g a}" by auto
  ultimately show ?thesis
    using g1(1,5) g2 live unfolding Group_Flush_def by (auto simp: Let_def)
qed

lemma AddNetConn_ok:
  assumes wf: "net_wf g" and new: "ng_heap g a = None" "nc_inited c" "map_find (<) (nc_intKey c) (ng_mConnMap g) = None"
  shows "\<exists>g'. AddNetConn a (set_conn a c g) = Some g' \<and> net_wf g'
     \<and> set (ng_mConnMap g') = insert (nc_intKey c, a) (set (ng_mConnMap g))"
proof -
  let ?k = "nc_intKey c"
  let ?c = "c\<lparr>nc_outputCb := True, nc_onRecvCb := True\<rparr>"
  let ?m = "map_emplace (<) (StrForIntKey ?k) a (ng_mConns g)"
  let ?n = "map_emplace (<) ?k a (ng_mConnMap g)"
  have k: "?k \<notin> fst ` set (ng_mConnMap g)"
    using new(3) by (simp add: std_less.find_map_of map_of_eq_None_iff)
  have img: "set (ng_mConns g) = (\<lambda>(k, a). (StrForIntKey k, a)) ` set (ng_mConnMap g)"
    using wf by (simp add: net_wf_def)
  have "StrForIntKey ?k \<notin> fst ` set (ng_mConns g)" using k unfolding img by force
  then have "map_find (<) (StrForIntKey ?k) (ng_mConns g) = None"
    by (simp add: std_less.find_map_of map_of_eq_None_iff)
  then have sets: "set ?m = insert (StrForIntKey ?k, a) (set (ng_mConns g))" "set ?n = insert (?k, a) (set (ng_mConnMap g))"
    using new(3) by (simp_all add: std_less.set_emplace_new)
  have wm: "map_wf (<) ?m" "map_wf (<) ?n" using wf by (auto simp: net_wf_def intro: std_less.wf_emplace)
  have im: "set ?m = (\<lambda>(k, a). (StrForIntKey k, a)) ` set ?n" using wf sets by (auto simp: net_wf_def)
  let ?g = "(set_conn a ?c g)\<lparr>ng_mConns := ?m, ng_mConnMap := ?n\<rparr>"
  have run: "AddNetConn a (set_conn a c g) = Some ?g"
    using maps_same_length [OF wm im]
    by (simp add: AddNetConn_def IGroup_AddConn_def set_conn_def Group_Size_def Let_def)
  have na: "b \<noteq> a" if "(j, b) \<in> set (ng_mConnMap g)" for j b
    using net_wf_conn [OF wf that] new(1) by (metis option.distinct(1))
  have nb: "b \<noteq> a" if "b \<in> set (pending_dead g)" for b
    using wf that new(1) by (auto simp: net_wf_def)
  have "net_wf ?g"
    unfolding net_wf_def
  proof (intro conjI)
    show "\<forall>(j, b)\<in>set (ng_mConnMap ?g). \<exists>c. ng_heap ?g b = Some c \<and> nc_intKey c = j \<and> nc_inited c \<and> nc_outputCb c"
      using wf na new(2) sets by (fastforce simp: net_wf_def set_conn_def)
    show "\<forall>b\<in>set (pending_dead ?g). ng_heap ?g b \<noteq> None"
      using wf by (auto simp: net_wf_def set_conn_def pending_dead_def)
    show "set (pending_dead ?g) \<inter> snd ` set (ng_mConnMap ?g) = {}"
      using wf nb unfolding net_wf_def by (auto simp: sets pending_dead_def set_conn_def)
  qed (use wf wm im in \<open>auto simp: net_wf_def pending_dead_def set_conn_def\<close>)
  with run sets show ?thesis by auto
qed

text \<open>The handler's timeout: the due messages are taken off the queue and handled in order.\<close>

primrec handle_all :: "message list \<Rightarrow> net_group \<Rightarrow> (any_info list \<times> net_group) option" where
  "handle_all [] g = Some ([], g)"
| "handle_all (m # ms) g = do {
     (i, g) \<leftarrow> handleMessage m g;
     (is, g) \<leftarrow> handle_all ms g;
     Some ((case i of None \<Rightarrow> [] | Some i \<Rightarrow> [i]) @ is, g) }"

definition Net_OnTimeout :: "u64 \<Rightarrow> net_group \<Rightarrow> (any_info list \<times> net_group) option" where
  "Net_OnTimeout now g = do {
     (_, ms, h) \<leftarrow> OnTimeout (ng_mHandler g) now;
     handle_all ms (g\<lparr>ng_mHandler := h\<rparr>) }"

lemma delete_wf:
  assumes "net_wf g" "a \<notin> snd ` set (ng_mConnMap g)" "a \<notin> set (pending_dead g)"
  shows "net_wf (g\<lparr>ng_heap := (ng_heap g)(a := None), ng_closed := cl\<rparr>)"
proof -
  have "b \<noteq> a" if "(j, b) \<in> set (ng_mConnMap g)" for j b using assms(2) that by force
  moreover have "b \<noteq> a" if "b \<in> set (pending_dead g)" for b using assms(3) that by blast
  moreover have "pending_dead (g\<lparr>ng_heap := (ng_heap g)(a := None), ng_closed := cl\<rparr>) = pending_dead g"
    by (simp add: pending_dead_def)
  ultimately show ?thesis
    using assms(1) unfolding net_wf_def by (auto split: prod.splits) blast
qed

lemma handle_all_ok:
  assumes "net_wf g" and "distinct (map (the \<circ> m_obj) ms)"
    and "\<forall>m \<in> set ms. m_what m = MSG_CONN_ERR \<and> m_obj m \<noteq> None \<and> ng_heap g (the (m_obj m)) \<noteq> None
           \<and> the (m_obj m) \<notin> snd ` set (ng_mConnMap g) \<and> the (m_obj m) \<notin> set (pending_dead g)"
  shows "\<exists>is g'. handle_all ms g = Some (is, g') \<and> net_wf g' \<and> ng_mConns g' = ng_mConns g
     \<and> ng_mConnMap g' = ng_mConnMap g \<and> pending_dead g' = pending_dead g
     \<and> (\<forall>b. ng_heap g' b = (if b \<in> (the \<circ> m_obj) ` set ms then None else ng_heap g b))
     \<and> (ng_errHandler g \<longrightarrow> is = map (\<lambda>m. nc_info (the (ng_heap g (the (m_obj m))))) ms)"
  using assms
proof (induction ms arbitrary: g)
  case Nil
  then show ?case by simp
next
  case (Cons m ms)
  obtain a c where a: "m_obj m = Some a" "ng_heap g a = Some c" "m_what m = MSG_CONN_ERR"
      "a \<notin> snd ` set (ng_mConnMap g)" "a \<notin> set (pending_dead g)"
    using Cons.prems(3) by fastforce
  define g1 where "g1 = g\<lparr>ng_heap := (ng_heap g)(a := None),
      ng_closed := ng_closed g @ (case snd (Conn_Close c) of None \<Rightarrow> [] | Some h \<Rightarrow> [h])\<rparr>"
  have h: "handleMessage m g = Some (if ng_errHandler g then Some (nc_info c) else None, g1)"
    using a by (simp add: handleMessage_def g1_def case_prod_beta)
  have g1: "net_wf g1" "ng_mConns g1 = ng_mConns g" "ng_mConnMap g1 = ng_mConnMap g" "pending_dead g1 = pending_dead g"
      "ng_heap g1 = (ng_heap g)(a := None)" "ng_errHandler g1 = ng_errHandler g"
    using delete_wf [OF Cons.prems(1) a(4,5)] by (simp_all add: g1_def pending_dead_def)
  have ne: "the (m_obj x) \<noteq> a" if "x \<in> set ms" for x
    using Cons.prems(2) that a(1) by (auto simp: image_iff)
  have "\<exists>is g'. handle_all ms g1 = Some (is, g') \<and> net_wf g' \<and> ng_mConns g' = ng_mConns g1
     \<and> ng_mConnMap g' = ng_mConnMap g1 \<and> pending_dead g' = pending_dead g1
     \<and> (\<forall>b. ng_heap g' b = (if b \<in> (the \<circ> m_obj) ` set ms then None else ng_heap g1 b))
     \<and> (ng_errHandler g1 \<longrightarrow> is = map (\<lambda>m. nc_info (the (ng_heap g1 (the (m_obj m))))) ms)"
    using Cons.prems(2,3) g1 ne by (intro Cons.IH) auto
  then obtain "is" g' where r: "handle_all ms g1 = Some (is, g')" "net_wf g'" "ng_mConns g' = ng_mConns g"
     "ng_mConnMap g' = ng_mConnMap g" "pending_dead g' = pending_dead g"
     "\<forall>b. ng_heap g' b = (if b \<in> (the \<circ> m_obj) ` set ms then None else ng_heap g1 b)"
     "ng_errHandler g \<longrightarrow> is = map (\<lambda>m. nc_info (the (ng_heap g1 (the (m_obj m))))) ms"
    using g1 by auto
  have "map (\<lambda>m. nc_info (the (ng_heap g1 (the (m_obj m))))) ms = map (\<lambda>m. nc_info (the (ng_heap g (the (m_obj m))))) ms"
    using ne g1(5) by auto
  then show ?case using h r a(1,2) g1(5) by auto
qed

lemma OnTimeout_callback:
  assumes "OnTimeout h now = Some (ts, ms, h')"
  shows "mCallback h' = mCallback h"
proof -
  have "mCallback (updateNextMsAndTimer h n) = mCallback h" for h n
    by (auto simp: updateNextMsAndTimer_def destroyTimer_def setupOneShotTimer_def Let_def)
  then show ?thesis using assms by (auto simp: OnTimeout_def Let_def destroyTimer_def split: if_splits)
qed

lemma Net_OnTimeout_ok:
  assumes wf: "net_wf g" and now: "clock_ok now"
  shows "\<exists>is g'. Net_OnTimeout now g = Some (is, g') \<and> net_wf g' \<and> ng_mConns g' = ng_mConns g
     \<and> (\<forall>b. ng_heap g' b = (if b \<in> set (pending_dead g) \<and> b \<notin> set (pending_dead g') then None else ng_heap g b))"
proof -
  let ?h = "ng_mHandler g"
  let ?due = "\<lambda>m. m_expireMs m < now + INTERVAL"
  let ?ms = "filter ?due (mMessageList ?h)"
  have hw: "handler_wf ?h" "mCallback ?h" "distinct (pending_dead g)" using wf by (auto simp: net_wf_def)
  obtain ts h where h: "OnTimeout ?h now = Some (ts, ?ms, h)" "handler_wf h"
      "mMessageList h = filter (\<lambda>m. \<not> ?due m) (mMessageList ?h)"
    using OnTimeout_exact [OF hw(1), of now] now by (auto simp: clock_ok_def)
  let ?g = "g\<lparr>ng_mHandler := h\<rparr>"
  have d: "distinct (map (the \<circ> m_obj) (mMessageList ?h))" using hw(3) by (simp add: pending_dead_def)
  have inj: "inj_on (the \<circ> m_obj) (set (mMessageList ?h))" using d by (simp add: distinct_map)
  have pg: "set (pending_dead ?g) = (the \<circ> m_obj) ` {m \<in> set (mMessageList ?h). \<not> ?due m}"
    by (simp add: pending_dead_def h(3))
  then have sub: "set (pending_dead ?g) \<subseteq> set (pending_dead g)" by (auto simp: pending_dead_def)
  have gone: "(the \<circ> m_obj) ` set ?ms = set (pending_dead g) - set (pending_dead ?g)"
  proof -
    have "(the \<circ> m_obj) ` {m \<in> set (mMessageList ?h). ?due m} = (the \<circ> m_obj) ` set (mMessageList ?h) - (the \<circ> m_obj) ` {m \<in> set (mMessageList ?h). \<not> ?due m}"
      using inj by (auto simp: inj_on_def)
    then show ?thesis unfolding pg by (simp add: pending_dead_def)
  qed
  have wg: "net_wf ?g"
  proof -
    have "distinct (pending_dead ?g)" using d by (simp add: pending_dead_def h(3) distinct_map_filter)
    moreover have "\<forall>m \<in> set (mMessageList h). m_what m = MSG_CONN_ERR \<and> m_obj m \<noteq> None"
      using wf unfolding net_wf_def h(3) by auto
    moreover have "mCallback h" using OnTimeout_callback [OF h(1)] hw(2) by simp
    ultimately show ?thesis using wf sub h(2) unfolding net_wf_def by auto
  qed
  have pre: "\<forall>m \<in> set ?ms. m_what m = MSG_CONN_ERR \<and> m_obj m \<noteq> None \<and> ng_heap ?g (the (m_obj m)) \<noteq> None
           \<and> the (m_obj m) \<notin> snd ` set (ng_mConnMap ?g) \<and> the (m_obj m) \<notin> set (pending_dead ?g)"
  proof
    fix m assume m: "m \<in> set ?ms"
    then have "the (m_obj m) \<in> set (pending_dead g) - set (pending_dead ?g)" using gone by auto
    then show "m_what m = MSG_CONN_ERR \<and> m_obj m \<noteq> None \<and> ng_heap ?g (the (m_obj m)) \<noteq> None
        \<and> the (m_obj m) \<notin> snd ` set (ng_mConnMap ?g) \<and> the (m_obj m) \<notin> set (pending_dead ?g)"
      using wf m unfolding net_wf_def by auto
  qed
  have dm: "distinct (map (the \<circ> m_obj) ?ms)" using d by (rule distinct_map_filter)
  from handle_all_ok [OF wg dm pre] obtain "is" g' where r: "handle_all ?ms ?g = Some (is, g')" "net_wf g'"
     "ng_mConns g' = ng_mConns ?g" "pending_dead g' = pending_dead ?g"
     "\<forall>b. ng_heap g' b = (if b \<in> (the \<circ> m_obj) ` set ?ms then None else ng_heap ?g b)"
    by (elim exE conjE) rule
  have "Net_OnTimeout now g = Some (is, g')" using h(1) r(1) by (simp add: Net_OnTimeout_def)
  moreover have "\<forall>b. ng_heap g' b = (if b \<in> set (pending_dead g) \<and> b \<notin> set (pending_dead g') then None else ng_heap g b)"
    using r(5) unfolding gone r(4) by simp
  ultimately show ?thesis using r(2,3) by auto
qed

subsection \<open>Properties\<close>


lemma new_net_group_wf: "net_wf (new_net_group gid (new_handler 1 True))"
  by (simp add: net_wf_def new_net_group_def new_handler_def pending_dead_def handler_wf_def expiries_def)




end
