(* ===== verification/R_Conn.thy ===== *)
theory R_Conn
  imports Net_Conn
begin

section \<open>Packets on the wire (conn/RConn.cpp, util/rhash.cpp)\<close>

text \<open>
  \<open>RConn\<close> is the bottom of both programs. Its \<open>Output\<close> puts a hash and the head in front of a
  payload and gives the result to a UDP socket or to the raw TCP sender; \<open>OnRecv\<close> takes both
  off again and drops what does not carry the right hash. The digest comes from theory Md5, which
  imports this one and instantiates it: here the function
  \<open>dig\<close> from the hashed bytes to the digest is an argument, and what is used of it is that a
  digest has 16 bytes. A C string of bytes is a byte list. Below \<open>Output\<close> the two senders are
  one function \<open>send\<close> of the route that threads a state. Out-of-range accesses and failed
  assertions are \<^const>\<open>None\<close>.
\<close>

subsection \<open>The hash\<close>

type_synonym digest = "byte list \<Rightarrow> byte list"

definition MD5_LEN :: nat where "MD5_LEN = 16"

definition md5_tail :: "digest \<Rightarrow> byte list \<Rightarrow> byte list \<Rightarrow> byte list" where
  "md5_tail dig key data = take HASH_BUF_SIZE (drop (MD5_LEN - HASH_BUF_SIZE) (dig (key @ take 1 data)))"

definition compute_hash :: "digest \<Rightarrow> buf \<Rightarrow> nat \<Rightarrow> byte list \<Rightarrow> byte list \<Rightarrow> (buf \<times> nat) option" where
  "compute_hash dig b p key data = (if data = [] then None else put_bytes b p (md5_tail dig key data))"

definition hash_equal :: "digest \<Rightarrow> byte list \<Rightarrow> byte list \<Rightarrow> byte list \<Rightarrow> bool" where
  "hash_equal dig hashed_buf key data \<longleftrightarrow> data \<noteq> [] \<and> take HASH_BUF_SIZE hashed_buf = md5_tail dig key data"

definition EmptyIdBuf :: "byte list \<Rightarrow> bool" where
  "EmptyIdBuf i \<longleftrightarrow> list_all (\<lambda>ch. ch = 0) i"

definition IdBuf2Str :: "byte list \<Rightarrow> byte list" where
  "IdBuf2Str i = i"

definition Str2IdBuf :: "byte list \<Rightarrow> byte list option" where
  "Str2IdBuf str = (if length str = ID_BUF_SIZE then Some str else None)"

subsection \<open>Receiving and sending\<close>

datatype rconn_event = Deliver any_info "byte list" | TcpClosed tcp_info | Dropped

definition RConn_OnRecv :: "bool \<Rightarrow> digest \<Rightarrow> byte list \<Rightarrow> any_info \<Rightarrow> byte list \<Rightarrow> rconn_event option" where
  "RConn_OnRecv le dig key info b =
     (if length b > HASH_BUF_SIZE + unat GetMinEncSize then do {
        (head, r) \<leftarrow> DecodeBuf le new_head b (Some HASH_BUF_SIZE) (int (length b) - int HASH_BUF_SIZE);
        case r of
          None \<Rightarrow> Some Dropped
        | Some p \<Rightarrow>
            if hash_equal dig b key (drop p b) then Some (Deliver (set_head (Some head) info) (drop p b))
            else Some Dropped }
      else (case info of
          UdpI _ \<Rightarrow> Some Dropped
        | TcpI t \<Rightarrow> Some (if HasCloseFlag t then TcpClosed t else Dropped)))"

datatype route = RUdp string | RRaw

text \<open>\<open>ResetSend\<close> and \<open>RConnReset::SendReset\<close>: the info is copied into a \<open>TcpInfo\<close> first.\<close>

definition ResetSend :: "(route \<Rightarrow> any_info \<Rightarrow> byte list \<Rightarrow> 's \<Rightarrow> int \<times> 's) \<Rightarrow> any_info \<Rightarrow> 's \<Rightarrow> int \<times> 's" where
  "ResetSend send info s = (if IsUdp info then send RRaw info [] s else (0, s))"

definition SendReset :: "(route \<Rightarrow> any_info \<Rightarrow> byte list \<Rightarrow> 's \<Rightarrow> int \<times> 's) \<Rightarrow> any_info \<Rightarrow> 's \<Rightarrow> int \<times> 's" where
  "SendReset send info s =
     (if \<not> IsUdp info then ResetSend send (TcpI ((TcpInfo_of (info_base info))\<lparr>ti_flag := TH_RST\<rparr>)) s
      else (0, s))"

text \<open>The packet: the local array of \<open>OM_MAX_PKT_SIZE\<close> bytes up to the end of the payload.\<close>

definition build_packet :: "bool \<Rightarrow> digest \<Rightarrow> byte list \<Rightarrow> enc_head \<Rightarrow> byte list \<Rightarrow> byte list option" where
  "build_packet le dig key head b = do {
     (base, p) \<leftarrow> compute_hash dig (replicate OM_MAX_PKT_SIZE 0) 0 key b;
     (_, base, r) \<leftarrow> Enc2Buf le head base (Some p) (int OM_MAX_PKT_SIZE - int p);
     p \<leftarrow> r;
     (base, p) \<leftarrow> put_bytes base p b;
     Some (take p base) }"

definition RConn_Output ::
  "bool \<Rightarrow> digest \<Rightarrow> byte list \<Rightarrow> string list \<Rightarrow> (route \<Rightarrow> any_info \<Rightarrow> byte list \<Rightarrow> 's \<Rightarrow> int \<times> 's)
     \<Rightarrow> any_info \<Rightarrow> byte list \<Rightarrow> 's \<Rightarrow> (int \<times> 's) option" where
  "RConn_Output le dig key conns send info b s =
     (if b \<noteq> [] then do {
        head \<leftarrow> ci_head (info_base info);
        if HASH_BUF_SIZE + unat GetSize + length b > OM_MAX_PKT_SIZE then Some (-1, s)
        else do {
          pkt \<leftarrow> build_packet le dig key head b;
          case info of
            UdpI _ \<Rightarrow> do {
              k \<leftarrow> KeyForConnInfo info;
              if StrForIntKey k \<in> set conns then Some (send (RUdp (StrForIntKey k)) info pkt s)
              else Some (int (length b), s) }
          | TcpI _ \<Rightarrow> Some (send RRaw info pkt s) } }
      else Some (SendReset send info s))"

subsection \<open>The packet's layout\<close>

lemma length_md5_tail: "length (dig (key @ take 1 data)) = 16 \<Longrightarrow> length (md5_tail dig key data) = 8"
  by (simp add: md5_tail_def HASH_BUF_SIZE_def MD5_LEN_def)

lemma put_at_front:
  assumes "length xs \<le> length b"
  shows "put_bytes b 0 xs = Some (xs @ drop (length xs) b, length xs)"
  using assms by (simp add: put_bytes_def write_bytes_def)

lemma put_after:
  assumes "length ys \<le> length c"
  shows "put_bytes (xs @ c) (length xs) ys = Some (xs @ ys @ drop (length ys) c, length xs + length ys)"
  using assms by (simp add: put_bytes_def write_bytes_def)

lemma build_packet_layout:
  assumes dig: "\<And>x. length (dig x) = 16" and wf: "head_wf head" and "b \<noteq> []" and len: "31 + length b \<le> 1500"
  shows "build_packet True dig key head b = Some (md5_tail dig key b @ head_bytes (head\<lparr>eh_len := 23\<rparr>) @ b)"
proof -
  let ?h = "md5_tail dig key b" and ?hd = "head_bytes (head\<lparr>eh_len := 23\<rparr>)"
  have lh: "length ?h = 8" by (rule length_md5_tail) (rule dig)
  have ld: "length ?hd = 23" using wf by (simp add: length_head_bytes head_wf_def)
  obtain z where z: "replicate OM_MAX_PKT_SIZE 0 = (z :: byte list)" and lz: "length z = 1500"
    by (simp add: OM_MAX_PKT_SIZE_def)
  have p1: "compute_hash dig z 0 key b = Some (?h @ drop 8 z, 8)"
    using put_at_front [of ?h z] lh lz assms(3) by (simp add: compute_hash_def)
  obtain b' where e: "Enc2Buf True head (?h @ drop 8 z) (Some 8) 1492 = Some (head\<lparr>eh_len := 23\<rparr>, b', Some 31)"
    "put_bytes (?h @ drop 8 z) 8 ?hd = Some (b', 31)"
    using Enc2Buf_layout [OF wf, of 1492 8 "?h @ drop 8 z"] lh lz by auto
  have "put_bytes (?h @ drop 8 z) 8 ?hd = Some ((?h @ ?hd) @ drop 31 z, 31)"
    using put_after [of ?hd "drop 8 z" ?h] lh ld lz by simp
  with e(2) have b': "b' = (?h @ ?hd) @ drop 31 z" by simp
  have l31: "length (?h @ ?hd) = 31" using lh ld by simp
  have "put_bytes b' 31 b = Some ((?h @ ?hd) @ b @ drop (length b) (drop 31 z), 31 + length b)"
    unfolding b' using put_after [of b "drop 31 z" "?h @ ?hd"] len lz unfolding l31 by simp
  then show ?thesis
    using p1 e(1) lh ld by (simp add: build_packet_def z) (simp add: OM_MAX_PKT_SIZE_def)
qed

lemma OnRecv_packet:
  assumes lh: "length h = 8" and wf: "head_wf head" and "eh_len head = 23" and "b \<noteq> []"
  shows "RConn_OnRecv le dig key info (h @ head_bytes head @ b)
    = Some (if h = md5_tail dig key b then Deliver (set_head (Some head) info) b else Dropped)"
proof -
  define pkt where "pkt = h @ head_bytes head @ b"
  have ld: "length (head_bytes head) = 23" by (rule length_head_bytes [OF wf])
  have holds: "holds_at pkt 8 (head_bytes head)" using lh ld by (simp add: holds_at_def pkt_def)
  have len: "length pkt = 31 + length b" using lh ld by (simp add: pkt_def)
  have "DecodeBuf le new_head pkt (Some 8) (int (length pkt) - 8) = Some (head, Some 31)"
    using DecodeBuf_layout [OF wf new_head_wf holds, of "int (length pkt) - 8" le] len assms(3) by simp
  moreover have "drop 31 pkt = b" "take 8 pkt = h" using lh ld by (simp_all add: pkt_def)
  moreover have "length pkt > 31" using len assms(4) by simp
  ultimately show ?thesis
    unfolding pkt_def [symmetric]
    using assms(4) by (simp add: RConn_OnRecv_def HASH_BUF_SIZE_def hash_equal_def)
qed

subsection \<open>Properties\<close>

text \<open>
  A payload survives the wire. For a connection whose head is attached and a payload of at
  most 1469 bytes, \<open>RConn::Output\<close> sends one packet of 31 bytes more, over the raw socket for
  TCP and over the UDP socket of its key for UDP; \<open>RConn::OnRecv\<close> of that packet at a peer with
  the same hash key delivers exactly the payload, with the same head. Longer payloads are
  refused with -1 and nothing is sent.
\<close>

theorem wire_roundtrip:
  assumes "\<And>x. length (dig x) = 16" and "ci_head (info_base info) = Some head" and "head_wf head" and "b \<noteq> []"
    and "\<And>c. info = UdpI c \<Longrightarrow> \<exists>k. KeyForConnInfo info = Some k \<and> StrForIntKey k \<in> set conns"
  shows "if length b \<le> 1469
     then \<exists>pkt r. length pkt = length b + 31
        \<and> RConn_Output True dig key conns send info b s = Some (send r info pkt s) \<and> (r = RRaw \<longleftrightarrow> \<not> IsUdp info)
        \<and> RConn_OnRecv le dig key peer pkt = Some (Deliver (set_head (Some (head\<lparr>eh_len := 23\<rparr>)) peer) b)
     else RConn_Output True dig key conns send info b s = Some (-1, s)"
proof (cases "length b \<le> 1469")
  case True
  let ?pkt = "md5_tail dig key b @ head_bytes (head\<lparr>eh_len := 23\<rparr>) @ b"
  have wf: "head_wf (head\<lparr>eh_len := 23\<rparr>)" using assms(3) by (simp add: head_wf_def)
  have lh: "length (md5_tail dig key b) = 8" by (rule length_md5_tail) (rule assms(1))
  have pkt: "build_packet True dig key head b = Some ?pkt"
    using build_packet_layout [OF assms(1,3,4)] True by simp
  have recv: "RConn_OnRecv le dig key peer ?pkt = Some (Deliver (set_head (Some (head\<lparr>eh_len := 23\<rparr>)) peer) b)"
    using OnRecv_packet [OF lh wf _ assms(4)] by simp
  have small: "\<not> HASH_BUF_SIZE + unat GetSize + length b > OM_MAX_PKT_SIZE"
    using True by (simp add: HASH_BUF_SIZE_def OM_MAX_PKT_SIZE_def)
  have len: "length ?pkt = length b + 31" using lh length_head_bytes [OF wf] by simp
  have "\<exists>r. RConn_Output True dig key conns send info b s = Some (send r info ?pkt s) \<and> (r = RRaw \<longleftrightarrow> \<not> IsUdp info)"
  proof (cases info)
    case (UdpI c)
    then obtain k where "KeyForConnInfo info = Some k" "StrForIntKey k \<in> set conns" using assms(5) by blast
    then show ?thesis using UdpI assms(2,4) small pkt by (auto simp: RConn_Output_def)
  next
    case (TcpI t)
    then show ?thesis using assms(2,4) small pkt by (auto simp: RConn_Output_def)
  qed
  then show ?thesis unfolding if_P [OF True] using recv len by blast
next
  case False
  then show ?thesis using assms(2,4) by (simp add: RConn_Output_def HASH_BUF_SIZE_def OM_MAX_PKT_SIZE_def)
qed

theorem wire_roundtrip_witness:
  "\<exists>pkt. length pkt = 33
     \<and> RConn_Output True (\<lambda>_. replicate 16 7) [1, 2] [] (\<lambda>r i p (s :: unit). (int (length p), s))
          (TcpI (new_tcp_info\<lparr>ci_head := Some new_head\<rparr>)) [5, 6] () = Some (33, ())
     \<and> RConn_OnRecv True (\<lambda>_. replicate 16 7) [1, 2] (TcpI new_tcp_info) pkt
          = Some (Deliver (TcpI (new_tcp_info\<lparr>ci_head := Some new_head\<rparr>)) [5, 6])"
proof -
  have "new_head\<lparr>eh_len := 23\<rparr> = new_head" by (simp add: new_head_def)
  moreover have "ci_head (info_base (TcpI (new_tcp_info\<lparr>ci_head := Some new_head\<rparr>))) = Some new_head"
    by (simp add: base_of_def)
  ultimately show ?thesis
    using wire_roundtrip [where dig = "\<lambda>_. replicate 16 7" and info = "TcpI (new_tcp_info\<lparr>ci_head := Some new_head\<rparr>)"
        and head = new_head and b = "[5, 6]" and conns = "[]" and key = "[1, 2]" and le = True and peer = "TcpI new_tcp_info"
        and send = "\<lambda>r i p (s :: unit). (int (length p), s)" and s = "()"] new_head_wf
    by auto
qed

text \<open>
  C37: What arrives is dealt with safely, whatever it is. For every sequence of bytes \<open>OnRecv\<close>
  stays inside the datagram and returns. A payload is only delivered if the datagram is longer
  than 31 bytes, its tail is the payload, and its first 8 bytes are the hash of the key and the
  payload; a close of the TCP connection is reported only for shorter datagrams with FIN or RST.
\<close>

theorem on_recv_safe:
  "\<exists>ev. RConn_OnRecv le dig key info b = Some ev
     \<and> (case ev of
          Deliver i d \<Rightarrow> length b > 31 \<and> d \<noteq> [] \<and> (\<exists>p. p \<le> length b \<and> d = drop p b) \<and> take 8 b = md5_tail dig key d
             \<and> (\<exists>h. head_wf h \<and> i = set_head (Some h) info)
        | TcpClosed t \<Rightarrow> length b \<le> 31 \<and> info = TcpI t \<and> HasCloseFlag t
        | Dropped \<Rightarrow> True)"
proof (cases "length b > 31")
  case True
  let ?n = "int (length b) - 8"
  have "\<exists>e' r. DecodeBuf le new_head b (Some 8) ?n = Some (e', r) \<and> head_wf e' \<and> (\<forall>q. r = Some q \<longrightarrow> q \<le> length b)"
    using DecodeBuf_safe [OF new_head_wf, of ?n 8 b le] True by auto
  then obtain e r where "DecodeBuf le new_head b (Some 8) ?n = Some (e, r)" "head_wf e" "\<forall>q. r = Some q \<longrightarrow> q \<le> length b"
    by blast
  then show ?thesis
    using True by (cases r) (auto simp: RConn_OnRecv_def HASH_BUF_SIZE_def hash_equal_def)
next
  case False
  then show ?thesis by (cases info) (auto simp: RConn_OnRecv_def HASH_BUF_SIZE_def)
qed

text \<open>
  The hash protects the key and one byte. If a packet is accepted, then so is every packet
  with the same hash and the same first byte of payload, whatever its head (command, id, conv
  and connection key) and the rest of its payload are.
\<close>

theorem hash_covers_one_byte:
  assumes "length h = 8" and "head_wf e" "eh_len e = 23" and "head_wf e'" "eh_len e' = 23"
    and "RConn_OnRecv le dig key info (h @ head_bytes e @ x # xs) = Some (Deliver i d)"
  shows "RConn_OnRecv le dig key info (h @ head_bytes e' @ x # ys) = Some (Deliver (set_head (Some e') info) (x # ys))"
proof -
  have "md5_tail dig key (x # xs) = md5_tail dig key (x # ys)" by (simp add: md5_tail_def)
  then show ?thesis
    using OnRecv_packet [OF assms(1,2,3), of "x # xs" le dig key info] OnRecv_packet [OF assms(1,4,5), of "x # ys" le dig key info]
      assms(6) by (auto split: if_splits)
qed

theorem hash_covers_one_byte_witness:
  "RConn_OnRecv True (\<lambda>_. replicate 16 7) [1] (TcpI new_tcp_info)
     (replicate 8 7 @ head_bytes (new_head\<lparr>eh_cmd := TYPE_CONV_RST\<rparr>) @ [5, 9, 9, 9])
     = Some (Deliver (TcpI (new_tcp_info\<lparr>ci_head := Some (new_head\<lparr>eh_cmd := TYPE_CONV_RST\<rparr>)\<rparr>)) [5, 9, 9, 9])"
proof -
  have h: "eh_len new_head = 23" "head_wf (new_head\<lparr>eh_cmd := TYPE_CONV_RST\<rparr>)"
    by (simp_all add: new_head_def head_wf_def)
  have "md5_tail (\<lambda>_. replicate 16 7) [1] [5] = replicate 8 7"
    by (simp add: md5_tail_def HASH_BUF_SIZE_def MD5_LEN_def)
  then have "RConn_OnRecv True (\<lambda>_. replicate 16 7) [1] (TcpI new_tcp_info) (replicate 8 7 @ head_bytes new_head @ [5])
      = Some (Deliver (set_head (Some new_head) (TcpI new_tcp_info)) [5])"
    using OnRecv_packet [of "replicate 8 7" new_head "[5]" True "\<lambda>_. replicate 16 7" "[1]" "TcpI new_tcp_info"] h new_head_wf by simp
  from hash_covers_one_byte [OF _ new_head_wf h(1) h(2) _ this, of "[9, 9, 9]"] h(1) show ?thesis by simp
qed

text \<open>
  A reset never leaves the host. \<open>Output\<close> with an empty payload means a reset, but
  \<open>RConnReset::SendReset\<close> passes only TCP infos on and \<open>RConn::ResetSend\<close> sends only for UDP ones:
  no sender is called, for any info.
\<close>

theorem reset_never_sent:
  "RConn_Output le dig key conns send info [] s = Some (0, s)"
  by (simp add: RConn_Output_def SendReset_def ResetSend_def)

end
