(* ===== verification/Raw_Tcp.thy ===== *)
theory Raw_Tcp
  imports "HOL-Library.Multiset" Ack_Pool Stream_Sync
begin

section \<open>Captured packets (conn/RawTcp.cpp)\<close>

text \<open>
  \<open>RawInput\<close> runs in the capture thread. It finds the IP and TCP headers in a captured frame,
  records SYNs in the pool of handshakes, and passes everything else that may be of interest to
  the event loop: \<open>cap2uv\<close> writes the connection's record in front of the payload and gives the
  result to the loop-back stream; \<open>syncInput\<close> undoes this in the event loop. A frame is a byte
  list and a header field a read at its offset; a read or copy outside of a buffer is
  \<^const>\<open>None\<close>. What is logged is left out. What libnet answers to \<open>Output\<close> is an argument.
\<close>

subsection \<open>Definitions\<close>

definition DLT_NULL :: int where "DLT_NULL = 0"
definition DLT_EN10MB :: int where "DLT_EN10MB = 1"
definition OM_PROTO_IP :: nat where "OM_PROTO_IP = 8"
definition IPPROTO_TCP :: u8 where "IPPROTO_TCP = 6"

record raw_tcp =
  rt_datalink :: int
  rt_ipId :: u16
  rt_tcpNet :: "nat option"
  rt_tcpTag :: int
  rt_ip4TcpTag :: int
  rt_dev :: string
  rt_isServer :: bool
  rt_syncConn :: bool

definition get8 :: "buf \<Rightarrow> nat \<Rightarrow> u8 option" where
  "get8 b p = map_option hd (read_bytes b p 1)"

text \<open>\<open>ntohs\<close> and \<open>ntohl\<close> of a field: its bytes, most significant first.\<close>

definition get_be :: "buf \<Rightarrow> nat \<Rightarrow> nat \<Rightarrow> nat option" where
  "get_be b p n = map_option (\<lambda>xs. le_to_nat (rev xs)) (read_bytes b p n)"

definition get_host :: "bool \<Rightarrow> buf \<Rightarrow> nat \<Rightarrow> nat \<Rightarrow> nat option" where
  "get_host le b p n = map_option (load_host le) (read_bytes b p n)"

text \<open>
  The fields of the two headers at offset \<open>ip\<close>: the info as seen from this host, the offset of
  the payload and its length.
\<close>

definition parse_tcp :: "bool \<Rightarrow> buf \<Rightarrow> nat \<Rightarrow> (tcp_info \<times> nat \<times> int) option" where
  "parse_tcp le pkt ip = do {
     vhl \<leftarrow> get8 pkt ip;
     let tcp = ip + 4 * unat (vhl AND 15);
     off \<leftarrow> get8 pkt (tcp + 12);
     let payload = tcp + 4 * unat (drop_bit 4 off);
     ip_len \<leftarrow> get_be pkt (ip + 2) 2;
     let payload_len = int ip_len - (int payload - int ip);
     dst \<leftarrow> get_host le pkt (ip + 16) 4;
     dport \<leftarrow> get_be pkt (tcp + 2) 2;
     src \<leftarrow> get_host le pkt (ip + 12) 4;
     sport \<leftarrow> get_be pkt tcp 2;
     seq \<leftarrow> get_be pkt (tcp + 4) 4;
     ack \<leftarrow> get_be pkt (tcp + 8) 4;
     flags \<leftarrow> get8 pkt (tcp + 13);
     Some (\<lparr>ci_src = of_nat dst, ci_dst = of_nat src, ci_sp = of_nat dport, ci_dp = of_nat sport, ci_head = None,
            ti_seq = of_nat seq, ti_ack = of_nat ack, ti_flag = flags\<rparr>, payload, payload_len) }"

datatype cap_ret = Ret int | SyncSend "byte list"

text \<open>
  \<open>payload_len + 2 * sizeof(SA4)\<close> is computed in \<open>size_t\<close>; a negative length given to \<open>memcpy\<close>
  is a huge one.
\<close>

definition cap2uv :: "bool \<Rightarrow> raw_tcp \<Rightarrow> tcp_info \<Rightarrow> buf \<Rightarrow> nat \<Rightarrow> int \<Rightarrow> cap_ret option" where
  "cap2uv le rt info pkt payload payload_len =
     (if (of_int payload_len + 32 :: u64) > of_nat OM_MAX_PKT_SIZE then Some (Ret 0)
      else do {
        (b, r) \<leftarrow> TcpInfo_Encode le info (replicate OM_MAX_PKT_SIZE 0) 0 (int OM_MAX_PKT_SIZE);
        case r of
          None \<Rightarrow> Some (Ret 0)
        | Some p \<Rightarrow>
            if payload_len < 0 then None
            else do {
              x \<leftarrow> read_bytes pkt payload (nat payload_len);
              (b, p) \<leftarrow> put_bytes b p x;
              if rt_syncConn rt then Some (SyncSend (take p b)) else Some (Ret (-1)) } })"

text \<open>Where the IP header starts, or the value to return at once.\<close>

definition find_ip :: "bool \<Rightarrow> raw_tcp \<Rightarrow> buf \<Rightarrow> (int + nat) option" where
  "find_ip le rt pkt =
     (if rt_datalink rt = DLT_EN10MB then do {
        ty \<leftarrow> get_host le pkt 12 2;
        if ty \<noteq> OM_PROTO_IP then Some (Inl 0) else Some (Inr 14) }
      else if rt_datalink rt = DLT_NULL then do {
        (ty, _) \<leftarrow> decode_uint32 le pkt 0;
        if ty \<noteq> 2 then Some (Inl 0) else Some (Inr 4) }
      else Some (Inl (-1)))"

definition RawInput :: "bool \<Rightarrow> raw_tcp \<Rightarrow> ack_pool option \<Rightarrow> u64 \<Rightarrow> nat \<Rightarrow> buf \<Rightarrow> (cap_ret \<times> ack_pool option) option" where
  "RawInput le rt pool now hdr_len pkt =
     (if hdr_len < 44 then Some (Ret 0, pool)
      else do {
        r \<leftarrow> find_ip le rt pkt;
        case r of
          Inl n \<Rightarrow> Some (Ret n, pool)
        | Inr ip \<Rightarrow> do {
            proto \<leftarrow> get8 pkt (ip + 9);
            if proto \<noteq> IPPROTO_TCP then Some (Ret 0, pool)
            else do {
              (info, payload, payload_len) \<leftarrow> parse_tcp le pkt ip;
              case (if ti_flag info AND TH_SYN \<noteq> 0 then pool else None) of
                Some p \<Rightarrow>
                  (let info = (if rt_isServer rt then TcpInfo_Reverse info else info) in
                   Some (Ret 0, Some (snd (AddInfoFromPeer p info (ti_flag info) now))))
              | None \<Rightarrow>
                  if payload_len < int HASH_BUF_SIZE + 1 \<and> \<not> HasCloseFlag info then Some (Ret 0, pool)
                  else do {
                    n \<leftarrow> cap2uv le rt (info\<lparr>ti_seq := ti_seq info + of_int payload_len\<rparr>) pkt payload payload_len;
                    Some (n, pool) } } } })"

text \<open>\<open>syncInput\<close>: the info and the payload given to \<open>Input\<close>; the inner \<^const>\<open>None\<close> is -1.\<close>

definition syncInput :: "bool \<Rightarrow> byte list \<Rightarrow> (tcp_info \<times> byte list) option option" where
  "syncInput le b = do {
     (info, r) \<leftarrow> TcpInfo_Decode le new_tcp_info b 0 (int (length b));
     case r of None \<Rightarrow> Some None | Some p \<Rightarrow> Some (Some (info, drop p b)) }"

text \<open>
  libnet is a parameter: \<open>net\<close> answers one call, with a state of its own. The fields of a call are the
  arguments in the order of the code; the ports, numbers and lengths have the widths of libnet's
  prototypes, so that the sums with the header sizes wrap around at 16 bits. A payload is the bytes
  libnet reads from the pointer it is given.
\<close>

datatype libnet_call =
    BuildTcp u16 u16 u32 u32 u8 u16 u16 u16 u16 "byte list" int
  | BuildUdp u16 u16 u16 u16 "byte list" int
  | BuildIpv4 u16 u8 u16 u16 u8 u8 u16 u32 u32 int
  | LibnetWrite

type_synonym 's libnet = "libnet_call \<Rightarrow> 's \<Rightarrow> int \<times> 's"

definition LIBNET_TCP_H :: u16 where "LIBNET_TCP_H = 20"
definition LIBNET_UDP_H :: u16 where "LIBNET_UDP_H = 8"
definition LIBNET_IPV4_H :: u16 where "LIBNET_IPV4_H = 20"
definition IP_DF :: u16 where "IP_DF = 0x4000"
definition TTL_OUT :: u8 where "TTL_OUT = 64"
definition IPPROTO_UDP :: u8 where "IPPROTO_UDP = 17"

text \<open>
  Both functions return the tags, which the code passes by reference; the IP tag is the old one
  when the first call fails.
\<close>

definition SendRawTcp ::
  "'s libnet \<Rightarrow> u32 \<Rightarrow> u16 \<Rightarrow> u32 \<Rightarrow> u16 \<Rightarrow> u32 \<Rightarrow> u32 \<Rightarrow> byte list \<Rightarrow> u16 \<Rightarrow> u16 \<Rightarrow> int \<Rightarrow> int \<Rightarrow> u8 \<Rightarrow> 's
     \<Rightarrow> int \<times> int \<times> int \<times> 's" where
  "SendRawTcp net src sp dst dp seq ack payload payload_len ip_id tcp ip tcp_flag s =
     (let (tcp, s) = net (BuildTcp sp dp seq ack tcp_flag 65535 0 0 (payload_len + LIBNET_TCP_H)
                            (take (unat payload_len) payload) tcp) s in
      if tcp = -1 then (tcp, tcp, ip, s)
      else let (ip, s) = net (BuildIpv4 (payload_len + LIBNET_TCP_H + LIBNET_IPV4_H) 0 ip_id IP_DF TTL_OUT
                                IPPROTO_TCP 0 src dst ip) s in
        if ip = -1 then (ip, tcp, ip, s)
        else let (n, s) = net LibnetWrite s in
          if n = -1 then (-1, tcp, ip, s) else (int (unat payload_len), tcp, ip, s))"

definition SendRawUdp ::
  "'s libnet \<Rightarrow> u32 \<Rightarrow> u16 \<Rightarrow> u32 \<Rightarrow> u16 \<Rightarrow> byte list \<Rightarrow> u16 \<Rightarrow> u16 \<Rightarrow> int \<Rightarrow> int \<Rightarrow> 's
     \<Rightarrow> int \<times> int \<times> int \<times> 's" where
  "SendRawUdp net src sp dst dp payload payload_len ip_id udp ip s =
     (let (udp, s) = net (BuildUdp sp dp (payload_len + LIBNET_UDP_H) 0 (take (unat payload_len) payload) udp) s in
      if udp = -1 then (udp, udp, ip, s)
      else let (ip, s) = net (BuildIpv4 (payload_len + LIBNET_UDP_H + LIBNET_IPV4_H) 0 ip_id IP_DF TTL_OUT
                                IPPROTO_UDP 0 src dst ip) s in
        if ip = -1 then (ip, udp, ip, s)
        else let (n, s) = net LibnetWrite s in
          if n = -1 then (-1, udp, ip, s) else (int (unat payload_len), udp, ip, s))"

text \<open>
  \<open>Output\<close>, for a length that is not negative: the last component says whether the route service is
  asked to check the network.
\<close>

definition RawTcp_Output :: "'s libnet \<Rightarrow> tcp_info \<Rightarrow> byte list \<Rightarrow> raw_tcp \<Rightarrow> 's \<Rightarrow> int \<times> raw_tcp \<times> 's \<times> bool" where
  "RawTcp_Output net info b rt s =
     (let (n, rt, s) =
        (if rt_tcpNet rt \<noteq> None then
           let (n, tcp, ip, s) = SendRawTcp net (ci_src info) (ci_sp info) (ci_dst info) (ci_dp info) (ti_seq info)
                 (ti_ack info) b (of_nat (length b)) (rt_ipId rt) (rt_tcpTag rt) (rt_ip4TcpTag rt) (ti_flag info) s
           in (n, rt\<lparr>rt_ipId := rt_ipId rt + 1, rt_tcpTag := tcp, rt_ip4TcpTag := ip\<rparr>, s)
         else (-1, rt, s))
      in (n, rt, s, rt_tcpNet rt = None \<or> n < 0))"

definition new_raw_tcp :: "string \<Rightarrow> bool \<Rightarrow> raw_tcp" where
  "new_raw_tcp dev server = \<lparr>rt_datalink = DLT_EN10MB, rt_ipId = 0, rt_tcpNet = None, rt_tcpTag = 0, rt_ip4TcpTag = 0,
     rt_dev = dev, rt_isServer = server, rt_syncConn = False\<rparr>"

text \<open>
  \<open>l\<close> is the result of \<open>libnet_init\<close> on the interface, \<open>link\<close> its link type, \<open>sret\<close> the result
  of initialising the hand-over connection. The lists are the contexts given to \<open>libnet_destroy\<close>.
\<close>

definition RawTcp_Init :: "nat option \<Rightarrow> int \<Rightarrow> int \<Rightarrow> raw_tcp \<Rightarrow> int \<times> raw_tcp" where
  "RawTcp_Init l link sret rt =
     (let rt = rt\<lparr>rt_datalink := link, rt_tcpNet := l\<rparr> in
      case l of None \<Rightarrow> (-1, rt)
      | Some _ \<Rightarrow> (sret, rt\<lparr>rt_ip4TcpTag := 0, rt_tcpTag := 0, rt_syncConn := True\<rparr>))"

definition RawTcp_Close :: "raw_tcp \<Rightarrow> nat list \<times> raw_tcp" where
  "RawTcp_Close rt = (case rt_tcpNet rt of None \<Rightarrow> [] | Some n \<Rightarrow> [n], rt\<lparr>rt_syncConn := False, rt_tcpNet := None\<rparr>)"

definition RawTcp_OnNetConnected :: "nat option \<Rightarrow> int \<Rightarrow> string \<Rightarrow> raw_tcp \<Rightarrow> nat list \<times> raw_tcp" where
  "RawTcp_OnNetConnected l link ifName rt =
     (let rt = rt\<lparr>rt_dev := ifName\<rparr> in
      case l of None \<Rightarrow> ([], rt)
      | Some n \<Rightarrow>
          let rt = (if link \<noteq> rt_datalink rt then rt\<lparr>rt_datalink := link\<rparr> else rt) in
          (case rt_tcpNet rt of None \<Rightarrow> [] | Some old \<Rightarrow> [old],
           rt\<lparr>rt_tcpNet := Some n, rt_ip4TcpTag := 0, rt_tcpTag := 0\<rparr>))"

definition RawTcp_OnNetDisconnected :: "raw_tcp \<Rightarrow> nat list \<times> raw_tcp" where
  "RawTcp_OnNetDisconnected rt =
     (case rt_tcpNet rt of None \<Rightarrow> ([], rt)
      | Some n \<Rightarrow> ([n], rt\<lparr>rt_ip4TcpTag := 0, rt_tcpTag := 0, rt_tcpNet := None\<rparr>))"

text \<open>
  A history of the network as the route service reports it: \<open>NetUp\<close> with the result of
  \<open>libnet_init\<close>, the link type and the interface, \<open>NetDown\<close> for a loss. The run collects the
  contexts that are destroyed.
\<close>

datatype net_event = NetUp "nat option" int string | NetDown

fun net_step :: "net_event \<Rightarrow> raw_tcp \<Rightarrow> nat list \<times> raw_tcp" where
  "net_step (NetUp l link name) rt = RawTcp_OnNetConnected l link name rt"
| "net_step NetDown rt = RawTcp_OnNetDisconnected rt"

primrec net_run :: "net_event list \<Rightarrow> raw_tcp \<Rightarrow> nat list \<times> raw_tcp" where
  "net_run [] rt = ([], rt)"
| "net_run (e # es) rt = (let (d, rt) = net_step e rt; (ds, rt) = net_run es rt in (d @ ds, rt))"

fun opened :: "net_event \<Rightarrow> nat list" where
  "opened (NetUp (Some n) _ _) = [n]"
| "opened _ = []"

definition held :: "raw_tcp \<Rightarrow> nat list" where
  "held rt = (case rt_tcpNet rt of None \<Rightarrow> [] | Some n \<Rightarrow> [n])"

subsection \<open>The record in front of the payload\<close>

lemma size_t_sum:
  assumes "-32 \<le> n" "n \<le> 65536"
  shows "(of_int n + 32 :: u64) > of_nat OM_MAX_PKT_SIZE \<longleftrightarrow> n > 1468"
proof -
  have "uint (of_int n + 32 :: u64) = uint (of_int (n + 32) :: u64)" by simp
  also have "\<dots> = n + 32" using assms by (simp add: word_of_int_inverse [where 'a = 64] uint_word_of_int_eq take_bit_int_eq_self)
  finally show ?thesis by (simp add: word_less_def OM_MAX_PKT_SIZE_def)
qed

lemma cap2uv_sends:
  assumes "0 \<le> n" "n \<le> 65536" "payload + nat n \<le> length pkt" "rt_syncConn rt"
  shows "cap2uv True rt info pkt payload n =
     (if n > 1468 then Some (Ret 0) else Some (SyncSend (tcp_bytes info @ take (nat n) (drop payload pkt))))"
proof (cases "n > 1468")
  case True
  with assms show ?thesis using size_t_sum [of n] by (simp add: cap2uv_def)
next
  case False
  obtain z where z: "replicate OM_MAX_PKT_SIZE 0 = (z :: byte list)" and lz: "length z = 1500"
    by (simp add: OM_MAX_PKT_SIZE_def)
  let ?x = "take (nat n) (drop payload pkt)"
  have lx: "length ?x = nat n" using assms(3) by simp
  have "TcpInfo_Encode True info z 0 1500 = Some (tcp_bytes info @ drop 21 z, Some 21)"
    using lz by (simp add: TcpInfo_Encode_layout put_bytes_def write_bytes_def)
  moreover have "put_bytes (tcp_bytes info @ drop 21 z) 21 ?x = Some ((tcp_bytes info @ ?x) @ drop (21 + nat n) z, 21 + nat n)"
    using lx lz False assms(1) by (simp add: put_bytes_def write_bytes_def ac_simps)
  ultimately show ?thesis
    using False assms size_t_sum [of n] lx
    by (simp add: cap2uv_def z read_bytes_def) (simp add: OM_MAX_PKT_SIZE_def)
qed

lemma cap2uv_negative:
  assumes "-32 \<le> n" "n < 0"
  shows "cap2uv le rt info pkt payload n = None"
proof -
  have "\<not> (of_int n + 32 :: u64) > of_nat OM_MAX_PKT_SIZE" using size_t_sum [of n] assms by simp
  moreover have "TcpInfo_Encode le info z 0 1500 \<noteq> Some (b, None)" for z b
    by (auto simp: TcpInfo_Encode_def ConnInfo_Encode_def split: Option.bind_splits)
  ultimately show ?thesis
    using assms(2)
    by (auto simp: cap2uv_def OM_MAX_PKT_SIZE_def split: Option.bind_splits option.splits)
qed

lemma syncInput_record: "syncInput le (tcp_bytes info @ x) = Some (Some (info\<lparr>ci_head := None\<rparr>, x))"
proof -
  have "holds_at (tcp_bytes info @ x) 0 (tcp_bytes info)" by (simp add: holds_at_def)
  from TcpInfo_Decode_layout [OF _ this, of "int (length (tcp_bytes info @ x))" le new_tcp_info] show ?thesis
    by (simp add: syncInput_def new_tcp_info_def TcpInfo_of_def new_conn_info_def)
qed

lemma sendable_Send: "sendable w \<Longrightarrow> stream_Send le (int (length w)) w = Some (frame le w)"
  by (subst stream_Send_frame) (auto simp: sendable_def stream_sizes)

text \<open>The message \<open>RawInput\<close> makes of a segment.\<close>

lemma RawInput_record:
  assumes "44 \<le> hdr_len" and "find_ip True rt pkt = Some (Inr ip)" and "get8 pkt (ip + 9) = Some IPPROTO_TCP"
    and "parse_tcp True pkt ip = Some (info, q, n)" and "0 \<le> n" "n \<le> 65535" "q + nat n \<le> length pkt"
    and "rt_syncConn rt" and "pool = None \<or> ti_flag info AND TH_SYN = 0" and "9 \<le> n \<or> HasCloseFlag info"
  defines "w \<equiv> tcp_bytes (info\<lparr>ti_seq := ti_seq info + of_int n\<rparr>) @ take (nat n) (drop q pkt)"
  shows "RawInput True rt pool now hdr_len pkt = Some (if n \<le> 1468 then SyncSend w else Ret 0, pool)" and "n \<le> 1468 \<Longrightarrow> sendable w"
proof -
  have "\<not> (n < int HASH_BUF_SIZE + 1 \<and> \<not> HasCloseFlag info)" using assms(10) by (auto simp: HASH_BUF_SIZE_def)
  then have run: "RawInput True rt pool now hdr_len pkt
      = do { r \<leftarrow> cap2uv True rt (info\<lparr>ti_seq := ti_seq info + of_int n\<rparr>) pkt q n; Some (r, pool) }"
    using assms(1-4,9) by (auto simp: RawInput_def)
  have "cap2uv True rt (info\<lparr>ti_seq := ti_seq info + of_int n\<rparr>) pkt q n = (if n > 1468 then Some (Ret 0) else Some (SyncSend w))"
    using assms(5-8) unfolding w_def by (intro cap2uv_sends) auto
  then show "RawInput True rt pool now hdr_len pkt = Some (if n \<le> 1468 then SyncSend w else Ret 0, pool)" using run by simp
  show "n \<le> 1468 \<Longrightarrow> sendable w" using assms(5,7) by (simp add: w_def sendable_def stream_sizes tcp_bytes_def)
qed

subsection \<open>Properties\<close>

text \<open>
  A captured TCP segment reaches the event loop with its payload and its connection. Let
  the headers of a frame parse to \<open>info\<close> and a payload of \<open>n\<close> bytes that lies inside the frame,
  with no SYN to record and either more than a hash of payload or a close flag. If the payload
  has at most 1468 bytes, \<open>RawInput\<close> hands one message to the stream, the stream accepts it,
  and \<open>syncInput\<close> of that message gives back the info, with \<open>seq\<close> advanced by \<open>n\<close>, and exactly
  the payload. Larger payloads are dropped.
\<close>

theorem capture_handover:
  assumes "44 \<le> hdr_len" and "find_ip True rt pkt = Some (Inr ip)" and "get8 pkt (ip + 9) = Some IPPROTO_TCP"
    and "parse_tcp True pkt ip = Some (info, q, n)" and "0 \<le> n" "n \<le> 65535" "q + nat n \<le> length pkt"
    and "rt_syncConn rt" and "pool = None \<or> ti_flag info AND TH_SYN = 0" and "9 \<le> n \<or> HasCloseFlag info"
  shows "if n \<le> 1468
     then \<exists>w. RawInput True rt pool now hdr_len pkt = Some (SyncSend w, pool)
        \<and> stream_Send True (int (length w)) w = Some (frame True w)
        \<and> syncInput le w = Some (Some (info\<lparr>ti_seq := ti_seq info + of_int n, ci_head := None\<rparr>,
                                        take (nat n) (drop q pkt)))
     else RawInput True rt pool now hdr_len pkt = Some (Ret 0, pool)"
proof -
  let ?w = "tcp_bytes (info\<lparr>ti_seq := ti_seq info + of_int n\<rparr>) @ take (nat n) (drop q pkt)"
  note r = RawInput_record [OF assms]
  have "stream_Send True (int (length ?w)) ?w = Some (frame True ?w)" if "n \<le> 1468" using sendable_Send [OF r(2) [OF that]] .
  then show ?thesis using r(1) syncInput_record [of le "info\<lparr>ti_seq := ti_seq info + of_int n\<rparr>" "take (nat n) (drop q pkt)"] by auto
qed

text \<open>An Ethernet frame with a segment of nine bytes of payload from port 5 to port 7.\<close>

definition sample_frame :: "byte list" where
  "sample_frame = replicate 12 0 @ [8, 0]
     @ [0x45, 0, 0, 49, 0, 0, 0, 0, 64, 6, 0, 0, 1, 0, 0, 0, 2, 0, 0, 0]
     @ [0, 5, 0, 7, 0, 0, 0, 1, 0, 0, 0, 2, 0x50, 0x10, 0, 0, 0, 0, 0, 0]
     @ [1, 2, 3, 4, 5, 6, 7, 8, 9]"

definition sample_raw :: raw_tcp where
  "sample_raw = \<lparr>rt_datalink = 1, rt_ipId = 0, rt_tcpNet = None, rt_tcpTag = 0, rt_ip4TcpTag = 0, rt_dev = ''eth0'',
     rt_isServer = False, rt_syncConn = True\<rparr>"

definition sample_info :: tcp_info where
  "sample_info = \<lparr>ci_src = 2, ci_dst = 1, ci_sp = 7, ci_dp = 5, ci_head = None, ti_seq = 1, ti_ack = 2, ti_flag = 0x10\<rparr>"

lemma sample_parse:
  "find_ip True sample_raw sample_frame = Some (Inr 14)" "get8 sample_frame (14 + 9) = Some IPPROTO_TCP"
  "parse_tcp True sample_frame 14 = Some (sample_info, 54, 9)"
  by code_simp+

theorem capture_handover_witness:
  "\<exists>w. RawInput True sample_raw None 0 63 sample_frame = Some (SyncSend w, None)
     \<and> syncInput True w = Some (Some (sample_info\<lparr>ti_seq := 10\<rparr>, [1, 2, 3, 4, 5, 6, 7, 8, 9]))"
proof -
  have "take 9 (drop 54 sample_frame) = [1, 2, 3, 4, 5, 6, 7, 8, 9]" "length sample_frame = 63"
    by (simp_all add: sample_frame_def)
  then show ?thesis
    using capture_handover [OF _ sample_parse, of 63 None 0 True] by (auto simp: sample_raw_def sample_info_def)
qed

text \<open>
  A malformed FIN or RST makes the capture thread write out of bounds. When the length
  field of the IP header is smaller than the two headers, by at most 32 bytes, and the segment
  has a close flag, the negative payload length passes the check of \<open>cap2uv\<close>, whose sum is
  unsigned, and reaches \<open>memcpy\<close>.
\<close>

theorem negative_payload_faults:
  assumes "44 \<le> hdr_len" and "find_ip le rt pkt = Some (Inr ip)" and "get8 pkt (ip + 9) = Some IPPROTO_TCP"
    and "parse_tcp le pkt ip = Some (info, q, n)" and "-32 \<le> n" "n < 0"
    and "HasCloseFlag info" and "pool = None \<or> ti_flag info AND TH_SYN = 0"
  shows "RawInput le rt pool now hdr_len pkt = None"
  using assms cap2uv_negative [of n le rt "info\<lparr>ti_seq := ti_seq info + of_int n\<rparr>" pkt q]
  by (auto simp: RawInput_def)

definition bad_frame :: "byte list" where
  "bad_frame = replicate 12 0 @ [8, 0]
     @ [0x45, 0, 0, 39, 0, 0, 0, 0, 64, 6, 0, 0, 1, 0, 0, 0, 2, 0, 0, 0]
     @ [0, 5, 0, 7, 0, 0, 0, 1, 0, 0, 0, 2, 0x50, 0x11, 0, 0, 0, 0, 0, 0]"

theorem negative_payload_faults_witness: "RawInput True sample_raw None 0 54 bad_frame = None"
proof -
  have "find_ip True sample_raw bad_frame = Some (Inr 14)" "get8 bad_frame (14 + 9) = Some IPPROTO_TCP"
    "parse_tcp True bad_frame 14 = Some (sample_info\<lparr>ti_flag := 0x11\<rparr>, 54, -1)"
    "HasCloseFlag (sample_info\<lparr>ti_flag := 0x11\<rparr>)"
    by code_simp+
  then show ?thesis using negative_payload_faults [of 54 True sample_raw bad_frame 14 _ 54 "-1" None 0] by simp
qed

subsection \<open>The contexts of libnet\<close>

lemma net_step_conserves: "mset (fst (net_step e rt)) + mset (held (snd (net_step e rt))) = mset (held rt) + mset (opened e)"
  by (cases e; cases "rt_tcpNet rt")
     (auto simp: held_def RawTcp_OnNetConnected_def RawTcp_OnNetDisconnected_def Let_def split: option.splits)

lemma net_run_conserves:
  "mset (fst (net_run es rt)) + mset (held (snd (net_run es rt))) = mset (held rt) + mset (concat (map opened es))"
proof (induction es arbitrary: rt)
  case (Cons e es)
  show ?case
    using net_step_conserves [of e rt] Cons.IH [of "snd (net_step e rt)"]
    by (simp add: case_prod_beta Let_def) (metis add.assoc add.commute)
qed simp

text \<open>
  However often the network goes away and comes back between \<open>Init\<close> and \<open>Close\<close>, every libnet
  context that was opened is destroyed exactly once, and afterwards none is held: none leaks
  and none is used after it was destroyed.
\<close>
theorem libnet_contexts_released_once:
  assumes "fst (RawTcp_Init l link sret rt) = 0"
    and "rt' = snd (RawTcp_Init l link sret rt)"
    and "net_run es rt' = (ds, rt'')"
    and "RawTcp_Close rt'' = (cs, rt3)"
  shows "\<exists>n. l = Some n \<and> mset (ds @ cs) = mset (n # concat (map opened es)) \<and> rt_tcpNet rt3 = None"
proof -
  from assms(1,2) obtain n where n: "l = Some n" "rt_tcpNet rt' = Some n"
    by (auto simp: RawTcp_Init_def Let_def split: option.splits)
  have "mset ds + mset (held rt'') = mset [n] + mset (concat (map opened es))"
    using net_run_conserves [of es rt'] assms(3) n by (simp add: held_def)
  moreover have "cs = held rt''" "rt_tcpNet rt3 = None"
    using assms(4) by (auto simp: RawTcp_Close_def held_def)
  ultimately show ?thesis using n by simp
qed

theorem libnet_contexts_released_once_witness:
  "\<exists>n. Some (1 :: nat) = Some n \<and> mset ([1, 2] @ []) = mset (n # concat (map opened [NetUp None 1 ''en0'', NetUp (Some 2) 1 ''en1'', NetDown]))
     \<and> rt_tcpNet (snd (RawTcp_Close (snd (net_run [NetUp None 1 ''en0'', NetUp (Some 2) 1 ''en1'', NetDown]
         (snd (RawTcp_Init (Some 1) 1 0 (new_raw_tcp ''en0'' True))))))) = None"
proof (rule libnet_contexts_released_once [where ds = "[1, 2]" and cs = "[]", OF _ refl])
  show "fst (RawTcp_Init (Some 1) 1 0 (new_raw_tcp ''en0'' True)) = 0" by (simp add: RawTcp_Init_def)
  show "net_run [NetUp None 1 ''en0'', NetUp (Some 2) 1 ''en1'', NetDown] (snd (RawTcp_Init (Some 1) 1 0 (new_raw_tcp ''en0'' True)))
      = ([1, 2], snd (net_run [NetUp None 1 ''en0'', NetUp (Some 2) 1 ''en1'', NetDown]
         (snd (RawTcp_Init (Some 1) 1 0 (new_raw_tcp ''en0'' True)))))"
    by (simp add: RawTcp_Init_def new_raw_tcp_def RawTcp_OnNetConnected_def RawTcp_OnNetDisconnected_def Let_def)
  show "RawTcp_Close (snd (net_run [NetUp None 1 ''en0'', NetUp (Some 2) 1 ''en1'', NetDown]
         (snd (RawTcp_Init (Some 1) 1 0 (new_raw_tcp ''en0'' True))))) = ([], snd (RawTcp_Close (snd (net_run [NetUp None 1 ''en0'', NetUp (Some 2) 1 ''en1'', NetDown]
         (snd (RawTcp_Init (Some 1) 1 0 (new_raw_tcp ''en0'' True)))))))"
    by (simp add: RawTcp_Init_def new_raw_tcp_def RawTcp_OnNetConnected_def RawTcp_OnNetDisconnected_def RawTcp_Close_def Let_def)
qed

end
