(* ===== verification/App_Group.thy ===== *)
theory App_Group
  imports Net_Group R_Conn
begin

section \<open>Application groups and keep-alive\<close>

text \<open>
  \<open>conn/IAppGroup\<close> joins the two halves of rsock: the connections of applications (\<open>CConn\<close> on
  the client, \<open>SConn\<close> on the server), kept by conversation, and a group of network connections
  that carries their packets. It owns the helpers for resets (\<open>callbacks/ConnReset\<close>) and for
  keep-alive requests (\<open>callbacks/NetConnKeepAlive\<close>), which call back into it; the helpers have
  no state but the map of open requests, so that all of them act on one record.

  \<open>ClientGroup\<close> and \<open>SubGroup\<close> are the two subclasses; \<open>ag_isClient\<close> tells which virtual functions
  are meant. Objects live in heaps, a pointer is an address, and a pointer that is followed
  after its object was deleted, a null pointer or a failed assertion is \<^const>\<open>None\<close>.
  Data that comes in may be answered before the call returns: the network connection that
  received it is looked up again afterwards, as its object may have changed.
\<close>

subsection \<open>Data\<close>

datatype sock_addr = AfInet u32 u16 | AfUnix string

record app_conn =
  ac_key :: string
  ac_conv :: u32
  ac_stat :: data_stat
  ac_inited :: bool
  ac_outputCb :: bool
  ac_onRecvCb :: bool
  ac_addr :: sock_addr
  ac_udp :: "handle option"

record app_group =
  ag_key :: string
  ag_isClient :: bool
  ag_stat :: data_stat
  ag_head :: enc_head
  ag_mConns :: "(string, nat) smap"
  ag_heap :: "nat \<Rightarrow> app_conn option"
  ag_closed :: "handle list"
  ag_net :: net_group
  ag_netChecks :: nat
  ag_reqMap :: "(u64, int) smap"
  ag_online :: bool
  ag_convMap :: "(u32, nat) smap"
  ag_convCounter :: u32
  ag_target :: sock_addr

text \<open>
  What a call depends on besides the group: the byte order, the clock, the random numbers
  (one list for each request of a keep-alive round, indexed by the key it is about; index 0 for all
  other packets), the way down to \<open>RConn\<close>, the sockets of the applications, \<open>CreateNetConn\<close> of the
  subclass of \<open>INetGroup\<close>, and the results of \<open>new\<close> and \<open>om_new_udp\<close>.
\<close>

record 's env =
  en_le :: bool
  en_now :: u64
  en_rand :: "u64 \<Rightarrow> nat list"
  en_out :: "'s conn_cb"
  en_udp :: "handle option \<Rightarrow> sock_addr \<Rightarrow> byte list \<Rightarrow> 's \<Rightarrow> 's"
  en_un :: "byte list \<Rightarrow> 's \<Rightarrow> int \<times> 's"
  en_create :: "u64 \<Rightarrow> any_info \<Rightarrow> (nat \<times> net_conn) option"
  en_fresh :: nat
  en_newUdp :: handle

definition MAX_RETRY :: int where "MAX_RETRY = 3"
definition REQUEST_DELAY :: int where "REQUEST_DELAY = 15000"

definition new_app_group :: "string \<Rightarrow> bool \<Rightarrow> byte list \<Rightarrow> net_group \<Rightarrow> sock_addr \<Rightarrow> app_group option" where
  "new_app_group groupId client idb net target = do {
     idb \<leftarrow> Str2IdBuf idb;
     Some \<lparr>ag_key = groupId, ag_isClient = client, ag_stat = new_stat, ag_head = new_head\<lparr>eh_id := idb\<rparr>, ag_mConns = [],
       ag_heap = (\<lambda>_. None), ag_closed = [], ag_net = net, ag_netChecks = 0, ag_reqMap = [], ag_online = True,
       ag_convMap = [], ag_convCounter = 1, ag_target = target\<rparr> }"

definition app_set :: "nat \<Rightarrow> app_conn \<Rightarrow> app_group \<Rightarrow> app_group" where
  "app_set a c A = A\<lparr>ag_heap := (ag_heap A)(a := Some c)\<rparr>"

subsection \<open>Sending\<close>

text \<open>
  \<open>CNetGroup::Send\<close> asks the route service to look at the network when there is no connection;
  \<open>INetGroup::Send\<close>, which the server uses, does not.
\<close>

definition App_Send :: "'s env \<Rightarrow> u64 \<Rightarrow> byte list \<Rightarrow> enc_head \<Rightarrow> app_group \<Rightarrow> 's
    \<Rightarrow> (int \<times> app_group \<times> enc_head \<times> 's) option" where
  "App_Send E k b head A s = do {
     (n, g, head, s) \<leftarrow> Net_Send (en_rand E k) (en_now E) (en_out E) b head (ag_net A) s;
     Some (n, A\<lparr>ag_net := g, ag_stat := afterSend n (ag_stat A),
       ag_netChecks := (if ag_isClient A \<and> n = ERR_NO_CONN then ag_netChecks A + 1 else ag_netChecks A)\<rparr>, head, s) }"

definition doSendCmd :: "'s env \<Rightarrow> u64 \<Rightarrow> u8 \<Rightarrow> byte list \<Rightarrow> app_group \<Rightarrow> 's \<Rightarrow> (int \<times> app_group \<times> 's) option" where
  "doSendCmd E k cmd b A s = do {
     (n, A, head, s) \<leftarrow> App_Send E k b ((ag_head A)\<lparr>eh_cmd := cmd\<rparr>) A s;
     Some (n, A\<lparr>ag_head := head\<lparr>eh_cmd := TYPE_DATA\<rparr>\<rparr>, s) }"

definition App_SendNetConnReset :: "'s env \<Rightarrow> byte list \<Rightarrow> u64 \<Rightarrow> app_group \<Rightarrow> 's \<Rightarrow> (int \<times> app_group \<times> 's) option" where
  "App_SendNetConnReset E b key A s = do {
     (n, g, head, s) \<leftarrow> Net_SendNetConnReset (en_rand E 0) (en_now E) (en_out E) b
        ((ag_head A)\<lparr>eh_cmd := TYPE_NETCONN_RST\<rparr>) key (ag_net A) s;
     Some (n, A\<lparr>ag_net := g, ag_head := head\<lparr>eh_cmd := TYPE_DATA\<rparr>\<rparr>, s) }"

text \<open>\<open>SConn\<close> and \<open>CConn\<close> pass themselves; the conversation goes into the group's head.\<close>

definition cconSend :: "'s env \<Rightarrow> byte list \<Rightarrow> nat \<Rightarrow> app_group \<Rightarrow> 's \<Rightarrow> (int \<times> app_group \<times> 's) option" where
  "cconSend E b a A s = do {
     c \<leftarrow> ag_heap A a;
     (n, A, head, s) \<leftarrow> App_Send E 0 b ((ag_head A)\<lparr>eh_conv := ac_conv c\<rparr>) A s;
     Some (n, A\<lparr>ag_head := head\<rparr>, s) }"

definition AppConn_Send :: "'s env \<Rightarrow> byte list \<Rightarrow> nat \<Rightarrow> app_group \<Rightarrow> 's \<Rightarrow> (int \<times> app_group \<times> 's) option" where
  "AppConn_Send E b a A s = do {
     c \<leftarrow> ag_heap A a;
     if \<not> ac_inited c then None
     else do {
       (n, A, s) \<leftarrow> (if ac_outputCb c then cconSend E b a A s else Some (0, A, s));
       c \<leftarrow> ag_heap A a;
       Some (n, app_set a (c\<lparr>ac_stat := afterSend n (ac_stat c)\<rparr>) A, s) } }"

subsection \<open>Resets\<close>

definition key_buf :: "bool \<Rightarrow> nat \<Rightarrow> u64 \<Rightarrow> byte list option" where
  "key_buf le sz key = do { (b, p) \<leftarrow> EncodeKey le (replicate sz 0) 0 key; Some (take p b) }"

definition SendNetConnRst :: "'s env \<Rightarrow> u64 \<Rightarrow> app_group \<Rightarrow> 's \<Rightarrow> (int \<times> app_group \<times> 's) option" where
  "SendNetConnRst E key A s = do {
     b \<leftarrow> key_buf (en_le E) OM_MAX_PKT_SIZE key;
     App_SendNetConnReset E b key A s }"

definition SendConvRst :: "'s env \<Rightarrow> u32 \<Rightarrow> app_group \<Rightarrow> 's \<Rightarrow> (int \<times> app_group \<times> 's) option" where
  "SendConvRst E conv A s = do {
     (b, _) \<leftarrow> encode_uint32 (en_le E) conv (replicate 4 0) 0;
     doSendCmd E 0 TYPE_CONV_RST b A s }"

definition App_ConnOfKey :: "app_group \<Rightarrow> string \<Rightarrow> nat option" where
  "App_ConnOfKey A key = map_option snd (map_find (<) key (ag_mConns A))"

definition App_RemoveConn :: "nat \<Rightarrow> app_group \<Rightarrow> (bool \<times> app_group) option" where
  "App_RemoveConn a A = do {
     c \<leftarrow> ag_heap A a;
     let ok = map_has (<) (ac_key c) (ag_mConns A);
     let A = app_set a (c\<lparr>ac_onRecvCb := False, ac_outputCb := False\<rparr>) (A\<lparr>ag_mConns := map_erase (<) (ac_key c) (ag_mConns A)\<rparr>);
     Some (ok, if ag_isClient A then A\<lparr>ag_convMap := map_erase (<) (ac_conv c) (ag_convMap A)\<rparr> else A) }"

text \<open>\<open>RemoveConn\<close>, \<open>Close\<close> and \<open>delete\<close>.\<close>

definition App_CloseConn :: "nat \<Rightarrow> app_group \<Rightarrow> app_group option" where
  "App_CloseConn a A = do {
     c \<leftarrow> ag_heap A a;
     if ac_key c = ag_key A \<or> App_ConnOfKey A (ac_key c) \<noteq> Some a then None
     else do {
       (_, A) \<leftarrow> App_RemoveConn a A;
       Some (A\<lparr>ag_heap := (ag_heap A)(a := None),
         ag_closed := ag_closed A @ (case ac_udp c of None \<Rightarrow> [] | Some h \<Rightarrow> [h])\<rparr>) } }"

definition OnRecvConvRst :: "any_info \<Rightarrow> u32 \<Rightarrow> app_group \<Rightarrow> (int \<times> app_group) option" where
  "OnRecvConvRst src rstConv A =
     (case App_ConnOfKey A (BuildConvKey (ci_dst (info_base src)) rstConv) of
        Some a \<Rightarrow> do { A \<leftarrow> App_CloseConn a A; Some (0, A) }
      | None \<Rightarrow> Some (-1, A))"

text \<open>\<open>NotifyErr\<close> on a connection of the network group.\<close>

definition notify_conn :: "int \<Rightarrow> nat \<Rightarrow> app_group \<Rightarrow> app_group option" where
  "notify_conn err a A = do {
     c \<leftarrow> ng_heap (ag_net A) a;
     Some (A\<lparr>ag_net := set_conn a (NotifyErr err c) (ag_net A)\<rparr>) }"

definition OnRecvNetConnRst :: "u64 \<Rightarrow> app_group \<Rightarrow> (int \<times> app_group) option" where
  "OnRecvNetConnRst key A = do {
     conn \<leftarrow> ConnOfIntKey (ag_net A) key;
     case conn of
       Some a \<Rightarrow> do { A \<leftarrow> notify_conn ERR_FIN_RST a A; Some (0, A) }
     | None \<Rightarrow> Some (-1, A) }"

definition ConnReset_Input :: "bool \<Rightarrow> u8 \<Rightarrow> byte list \<Rightarrow> any_info \<Rightarrow> app_group \<Rightarrow> (int \<times> app_group) option" where
  "ConnReset_Input le cmd b info A =
     (if cmd = TYPE_CONV_RST then
        if length b \<ge> 4 then do { (conv, _) \<leftarrow> decode_uint32 le b 0; OnRecvConvRst info conv A }
        else Some (-1, A)
      else if cmd = TYPE_NETCONN_RST then do {
        (key, n) \<leftarrow> DecodeKeySafe le (int (length b)) b 0;
        case key of Some key \<Rightarrow> if n > 0 then OnRecvNetConnRst key A else Some (-1, A) | None \<Rightarrow> Some (-1, A) }
      else None)"

subsection \<open>Keep-alive\<close>

definition RemoveRequest :: "u64 \<Rightarrow> app_group \<Rightarrow> app_group" where
  "RemoveRequest key A = A\<lparr>ag_reqMap := map_erase (<) key (ag_reqMap A)\<rparr>"

definition RemoveAllRequest :: "app_group \<Rightarrow> app_group" where
  "RemoveAllRequest A = A\<lparr>ag_reqMap := []\<rparr>"

definition KeepAlive_OnNetConnected :: "app_group \<Rightarrow> app_group" where
  "KeepAlive_OnNetConnected A = RemoveAllRequest (A\<lparr>ag_online := True\<rparr>)"

definition KeepAlive_OnNetDisconnected :: "app_group \<Rightarrow> app_group" where
  "KeepAlive_OnNetDisconnected A = RemoveAllRequest (A\<lparr>ag_online := False\<rparr>)"

definition SendResponse :: "'s env \<Rightarrow> u64 \<Rightarrow> app_group \<Rightarrow> 's \<Rightarrow> (int \<times> app_group \<times> 's) option" where
  "SendResponse E key A s = do { b \<leftarrow> key_buf (en_le E) 32 key; doSendCmd E 0 TYPE_KEEP_ALIVE_RESP b A s }"

definition SendRequest :: "'s env \<Rightarrow> u64 \<Rightarrow> app_group \<Rightarrow> 's \<Rightarrow> (int \<times> app_group \<times> 's) option" where
  "SendRequest E key A s = do { b \<leftarrow> key_buf (en_le E) 32 key; doSendCmd E key TYPE_KEEP_ALIVE_REQ b A s }"

definition OnRecvResponse :: "u64 \<Rightarrow> app_group \<Rightarrow> app_group option" where
  "OnRecvResponse key A = do { _ \<leftarrow> ConnOfIntKey (ag_net A) key; Some (RemoveRequest key A) }"

definition KeepAlive_Input :: "'s env \<Rightarrow> u8 \<Rightarrow> byte list \<Rightarrow> app_group \<Rightarrow> 's \<Rightarrow> (int \<times> app_group \<times> 's) option" where
  "KeepAlive_Input E cmd b A s = do {
     (key, n) \<leftarrow> DecodeKeySafe (en_le E) (int (length b)) b 0;
     case key of
       None \<Rightarrow> Some (-1, A, s)
     | Some key \<Rightarrow>
         if n = 0 then Some (-1, A, s)
         else if cmd = TYPE_KEEP_ALIVE_REQ then do {
           conn \<leftarrow> ConnOfIntKey (ag_net A) key;
           (_, A, s) \<leftarrow> (if conn \<noteq> None then SendResponse E key A s else SendNetConnRst E key A s);
           Some (int (length b), A, s) }
         else if cmd = TYPE_KEEP_ALIVE_RESP then do {
           A \<leftarrow> OnRecvResponse key A;
           Some (int (length b), A, s) }
         else Some (-1, A, s) }"

primrec remove_invalid :: "(u64, int) smap \<Rightarrow> app_group \<Rightarrow> app_group option" where
  "remove_invalid [] A = Some A"
| "remove_invalid (e # es) A = do {
     conn \<leftarrow> ConnOfIntKey (ag_net A) (fst e);
     remove_invalid es (if conn = None then RemoveRequest (fst e) A else A) }"

definition removeInvalidRequest :: "app_group \<Rightarrow> app_group option" where
  "removeInvalidRequest A = remove_invalid (ag_reqMap A) A"

text \<open>The difference of the two times is stored in an \<open>int\<close>.\<close>

definition canSendRequest :: "net_conn \<Rightarrow> u64 \<Rightarrow> bool" where
  "canSendRequest c timestampMs \<longleftrightarrow> \<not> nc_new c \<and> timestampMs > nc_established c
     \<and> sint (ucast (timestampMs - nc_established c) :: u32) \<ge> REQUEST_DELAY"

text \<open>
  The first loop runs over a copy of the connections; the pointers in the copy stay valid even if
  a request that is sent takes one of them out of the group.
\<close>

primrec request_loop :: "'s env \<Rightarrow> u64 \<Rightarrow> nat list \<Rightarrow> app_group \<Rightarrow> 's \<Rightarrow> (app_group \<times> 's) option" where
  "request_loop E ts [] A s = Some (A, s)"
| "request_loop E ts (a # as) A s = do {
     c \<leftarrow> ng_heap (ag_net A) a;
     let key = nc_intKey c;
     (A, s) \<leftarrow>
       (if canSendRequest c ts then
          case map_find (<) key (ag_reqMap A) of
            Some (_, n) \<Rightarrow>
              (let A = A\<lparr>ag_reqMap := map_assign (<) key (n + 1) (ag_reqMap A)\<rparr> in
               if n + 1 < MAX_RETRY then do { (_, A, s) \<leftarrow> SendRequest E key A s; Some (A, s) } else Some (A, s))
          | None \<Rightarrow>
              (let A = A\<lparr>ag_reqMap := map_emplace (<) key 0 (ag_reqMap A)\<rparr> in
               do { (_, A, s) \<leftarrow> SendRequest E key A s; Some (A, s) })
        else Some (A, s));
     request_loop E ts as A s }"

definition onNetConnDead :: "u64 \<Rightarrow> app_group \<Rightarrow> app_group option" where
  "onNetConnDead key A = do {
     conn \<leftarrow> ConnOfIntKey (ag_net A) key;
     case conn of Some a \<Rightarrow> notify_conn ERR_TIMEOUT a A | None \<Rightarrow> Some A }"

primrec timeout_loop :: "(u64, int) smap \<Rightarrow> app_group \<Rightarrow> app_group option" where
  "timeout_loop [] A = Some A"
| "timeout_loop (e # es) A = do {
     A \<leftarrow> (if snd e \<ge> MAX_RETRY then onNetConnDead (fst e) (RemoveRequest (fst e) A) else Some A);
     timeout_loop es A }"

definition KeepAlive_OnFlush :: "'s env \<Rightarrow> u64 \<Rightarrow> app_group \<Rightarrow> 's \<Rightarrow> (app_group \<times> 's) option" where
  "KeepAlive_OnFlush E ts A s = do {
     A \<leftarrow> removeInvalidRequest A;
     if \<not> ag_online A then Some (A, s)
     else do {
       (A, s) \<leftarrow> request_loop E ts (map snd (ng_mConns (ag_net A))) A s;
       A \<leftarrow> timeout_loop (ag_reqMap A) A;
       Some (A, s) } }"

subsection \<open>Receiving\<close>

text \<open>
  \<open>ClientGroup::send2Origin\<close>. \<open>unSendOrigin\<close> passes the address of its pointer instead of the
  pointer, so that the destination does not reach the socket.
\<close>

definition send2Origin :: "'s env \<Rightarrow> byte list \<Rightarrow> sock_addr \<Rightarrow> 's \<Rightarrow> int \<times> 's" where
  "send2Origin E b addr s =
     (case addr of AfUnix _ \<Rightarrow> en_un E b s | AfInet _ _ \<Rightarrow> (int (length b), en_udp E None addr b s))"

text \<open>
  \<open>Input\<close> of an application connection: \<open>SConn::OnRecv\<close> sends to the target, \<open>CConn::OnRecv\<close>
  calls \<open>subconnRecv\<close>.
\<close>

definition AppConn_Input :: "'s env \<Rightarrow> byte list \<Rightarrow> nat \<Rightarrow> app_group \<Rightarrow> 's \<Rightarrow> (int \<times> app_group \<times> 's) option" where
  "AppConn_Input E b a A s = do {
     c \<leftarrow> ag_heap A a;
     if \<not> ac_inited c then None
     else (let (n, s) =
         (if ag_isClient A then if ac_onRecvCb c then send2Origin E b (ac_addr c) s else (0, s)
          else if b \<noteq> [] then (int (length b), en_udp E (ac_udp c) (ac_addr c) b s) else (0, s))
       in Some (n, app_set a (c\<lparr>ac_stat := afterInput n (ac_stat c)\<rparr>) A, s)) }"

definition App_AddConn :: "nat \<Rightarrow> app_conn \<Rightarrow> bool \<Rightarrow> app_group \<Rightarrow> app_group" where
  "App_AddConn a c recv A =
     app_set a (c\<lparr>ac_outputCb := True, ac_onRecvCb := (recv \<or> ac_onRecvCb c)\<rparr>)
       (A\<lparr>ag_mConns := map_emplace (<) (ac_key c) a (ag_mConns A)\<rparr>)"

definition new_SConn :: "string \<Rightarrow> sock_addr \<Rightarrow> u32 \<Rightarrow> handle \<Rightarrow> app_conn" where
  "new_SConn key target conv udp = \<lparr>ac_key = key, ac_conv = conv, ac_stat = new_stat, ac_inited = True,
     ac_outputCb = False, ac_onRecvCb = False, ac_addr = target, ac_udp = Some udp\<rparr>"

definition SubGroup_newConn :: "'s env \<Rightarrow> string \<Rightarrow> u32 \<Rightarrow> app_group \<Rightarrow> nat \<times> app_group" where
  "SubGroup_newConn E key conv A =
     (en_fresh E, App_AddConn (en_fresh E) (new_SConn key (ag_target A) conv (en_newUdp E)) False A)"

definition SubGroup_OnRecv :: "'s env \<Rightarrow> any_info \<Rightarrow> byte list \<Rightarrow> app_group \<Rightarrow> 's \<Rightarrow> (int \<times> app_group \<times> 's) option" where
  "SubGroup_OnRecv E info b A s =
     (if b = [] then Some (0, A, s)
      else do {
        head \<leftarrow> ci_head (info_base info);
        let key = BuildConvKey (ci_dst (info_base info)) (eh_conv head);
        let (a, A) = (case App_ConnOfKey A key of Some a \<Rightarrow> (a, A) | None \<Rightarrow> SubGroup_newConn E key (eh_conv head) A);
        AppConn_Input E b a A s })"

definition ClientGroup_OnRecv :: "'s env \<Rightarrow> any_info \<Rightarrow> byte list \<Rightarrow> app_group \<Rightarrow> 's \<Rightarrow> (int \<times> app_group \<times> 's) option" where
  "ClientGroup_OnRecv E info b A s =
     (if b = [] then None
      else do {
        head \<leftarrow> ci_head (info_base info);
        case map_find (<) (eh_conv head) (ag_convMap A) of
          Some (_, a) \<Rightarrow> AppConn_Input E b a A s
        | None \<Rightarrow> SendConvRst E (eh_conv head) A s })"

definition App_OnRecv :: "'s env \<Rightarrow> any_info \<Rightarrow> byte list \<Rightarrow> app_group \<Rightarrow> 's \<Rightarrow> (int \<times> app_group \<times> 's) option" where
  "App_OnRecv E info b A s = (if ag_isClient A then ClientGroup_OnRecv E info b A s else SubGroup_OnRecv E info b A s)"

text \<open>
  \<open>INetGroup::Input\<close> with the group's own \<open>OnRecv\<close> as the callback of its connections: find or
  create the connection, let the data through, then update the connection (\<open>FakeTcp::OnRecv\<close>,
  \<open>IConn::Input\<close>) and the statistics of the network group.
\<close>

definition find_or_create :: "'s env \<Rightarrow> any_info \<Rightarrow> u64 \<Rightarrow> net_group \<Rightarrow> (nat option \<times> net_group) option" where
  "find_or_create E info key g = do {
     conn \<leftarrow> ConnOfIntKey g key;
     case conn of
       Some a \<Rightarrow> Some (Some a, g)
     | None \<Rightarrow> (case en_create E key info of
           Some (a, c) \<Rightarrow> do { g \<leftarrow> AddNetConn a (set_conn a c g); Some (Some a, g) }
         | None \<Rightarrow> Some (None, g)) }"

text \<open>The casts to \<open>TcpInfo\<close> of \<open>FakeTcp::OnRecv\<close> are undefined for the info of a UDP packet.\<close>

definition may_recv :: "any_info \<Rightarrow> net_conn \<Rightarrow> bool" where
  "may_recv info c \<longleftrightarrow> nc_inited c \<and> (IsUdp info \<longrightarrow> IsUdp (nc_info c))"

definition after_recv :: "int \<Rightarrow> any_info \<Rightarrow> net_conn \<Rightarrow> net_conn" where
  "after_recv n info c =
     (let c = (case (nc_info c, info) of
          (TcpI m, TcpI i) \<Rightarrow>
            if n \<ge> 0 \<and> ti_ack m < ti_seq i then c\<lparr>nc_info := TcpI (UpdateAck m (ti_seq i))\<rparr> else c
        | _ \<Rightarrow> c)
      in c\<lparr>nc_stat := afterInput n (nc_stat c)\<rparr>)"

definition App_NetInput :: "'s env \<Rightarrow> any_info \<Rightarrow> byte list \<Rightarrow> app_group \<Rightarrow> 's \<Rightarrow> (int \<times> app_group \<times> 's) option" where
  "App_NetInput E info b A s =
     (if b = [] then Some (0, A, s)
      else do {
        head \<leftarrow> ci_head (info_base info);
        (conn, g) \<leftarrow> find_or_create E info (eh_key head) (ag_net A);
        let A = A\<lparr>ag_net := g\<rparr>;
        case conn of
          Some a \<Rightarrow> do {
            c \<leftarrow> ng_heap g a;
            if \<not> may_recv info c then None
            else do {
              (n, A, s) \<leftarrow> (if nc_onRecvCb c then App_OnRecv E info b A s else Some (0, A, s));
              c \<leftarrow> ng_heap (ag_net A) a;
              let g = set_conn a (after_recv n info c) (ag_net A);
              Some (n, A\<lparr>ag_net := g\<lparr>ng_stat := afterInput n (ng_stat g)\<rparr>\<rparr>, s) } }
        | None \<Rightarrow> do {
            (_, A, s) \<leftarrow> App_OnRecv E info b A s;
            Some (ERR_NO_CONN, A, s) } })"

definition App_Input :: "'s env \<Rightarrow> any_info \<Rightarrow> byte list \<Rightarrow> app_group \<Rightarrow> 's \<Rightarrow> (int \<times> app_group \<times> 's) option" where
  "App_Input E info b A s = do {
     head \<leftarrow> ci_head (info_base info);
     if eh_cmd head = TYPE_DATA then do {
       (n, A, s) \<leftarrow> App_NetInput E info b A s;
       if n > 0 then Some (n, A\<lparr>ag_stat := afterInput n (ag_stat A)\<rparr>, s)
       else if n = ERR_NO_CONN then do { (_, A, s) \<leftarrow> SendNetConnRst E (eh_key head) A s; Some (n, A, s) }
       else Some (n, A, s) }
     else if IsRstFlag (eh_cmd head) then do {
       (n, A) \<leftarrow> ConnReset_Input (en_le E) (eh_cmd head) b info A;
       Some (n, A, s) }
     else if IsKeepAliveFlag (eh_cmd head) then KeepAlive_Input E (eh_cmd head) b A s
     else Some (-1, A, s) }"

definition ProcessTcpFinOrRst :: "tcp_info \<Rightarrow> app_group \<Rightarrow> (bool \<times> app_group) option" where
  "ProcessTcpFinOrRst info A = do {
     key \<leftarrow> KeyForConnInfo (TcpI info);
     conn \<leftarrow> ConnOfIntKey (ag_net A) key;
     case conn of
       None \<Rightarrow> Some (False, A)
     | Some a \<Rightarrow> do {
         c \<leftarrow> ng_heap (ag_net A) a;
         (n, A) \<leftarrow> OnRecvNetConnRst (nc_intKey c) A;
         Some (n = 0, A) } }"

subsection \<open>The client's side of the applications\<close>

definition CConn_BuildKey :: "sock_addr \<Rightarrow> string" where
  "CConn_BuildKey addr =
     (case addr of
        AfInet ip port \<Rightarrow> to_string (unat (push_bit 32 (ucast ip :: u64) OR ucast port))
      | AfUnix path \<Rightarrow> path)"

definition new_CConn :: "string \<Rightarrow> sock_addr \<Rightarrow> u32 \<Rightarrow> app_conn" where
  "new_CConn key addr conv = \<lparr>ac_key = key, ac_conv = conv, ac_stat = new_stat, ac_inited = True,
     ac_outputCb = False, ac_onRecvCb = False, ac_addr = addr, ac_udp = None\<rparr>"

definition ClientGroup_newConn :: "'s env \<Rightarrow> string \<Rightarrow> sock_addr \<Rightarrow> u32 \<Rightarrow> app_group \<Rightarrow> nat \<times> app_group" where
  "ClientGroup_newConn E key addr conv A =
     (let a = en_fresh E; A = App_AddConn a (new_CConn key addr conv) True A in
      (a, A\<lparr>ag_convMap := map_emplace (<) conv a (ag_convMap A)\<rparr>))"

definition onLocalRecv :: "'s env \<Rightarrow> byte list \<Rightarrow> sock_addr \<Rightarrow> app_group \<Rightarrow> 's \<Rightarrow> (app_group \<times> 's) option" where
  "onLocalRecv E b addr A s = do {
     let key = CConn_BuildKey addr;
     let (a, A) = (case App_ConnOfKey A key of
         Some a \<Rightarrow> (a, A)
       | None \<Rightarrow> (let A = A\<lparr>ag_convCounter := ag_convCounter A + 1\<rparr> in ClientGroup_newConn E key addr (ag_convCounter A) A));
     (_, A, s) \<leftarrow> AppConn_Send E b a A s;
     Some (A, s) }"

text \<open>\<open>SConn::udpRecvCb\<close> on the server: what the target answers is sent to the peer.\<close>

definition udpRecvCb :: "'s env \<Rightarrow> byte list \<Rightarrow> nat \<Rightarrow> app_group \<Rightarrow> 's \<Rightarrow> (app_group \<times> 's) option" where
  "udpRecvCb E b a A s = (if b = [] then Some (A, s) else do { (_, A, s) \<leftarrow> AppConn_Send E b a A s; Some (A, s) })"

subsection \<open>Flushing and closing\<close>

definition app_alive_at :: "app_group \<Rightarrow> nat \<Rightarrow> bool" where
  "app_alive_at A a \<longleftrightarrow> (case ag_heap A a of None \<Rightarrow> False | Some c \<Rightarrow> ds_mAlive (ac_stat c))"

primrec close_all :: "nat list \<Rightarrow> app_group \<Rightarrow> app_group option" where
  "close_all [] A = Some A"
| "close_all (a # as) A = do { A \<leftarrow> App_CloseConn a A; close_all as A }"

primrec app_flush_conns :: "nat list \<Rightarrow> app_group \<Rightarrow> app_group option" where
  "app_flush_conns [] A = Some A"
| "app_flush_conns (a # as) A = do {
     c \<leftarrow> ag_heap A a;
     app_flush_conns as (app_set a (c\<lparr>ac_stat := Stat_Flush (ac_stat c)\<rparr>) A) }"

definition App_Flush :: "u64 \<Rightarrow> app_group \<Rightarrow> app_group option" where
  "App_Flush now A = do {
     let fails = filter (\<lambda>a. \<not> app_alive_at A a) (map snd (ag_mConns A));
     A \<leftarrow> close_all fails A;
     A \<leftarrow> app_flush_conns (map snd (ag_mConns A)) A;
     g \<leftarrow> Group_Flush now (ag_net A);
     Some (A\<lparr>ag_net := g\<rparr>) }"

definition App_Alive :: "app_group \<Rightarrow> bool" where
  "App_Alive A \<longleftrightarrow>
     (if ag_mConns A \<noteq> [] then Group_Alive (ag_net A) \<and> list_ex (app_alive_at A \<circ> snd) (ag_mConns A)
      else Group_Alive (ag_net A))"

text \<open>\<open>IGroup::Close\<close>: all connections of applications are closed and deleted.\<close>

definition App_CloseConns :: "app_group \<Rightarrow> app_group option" where
  "App_CloseConns A = do { A \<leftarrow> close_all (map snd (ag_mConns A)) A; Some (A\<lparr>ag_mConns := []\<rparr>) }"

subsection \<open>What a send keeps\<close>

text \<open>
  A send may take dead connections out of the network group and changes the one it uses, but
  every object stays where it is, keeps its key and its state of life, and a live connection stays in
  the group.
\<close>

definition conn_kept :: "net_conn \<Rightarrow> net_conn \<Rightarrow> bool" where
  "conn_kept c c' \<longleftrightarrow> nc_intKey c' = nc_intKey c \<and> nc_established c' = nc_established c
     \<and> Conn_Alive c' = Conn_Alive c \<and> IsUdp (nc_info c') = IsUdp (nc_info c) \<and> nc_inited c' = nc_inited c
     \<and> (nc_new c' \<longrightarrow> nc_new c)"

definition net_kept :: "net_group \<Rightarrow> net_group \<Rightarrow> bool" where
  "net_kept g g' \<longleftrightarrow>
     (\<forall>a c. ng_heap g a = Some c \<longrightarrow> (\<exists>c'. ng_heap g' a = Some c' \<and> conn_kept c c'))
     \<and> (\<forall>a. ng_heap g a = None \<longrightarrow> ng_heap g' a = None)
     \<and> set (ng_mConnMap g') \<subseteq> set (ng_mConnMap g)
     \<and> (\<forall>e \<in> set (ng_mConnMap g). alive_at g (snd e) \<longrightarrow> e \<in> set (ng_mConnMap g'))
     \<and> length (ng_mConns g') \<le> length (ng_mConns g)"

lemma conn_kept_refl [simp]: "conn_kept c c"
  by (simp add: conn_kept_def)

lemma conn_kept_trans: "conn_kept c c' \<Longrightarrow> conn_kept c' c'' \<Longrightarrow> conn_kept c c''"
  by (simp add: conn_kept_def)

lemma net_kept_refl [simp]: "net_kept g g"
  by (simp add: net_kept_def)

lemma net_kept_alive: "net_kept g g' \<Longrightarrow> ng_heap g a \<noteq> None \<Longrightarrow> alive_at g' a = alive_at g a"
  unfolding net_kept_def alive_at_def conn_kept_def by (elim conjE) (metis option.case(2) option.exhaust)

lemma net_kept_trans:
  assumes "net_kept g g'" "net_kept g' g''" and wf: "net_wf g"
  shows "net_kept g g''"
  unfolding net_kept_def
proof (intro conjI allI impI ballI)
  fix a c assume "ng_heap g a = Some c"
  with assms(1) obtain c' where "ng_heap g' a = Some c'" "conn_kept c c'" unfolding net_kept_def by blast
  with assms(2) show "\<exists>c'. ng_heap g'' a = Some c' \<and> conn_kept c c'" unfolding net_kept_def by (meson conn_kept_trans)
next
  fix e assume e: "e \<in> set (ng_mConnMap g)" "alive_at g (snd e)"
  then have "e \<in> set (ng_mConnMap g')" using assms(1) unfolding net_kept_def by blast
  moreover have "ng_heap g (snd e) \<noteq> None" using e(2) by (auto simp: alive_at_def split: option.splits)
  ultimately show "e \<in> set (ng_mConnMap g'')"
    using assms(2) net_kept_alive [OF assms(1)] e(2) unfolding net_kept_def by blast
qed (use assms in \<open>auto simp: net_kept_def\<close>)

lemma kill_kept:
  assumes wf: "net_wf g" and now: "clock_ok now" and ka: "(k, a) \<in> set (ng_mConnMap g)" and dead: "\<not> alive_at g a"
    and run: "childConnErrCb now a g = Some g'"
  shows "net_wf g' \<and> net_kept g g' \<and> length (ng_mConns g') < length (ng_mConns g)"
proof -
  have r: "net_wf g'" "ng_mConns g' = map_erase (<) (StrForIntKey k) (ng_mConns g)"
      "ng_mConnMap g' = map_erase (<) k (ng_mConnMap g)" "\<forall>b. b \<noteq> a \<longrightarrow> ng_heap g' b = ng_heap g b"
    using childConnErrCb_ok [OF wf now ka] run by auto
  obtain c where c: "ng_heap g a = Some c" "nc_intKey c = k" "nc_inited c" using net_wf_conn [OF wf ka] by blast
  have ha: "ng_heap g' a = Some (c\<lparr>nc_onRecvCb := False, nc_outputCb := False\<rparr>)"
    using run Net_RemoveConn_ok [OF wf ka c(1)]
    by (auto simp: childConnErrCb_def set_conn_def Let_def split: Option.bind_splits)
  have kept: "conn_kept c (c\<lparr>nc_onRecvCb := False, nc_outputCb := False\<rparr>)"
    by (simp add: conn_kept_def Conn_Alive_def split: any_info.split)
  have "length (ng_mConns g') < length (ng_mConns g)"
  proof -
    have "(StrForIntKey k, a) \<in> set (ng_mConns g)" using net_wf_conn [OF wf ka] by blast
    then show ?thesis unfolding r(2) map_erase_def by (intro length_filter_less) auto
  qed
  moreover have "e \<in> set (ng_mConnMap g')" if e: "e \<in> set (ng_mConnMap g)" "alive_at g (snd e)" for e
  proof -
    have "snd e \<noteq> a" using e dead by auto
    then have "fst e \<noteq> k"
      using eq_key_imp_eq_value [OF std_less.wf_distinct, of "ng_mConnMap g" k a "snd e"] e(1) ka wf
      by (metis net_wf_def prod.collapse)
    then show ?thesis using e(1) r(3) by (simp add: set_map_erase)
  qed
  moreover have "\<exists>c'. ng_heap g' b = Some c' \<and> conn_kept d c'" if "ng_heap g b = Some d" for b d
    using that c(1) ha kept r(4) by (cases "b = a") auto
  moreover have "ng_heap g' b = None" if "ng_heap g b = None" for b
    using that c(1) r(4) by (cases "b = a") auto
  ultimately show ?thesis using r(1,3) by (auto simp: net_kept_def set_map_erase)
qed

lemma Conn_Send_kept:
  assumes "Conn_Send out c head b s = Some (n, c', head', s')" "nc_inited c"
  shows "conn_kept c c' \<and> conn_same c c'"
  using Conn_Send_ok [OF assms(2), of out head b s] assms(1) by (auto simp: conn_kept_def conn_same_def)

lemma set_conn_kept:
  assumes "ng_heap g a = Some c" "conn_kept c c'"
  shows "net_kept g (set_conn a c' g)"
  using assms by (auto simp: net_kept_def set_conn_def)

lemma net_kept_stat [simp]: "net_kept g (g'\<lparr>ng_stat := st\<rparr>) = net_kept g g'"
  by (simp add: net_kept_def)

lemma net_wf_stat [simp]: "net_wf (g\<lparr>ng_stat := st\<rparr>) = net_wf g"
  by (simp add: net_wf_def pending_dead_def)

lemma send_loop_kept:
  assumes "net_wf g" "clock_ok now" and "send_loop rs key now out b head g s = Some (n, g', head', s')"
  shows "net_wf g' \<and> net_kept g g' \<and> (n = ERR_NO_CONN \<longrightarrow> ng_mConns g' = [] \<or> (\<exists>i s. fst (out i b s) = ERR_NO_CONN))"
  using assms(1,3)
proof (induction rs arbitrary: g)
  case Nil
  then show ?case by (subst (asm) send_loop.simps) (simp split: if_splits)
next
  case (Cons r rs)
  show ?case
  proof (cases "ng_mConns g = []")
    case True
    then show ?thesis using Cons.prems by (subst (asm) send_loop.simps) simp
  next
    case False
    obtain x a c where p: "ng_mConns g ! (r mod length (ng_mConns g)) = (x, a)"
      and c: "ng_heap g a = Some c" "nc_inited c" "nc_outputCb c" "(nc_intKey c, a) \<in> set (ng_mConnMap g)"
      using net_wf_pick [OF Cons.prems(1) False] by metis
    note run = Cons.prems(2) [unfolded send_loop.simps [of "r # rs"]]
    consider (skip) "Conn_Alive c" "key \<noteq> 0 \<and> nc_intKey c = key" | (send) "Conn_Alive c" "\<not> (key \<noteq> 0 \<and> nc_intKey c = key)"
      | (dead) "\<not> Conn_Alive c" by blast
    then show ?thesis
    proof cases
      case skip
      then show ?thesis using Cons.IH [OF Cons.prems(1)] run False p c(1) by simp
    next
      case send
      let ?o = "out (set_head (Some (head\<lparr>eh_key := nc_intKey c\<rparr>)) (nc_info c)) b s"
      obtain c' where s: "Conn_Send out c head b s = Some (n, c', head', s')"
          "g' = (set_conn a c' g)\<lparr>ng_stat := afterSend n (ng_stat g)\<rparr>"
        using run False p c(1) send by (auto split: Option.bind_splits)
      have k: "conn_kept c c'" "conn_same c c'" using Conn_Send_kept [OF s(1) c(2)] by simp_all
      have "n = fst ?o" using Conn_Send_out [OF c(2,3), of out head b s] s(1) by auto
      then show ?thesis
        using set_conn_wf [OF Cons.prems(1) c(1) k(2)] set_conn_kept [OF c(1) k(1)] unfolding s(2) by auto
    next
      case dead
      obtain g1 where g1: "childConnErrCb now a g = Some g1" "send_loop rs key now out b head g1 s = Some (n, g', head', s')"
        using run False p c(1) dead by (auto split: Option.bind_splits)
      have "\<not> alive_at g a" using dead c(1) by (simp add: alive_at_def)
      from kill_kept [OF Cons.prems(1) assms(2) c(4) this g1(1)] have k: "net_wf g1" "net_kept g g1" by simp_all
      from Cons.IH [OF k(1) g1(2)] net_kept_trans [OF k(2) _ Cons.prems(1)] show ?thesis by blast
    qed
  qed
qed

subsection \<open>The invariant\<close>

text \<open>
  The network group is well-formed; every connection of the map is a live, initialised object
  under its own key, which is not the key of the group (a string of eight characters); the map of conversations
  points into the group; and the counters of open requests are not negative.
\<close>

definition app_wf :: "app_group \<Rightarrow> bool" where
  "app_wf A \<longleftrightarrow> net_wf (ag_net A) \<and> map_wf (<) (ag_mConns A) \<and> map_wf (<) (ag_convMap A) \<and> map_wf (<) (ag_reqMap A)
     \<and> length (ag_key A) = ID_BUF_SIZE
     \<and> (\<forall>(k, a) \<in> set (ag_mConns A). k \<noteq> ag_key A \<and> (\<exists>c. ag_heap A a = Some c \<and> ac_key c = k \<and> ac_inited c))
     \<and> (\<forall>(v, a) \<in> set (ag_convMap A). a \<in> snd ` set (ag_mConns A) \<and> (\<exists>c. ag_heap A a = Some c \<and> ac_conv c = v))
     \<and> (\<not> ag_isClient A \<longrightarrow> ag_convMap A = [])
     \<and> (\<forall>(k, n) \<in> set (ag_reqMap A). 0 \<le> n)"

text \<open>
  What a call relies on: a little-endian host, a clock below \<open>2 ^ 62\<close>, enough random numbers for the
  connections there are, and lower layers whose results are not the code of the group for \<open>no
  connection\<close>.
\<close>

definition env_ok :: "'s env \<Rightarrow> app_group \<Rightarrow> bool" where
  "env_ok E A \<longleftrightarrow> en_le E \<and> clock_ok (en_now E) \<and> (\<forall>k. length (ng_mConns (ag_net A)) < length (en_rand E k))
     \<and> (\<forall>i b s. fst (en_out E i b s) \<noteq> ERR_NO_CONN) \<and> (\<forall>b s. fst (en_un E b s) \<noteq> ERR_NO_CONN)"

definition app_rest :: "app_group \<Rightarrow> app_group \<Rightarrow> bool" where
  "app_rest A A' \<longleftrightarrow> ag_key A' = ag_key A \<and> ag_isClient A' = ag_isClient A \<and> ag_mConns A' = ag_mConns A
     \<and> ag_heap A' = ag_heap A \<and> ag_convMap A' = ag_convMap A \<and> ag_online A' = ag_online A
     \<and> ag_closed A' = ag_closed A \<and> ag_convCounter A' = ag_convCounter A"

definition app_step :: "app_group \<Rightarrow> app_group \<Rightarrow> bool" where
  "app_step A A' \<longleftrightarrow> app_rest A A' \<and> net_wf (ag_net A') \<and> net_kept (ag_net A) (ag_net A')"

lemma app_step_refl [simp]: "app_wf A \<Longrightarrow> app_step A A"
  by (simp add: app_step_def app_rest_def app_wf_def)

lemma app_step_trans: "app_wf A \<Longrightarrow> app_step A A' \<Longrightarrow> app_step A' A'' \<Longrightarrow> app_step A A''"
  unfolding app_step_def by (auto simp: app_rest_def app_wf_def intro: net_kept_trans)

lemma app_step_wf:
  assumes "app_wf A" "app_step A A'" "ag_reqMap A' = ag_reqMap A"
  shows "app_wf A'"
  using assms unfolding app_wf_def app_step_def app_rest_def by simp

lemma app_wf_reqMap:
  assumes "app_wf A" "map_wf (<) m" "\<forall>(k, n) \<in> set m. 0 \<le> n"
  shows "app_wf (A\<lparr>ag_reqMap := m\<rparr>)"
  using assms unfolding app_wf_def by simp

lemma env_ok_step: "env_ok E A \<Longrightarrow> app_step A A' \<Longrightarrow> env_ok E A'"
  by (auto simp: env_ok_def app_step_def net_kept_def intro: le_less_trans)

lemma App_Send_ok:
  assumes "app_wf A" "env_ok E A"
  shows "\<exists>n A' head' s'. App_Send E k b head A s = Some (n, A', head', s') \<and> app_step A A' \<and> ag_reqMap A' = ag_reqMap A
     \<and> (n = ERR_NO_CONN \<longrightarrow> ng_mConns (ag_net A') = [])"
proof (cases "b = []")
  case True
  then show ?thesis using assms(1)
    by (simp add: App_Send_def Net_Send_def doSend_def app_step_def app_rest_def app_wf_def ERR_NO_CONN_def)
next
  case False
  have wf: "net_wf (ag_net A)" and now: "clock_ok (en_now E)" and len: "length (ng_mConns (ag_net A)) \<le> length (en_rand E k)"
    using assms by (auto simp: app_wf_def env_ok_def less_imp_le)
  obtain n g head' s' where r: "send_loop (en_rand E k) 0 (en_now E) (en_out E) b head (ag_net A) s = Some (n, g, head', s')"
    using send_loop_ok [OF wf len now, of 0 "en_out E" b head s] by auto
  have "net_wf g" "net_kept (ag_net A) g" "n = ERR_NO_CONN \<longrightarrow> ng_mConns g = []"
    using send_loop_kept [OF wf now r] assms(2) by (auto simp: env_ok_def)
  then show ?thesis using r False
    by (simp add: App_Send_def Net_Send_def doSend_def app_step_def app_rest_def)
qed

lemma doSendCmd_ok:
  assumes "app_wf A" "env_ok E A"
  shows "\<exists>n A' s'. doSendCmd E k cmd b A s = Some (n, A', s') \<and> app_step A A' \<and> ag_reqMap A' = ag_reqMap A
     \<and> (n = ERR_NO_CONN \<longrightarrow> ng_mConns (ag_net A') = [])"
proof -
  obtain n A1 head' s' where r: "App_Send E k b ((ag_head A)\<lparr>eh_cmd := cmd\<rparr>) A s = Some (n, A1, head', s')"
      "app_step A A1" "ag_reqMap A1 = ag_reqMap A" "n = ERR_NO_CONN \<longrightarrow> ng_mConns (ag_net A1) = []"
    using App_Send_ok [OF assms, of k b "(ag_head A)\<lparr>eh_cmd := cmd\<rparr>" s] by (elim exE conjE) rule
  then show ?thesis by (simp add: doSendCmd_def app_step_def app_rest_def)
qed

lemma key_buf_ok: "8 \<le> sz \<Longrightarrow> \<exists>b. key_buf True sz key = Some b \<and> b \<noteq> []"
proof -
  assume sz: "8 \<le> sz"
  have "length (le64 key) = 8" by simp
  with put_bytes_fits [of 0 "le64 key" "replicate sz 0"] sz obtain b' where
    "put_bytes (replicate sz 0) 0 (le64 key) = Some (b', 8)" "length b' = sz" by auto
  with sz show ?thesis by (auto simp: key_buf_def EncodeKey_def encode_le)
qed

lemma SendRequest_ok:
  assumes "app_wf A" "env_ok E A"
  shows "\<exists>n A' s'. SendRequest E key A s = Some (n, A', s') \<and> app_step A A' \<and> ag_reqMap A' = ag_reqMap A"
proof -
  obtain b where b: "key_buf True 32 key = Some b" using key_buf_ok [of 32 key] by auto
  have "en_le E" using assms(2) by (simp add: env_ok_def)
  with b doSendCmd_ok [OF assms, of key TYPE_KEEP_ALIVE_REQ b s] show ?thesis
    by (simp add: SendRequest_def) blast
qed

subsection \<open>A round of keep-alive requests\<close>

text \<open>The open requests as a map from keys to the number of repetitions.\<close>

definition reqs :: "app_group \<Rightarrow> u64 \<Rightarrow> int option" where
  "reqs A = map_of (ag_reqMap A)"

definition bump :: "int option \<Rightarrow> int option" where
  "bump r = Some (case r of None \<Rightarrow> 0 | Some n \<Rightarrow> n + 1)"

lemma find_reqs: "map_find (<) k (ag_reqMap A) = map_option (Pair k) (reqs A k)"
  by (simp add: reqs_def std_less.find_map_of)

lemma map_of_assign: "map_of (map_assign (<) k v m) = (map_of m)(k \<mapsto> v)" for m :: "('k::linorder, 'v) smap"
  by (induction m) (auto simp: fun_upd_twist)

lemma emplace_assign:
  "map_find (<) k m = None \<Longrightarrow> map_emplace (<) k v m = map_assign (<) k v m" for m :: "('k::linorder, 'v) smap"
  by (induction m) (auto simp: key_equiv_def split: if_splits)

lemma set_assign: "set (map_assign lt k v m) \<subseteq> insert (k, v) (set m \<union> {(fst e, v) |e. e \<in> set m})"
  by (induction m) auto

lemma bump_wf:
  assumes "app_wf A" "reqs A k = r"
  shows "app_wf (A\<lparr>ag_reqMap := map_assign (<) k (the (bump r)) (ag_reqMap A)\<rparr>)"
    and "reqs (A\<lparr>ag_reqMap := map_assign (<) k (the (bump r)) (ag_reqMap A)\<rparr>) = (reqs A)(k := bump r)"
proof -
  have m: "map_wf (<) (ag_reqMap A)" "\<forall>(k, n) \<in> set (ag_reqMap A). 0 \<le> n" using assms(1) by (auto simp: app_wf_def)
  have "0 \<le> the (bump r)"
  proof (cases r)
    case (Some n)
    then have "(k, n) \<in> set (ag_reqMap A)" using assms(2) by (simp add: reqs_def map_of_SomeD)
    with Some m(2) show ?thesis by (auto simp: bump_def)
  qed (simp add: bump_def)
  then have "\<forall>(j, n) \<in> set (map_assign (<) k (the (bump r)) (ag_reqMap A)). 0 \<le> n"
    using m(2) set_assign [of "(<)" k "the (bump r)" "ag_reqMap A"] by fastforce
  with assms(1) m(1) show "app_wf (A\<lparr>ag_reqMap := map_assign (<) k (the (bump r)) (ag_reqMap A)\<rparr>)"
    by (intro app_wf_reqMap std_less.wf_assign)
  show "reqs (A\<lparr>ag_reqMap := map_assign (<) k (the (bump r)) (ag_reqMap A)\<rparr>) = (reqs A)(k := bump r)"
    by (simp add: reqs_def map_of_assign bump_def)
qed

lemma can_kept: "conn_kept c c' \<Longrightarrow> canSendRequest c ts \<Longrightarrow> canSendRequest c' ts"
  by (auto simp: conn_kept_def canSendRequest_def)

text \<open>One turn of the first loop, for a connection that may be asked.\<close>

lemma request_turn:
  fixes k :: u64
  assumes wf: "app_wf A" and env: "env_ok E A"
  defines "A1 \<equiv> A\<lparr>ag_reqMap := map_assign (<) k (the (bump (reqs A k))) (ag_reqMap A)\<rparr>"
  shows "\<exists>A' s'. (case map_find (<) k (ag_reqMap A) of
            Some (_, n) \<Rightarrow>
              (let A = A\<lparr>ag_reqMap := map_assign (<) k (n + 1) (ag_reqMap A)\<rparr> in
               if n + 1 < MAX_RETRY then do { (_, A, s) \<leftarrow> SendRequest E k A s; Some (A, s) } else Some (A, s))
          | None \<Rightarrow>
              (let A = A\<lparr>ag_reqMap := map_emplace (<) k 0 (ag_reqMap A)\<rparr> in
               do { (_, A, s) \<leftarrow> SendRequest E k A s; Some (A, s) })) = Some (A', s')
     \<and> app_wf A' \<and> app_step A A' \<and> reqs A' = (reqs A)(k := bump (reqs A k))"
proof -
  have w1: "app_wf A1" "reqs A1 = (reqs A)(k := bump (reqs A k))"
    using bump_wf [OF wf refl] by (simp_all add: A1_def)
  have st: "app_step A A1" using wf by (simp add: A1_def app_step_def app_rest_def app_wf_def)
  have e1: "env_ok E A1" using env by (simp add: env_ok_def A1_def)
  obtain n A2 s2 where r: "SendRequest E k A1 s = Some (n, A2, s2)" "app_step A1 A2" "ag_reqMap A2 = ag_reqMap A1"
    using SendRequest_ok [OF w1(1) e1, of k s] by (elim exE conjE) rule
  have w2: "app_wf A2" "app_step A A2" "reqs A2 = reqs A1"
    using app_step_wf [OF w1(1) r(2,3)] app_step_trans [OF wf st r(2)] r(3) by (simp_all add: reqs_def)
  show ?thesis
  proof (cases "reqs A k")
    case None
    then have "A\<lparr>ag_reqMap := map_emplace (<) k 0 (ag_reqMap A)\<rparr> = A1"
      by (simp add: A1_def bump_def emplace_assign find_reqs)
    with None r w1 w2 show ?thesis by (simp add: find_reqs)
  next
    case (Some n)
    then have "A\<lparr>ag_reqMap := map_assign (<) k (n + 1) (ag_reqMap A)\<rparr> = A1" by (simp add: A1_def bump_def)
    with Some r w1 w2 st show ?thesis by (simp add: find_reqs)
  qed
qed

text \<open>The turn of one connection.\<close>

lemma request_head:
  assumes "app_wf A" "env_ok E A" and c: "ng_heap (ag_net A) a = Some c"
  shows "\<exists>A1 s1. request_loop E ts (a # as) A s = request_loop E ts as A1 s1 \<and> app_wf A1 \<and> app_step A A1
    \<and> reqs A1 = (if canSendRequest c ts then (reqs A)(nc_intKey c := bump (reqs A (nc_intKey c))) else reqs A)"
proof (cases "canSendRequest c ts")
  case True
  let ?k = "nc_intKey c"
  from request_turn [OF assms(1,2), of ?k s] obtain A1 s1 where
    "(case map_find (<) ?k (ag_reqMap A) of
          Some (_, n) \<Rightarrow>
            (let A = A\<lparr>ag_reqMap := map_assign (<) ?k (n + 1) (ag_reqMap A)\<rparr> in
             if n + 1 < MAX_RETRY then do { (_, A, s) \<leftarrow> SendRequest E ?k A s; Some (A, s) } else Some (A, s))
        | None \<Rightarrow>
            (let A = A\<lparr>ag_reqMap := map_emplace (<) ?k 0 (ag_reqMap A)\<rparr> in
             do { (_, A, s) \<leftarrow> SendRequest E ?k A s; Some (A, s) })) = Some (A1, s1)"
    "app_wf A1" "app_step A A1" "reqs A1 = (reqs A)(?k := bump (reqs A ?k))"
    by (elim exE conjE) rule
  then show ?thesis using c True by (intro exI [of _ A1] exI [of _ s1]) (simp add: Let_def)
next
  case False
  then show ?thesis using c assms(1) by (intro exI [of _ A] exI [of _ s]) simp
qed

lemma request_loop_ok:
  assumes "app_wf A" "env_ok E A" and "\<forall>a \<in> set as. ng_heap (ag_net A) a \<noteq> None"
  shows "\<exists>A' s'. request_loop E ts as A s = Some (A', s') \<and> app_wf A' \<and> app_step A A'
     \<and> (\<forall>k. (\<forall>a \<in> set as. nc_intKey (the (ng_heap (ag_net A) a)) \<noteq> k) \<longrightarrow> reqs A' k = reqs A k)
     \<and> (distinct (map (\<lambda>a. nc_intKey (the (ng_heap (ag_net A) a))) as) \<longrightarrow>
          (\<forall>a \<in> set as. canSendRequest (the (ng_heap (ag_net A) a)) ts \<longrightarrow>
             (let k = nc_intKey (the (ng_heap (ag_net A) a)) in reqs A' k = bump (reqs A k))))"
  using assms
proof (induction as arbitrary: A s)
  case Nil
  then show ?case by simp
next
  case (Cons a as)
  obtain c where c: "ng_heap (ag_net A) a = Some c" using Cons.prems(3) by auto
  let ?k = "nc_intKey c"
  let ?key = "\<lambda>A a. nc_intKey (the (ng_heap (ag_net A) a))"
  obtain A1 s1 where t: "request_loop E ts (a # as) A s = request_loop E ts as A1 s1"
      "app_wf A1" "app_step A A1" "reqs A1 = (if canSendRequest c ts then (reqs A)(?k := bump (reqs A ?k)) else reqs A)"
    using request_head [OF Cons.prems(1,2) c, of ts as s] by (elim exE conjE) rule
  have nk: "net_kept (ag_net A) (ag_net A1)" using t(3) by (simp add: app_step_def)
  have kept: "ng_heap (ag_net A1) b \<noteq> None \<and> conn_kept (the (ng_heap (ag_net A) b)) (the (ng_heap (ag_net A1) b))"
    if "b \<in> set (a # as)" for b
    using that Cons.prems(3) nk by (fastforce simp: net_kept_def)
  then have keys: "map (?key A1) as = map (?key A) as" by (auto simp: conn_kept_def)
  have e1: "env_ok E A1" by (rule env_ok_step [OF Cons.prems(2) t(3)])
  have "\<exists>A' s'. request_loop E ts as A1 s1 = Some (A', s') \<and> app_wf A' \<and> app_step A1 A'
     \<and> (\<forall>k. (\<forall>a \<in> set as. ?key A1 a \<noteq> k) \<longrightarrow> reqs A' k = reqs A1 k)
     \<and> (distinct (map (?key A1) as) \<longrightarrow> (\<forall>a \<in> set as. canSendRequest (the (ng_heap (ag_net A1) a)) ts \<longrightarrow>
             (let k = ?key A1 a in reqs A' k = bump (reqs A1 k))))"
    using kept by (intro Cons.IH t(2) e1) auto
  then obtain A' s' where r: "request_loop E ts as A1 s1 = Some (A', s')" "app_wf A'" "app_step A1 A'"
     "\<forall>k. (\<forall>a \<in> set as. ?key A1 a \<noteq> k) \<longrightarrow> reqs A' k = reqs A1 k"
     "distinct (map (?key A1) as) \<longrightarrow> (\<forall>a \<in> set as. canSendRequest (the (ng_heap (ag_net A1) a)) ts \<longrightarrow>
             (let k = ?key A1 a in reqs A' k = bump (reqs A1 k)))"
    by (elim exE conjE) rule
  have same: "?key A1 b = ?key A b" if "b \<in> set as" for b using kept [of b] that by (auto simp: conn_kept_def)
  have out: "reqs A' k = reqs A k" if "\<forall>b \<in> set (a # as). ?key A b \<noteq> k" for k
  proof -
    have "reqs A' k = reqs A1 k" using r(4) that same by auto
    moreover have "k \<noteq> ?k" using that c by auto
    ultimately show ?thesis using t(4) by auto
  qed
  have ask: "reqs A' (?key A b) = bump (reqs A (?key A b))"
    if d: "distinct (map (?key A) (a # as))" and b: "b \<in> set (a # as)" and can: "canSendRequest (the (ng_heap (ag_net A) b)) ts" for b
  proof (cases "b \<in> set as")
    case True
    have "canSendRequest (the (ng_heap (ag_net A1) b)) ts" using can_kept kept [OF b] can by blast
    then have "reqs A' (?key A b) = bump (reqs A1 (?key A b))" using r(5) d True same [OF True] keys by (simp add: Let_def)
    moreover have "?key A b \<noteq> ?k" using d True c by (auto simp: image_iff)
    ultimately show ?thesis using t(4) by auto
  next
    case False
    then have ba: "b = a" using b by simp
    have "\<forall>x \<in> set as. ?key A1 x \<noteq> ?k" using d c same by (auto simp: image_iff)
    then have "reqs A' ?k = reqs A1 ?k" using r(4) by blast
    with t(4) can ba c show ?thesis by simp
  qed
  have "app_step A A'" by (rule app_step_trans [OF Cons.prems(1) t(3) r(3)])
  moreover have "request_loop E ts (a # as) A s = Some (A', s')" using t(1) r(1) by simp
  ultimately show ?case unfolding Let_def using r(2) out ask
    by (intro exI [of _ A'] exI [of _ s'] conjI allI impI ballI) simp_all
qed

lemma ConnOfIntKey_map: "net_wf g \<Longrightarrow> ConnOfIntKey g k = Some (map_of (ng_mConnMap g) k)"
  using net_wf_length [of g]
  by (simp add: ConnOfIntKey_def std_less.find_map_of option.map_comp comp_def option.map_ident)

lemma map_of_conn: "net_wf g \<Longrightarrow> (k, a) \<in> set (ng_mConnMap g) \<longleftrightarrow> map_of (ng_mConnMap g) k = Some a"
  using std_less.wf_distinct [of "ng_mConnMap g"] by (auto simp: net_wf_def)

lemma map_of_erase: "map_of (map_erase (<) k m) = (map_of m)(k := None)" for m :: "('k::linorder, 'v) smap"
  by (induction m) (auto simp: map_erase_def)

lemma RemoveRequest_reqs: "reqs (RemoveRequest k A) = (reqs A)(k := None)"
  by (simp add: reqs_def RemoveRequest_def map_of_erase)

lemma RemoveRequest_wf: "app_wf A \<Longrightarrow> app_wf (RemoveRequest k A)"
  unfolding RemoveRequest_def by (intro app_wf_reqMap map_wf_erase) (auto simp: app_wf_def set_map_erase)

lemma RemoveRequest_rest: "app_rest A (RemoveRequest k A)" "ag_net (RemoveRequest k A) = ag_net A"
  by (simp_all add: RemoveRequest_def app_rest_def)

lemma app_rest_trans: "app_rest A B \<Longrightarrow> app_rest B C \<Longrightarrow> app_rest A C"
  by (simp add: app_rest_def)

lemma remove_invalid_ok:
  assumes "app_wf A"
  shows "\<exists>A'. remove_invalid es A = Some A' \<and> app_wf A' \<and> ag_net A' = ag_net A \<and> app_rest A A'
     \<and> (\<forall>k a. (k, a) \<in> set (ng_mConnMap (ag_net A)) \<longrightarrow> reqs A' k = reqs A k)"
  using assms
proof (induction es arbitrary: A)
  case Nil
  then show ?case by (simp add: app_rest_def)
next
  case (Cons e es)
  have net: "net_wf (ag_net A)" using Cons.prems by (simp add: app_wf_def)
  let ?A = "if map_of (ng_mConnMap (ag_net A)) (fst e) = None then RemoveRequest (fst e) A else A"
  have "app_wf ?A" "ag_net ?A = ag_net A" "app_rest A ?A"
    using Cons.prems RemoveRequest_wf RemoveRequest_rest by (auto simp: app_rest_def)
  moreover have "reqs ?A k = reqs A k" if "(k, a) \<in> set (ng_mConnMap (ag_net A))" for k a
    using that by (auto simp: map_of_conn [OF net] RemoveRequest_reqs)
  moreover have "remove_invalid (e # es) A = remove_invalid es ?A"
    by (simp add: ConnOfIntKey_map [OF net])
  moreover obtain A' where "remove_invalid es ?A = Some A'" "app_wf A'" "ag_net A' = ag_net ?A" "app_rest ?A A'"
     "\<forall>k a. (k, a) \<in> set (ng_mConnMap (ag_net ?A)) \<longrightarrow> reqs A' k = reqs ?A k"
    using Cons.IH [OF calculation(1)] by (elim exE conjE) rule
  ultimately show ?case using app_rest_trans [of A ?A A'] by (intro exI [of _ A']) (simp del: remove_invalid.simps)
qed

lemma NotifyErr_same: "conn_same c (NotifyErr err c)"
  by (simp add: conn_same_def NotifyErr_def)

text \<open>One turn of the second loop: the request is gone and its connection has been notified.\<close>

lemma dead_turn:
  assumes wf: "app_wf A"
  shows "\<exists>A'. onNetConnDead k (RemoveRequest k A) = Some A' \<and> app_wf A' \<and> app_rest A A' \<and> reqs A' = (reqs A)(k := None)
     \<and> ng_mConnMap (ag_net A') = ng_mConnMap (ag_net A) \<and> ng_mConns (ag_net A') = ng_mConns (ag_net A)
     \<and> (\<forall>j a. (j, a) \<in> set (ng_mConnMap (ag_net A)) \<longrightarrow> ng_heap (ag_net A') a =
          (if j = k then map_option (NotifyErr ERR_TIMEOUT) (ng_heap (ag_net A) a) else ng_heap (ag_net A) a))"
proof -
  have net: "net_wf (ag_net A)" using wf by (simp add: app_wf_def)
  let ?B = "RemoveRequest k A"
  have B: "app_wf ?B" "ag_net ?B = ag_net A" "app_rest A ?B" "reqs ?B = (reqs A)(k := None)"
    using RemoveRequest_wf [OF wf] RemoveRequest_rest RemoveRequest_reqs by simp_all
  show ?thesis
  proof (cases "map_of (ng_mConnMap (ag_net A)) k")
    case None
    then have "onNetConnDead k ?B = Some ?B" using net B(2) by (simp add: onNetConnDead_def ConnOfIntKey_map)
    moreover have "j \<noteq> k" if "(j, a) \<in> set (ng_mConnMap (ag_net A))" for j a
      using that None by (auto simp: map_of_conn [OF net])
    ultimately show ?thesis using B by auto
  next
    case (Some a)
    then have ka: "(k, a) \<in> set (ng_mConnMap (ag_net A))" by (simp add: map_of_conn [OF net])
    obtain c where c: "ng_heap (ag_net A) a = Some c" "nc_intKey c = k" using net_wf_conn [OF net ka] by blast
    let ?g = "set_conn a (NotifyErr ERR_TIMEOUT c) (ag_net A)"
    have run: "onNetConnDead k ?B = Some (?B\<lparr>ag_net := ?g\<rparr>)"
      using net B(2) Some c(1) by (simp add: onNetConnDead_def notify_conn_def ConnOfIntKey_map)
    have "net_wf ?g" by (rule set_conn_wf [OF net c(1) NotifyErr_same])
    then have "app_wf (?B\<lparr>ag_net := ?g\<rparr>)" using B(1) by (simp add: app_wf_def)
    moreover have ba: "b = a \<longleftrightarrow> j = k" if jb: "(j, b) \<in> set (ng_mConnMap (ag_net A))" for j b
    proof -
      obtain d where "ng_heap (ag_net A) b = Some d" "nc_intKey d = j" using net_wf_conn [OF net jb] by blast
      then show ?thesis using c jb Some map_of_conn [OF net, of j b] by auto
    qed
    moreover have "ng_heap ?g b = (if j = k then map_option (NotifyErr ERR_TIMEOUT) (ng_heap (ag_net A) b) else ng_heap (ag_net A) b)"
      if "(j, b) \<in> set (ng_mConnMap (ag_net A))" for j b
      using ba [OF that] c(1) by (cases "j = k") (simp_all add: set_conn_def)
    moreover have "app_rest A (?B\<lparr>ag_net := ?g\<rparr>)" "reqs (?B\<lparr>ag_net := ?g\<rparr>) = (reqs A)(k := None)"
      using B(3,4) by (simp_all add: app_rest_def reqs_def)
    moreover have "ng_mConnMap ?g = ng_mConnMap (ag_net A)" "ng_mConns ?g = ng_mConns (ag_net A)"
      by (simp_all add: set_conn_def)
    ultimately show ?thesis using run by (intro exI [of _ "?B\<lparr>ag_net := ?g\<rparr>"]) simp
  qed
qed

definition timed_out :: "(u64, int) smap \<Rightarrow> u64 \<Rightarrow> bool" where
  "timed_out es k \<longleftrightarrow> (case map_of es k of None \<Rightarrow> False | Some n \<Rightarrow> n \<ge> MAX_RETRY)"

lemma timed_out_Cons: "timed_out ((k, n) # es) j = (if j = k then n \<ge> MAX_RETRY else timed_out es j)"
  by (simp add: timed_out_def)

lemma timed_out_absent: "k \<notin> fst ` set es \<Longrightarrow> \<not> timed_out es k"
  by (simp add: timed_out_def map_of_eq_None_iff [symmetric])

lemma timeout_loop_ok:
  assumes "app_wf A" "distinct (map fst es)"
  shows "\<exists>A'. timeout_loop es A = Some A' \<and> app_wf A' \<and> app_rest A A'
     \<and> (\<forall>k. reqs A' k = (if timed_out es k then None else reqs A k))
     \<and> ng_mConnMap (ag_net A') = ng_mConnMap (ag_net A) \<and> ng_mConns (ag_net A') = ng_mConns (ag_net A)
     \<and> (\<forall>j a. (j, a) \<in> set (ng_mConnMap (ag_net A)) \<longrightarrow> ng_heap (ag_net A') a =
          (if timed_out es j then map_option (NotifyErr ERR_TIMEOUT) (ng_heap (ag_net A) a)
           else ng_heap (ag_net A) a))"
  using assms
proof (induction es arbitrary: A)
  case Nil
  then show ?case by (simp add: app_rest_def timed_out_def)
next
  case (Cons e es)
  obtain k n where e: "e = (k, n)" by fastforce
  have nin: "\<not> timed_out es k" using Cons.prems(2) e by (simp add: timed_out_absent)
  show ?case
  proof (cases "n \<ge> MAX_RETRY")
    case True
    obtain A1 where A1: "onNetConnDead k (RemoveRequest k A) = Some A1" "app_wf A1" "app_rest A A1" "reqs A1 = (reqs A)(k := None)"
       "ng_mConnMap (ag_net A1) = ng_mConnMap (ag_net A)" "ng_mConns (ag_net A1) = ng_mConns (ag_net A)"
       "\<forall>j a. (j, a) \<in> set (ng_mConnMap (ag_net A)) \<longrightarrow> ng_heap (ag_net A1) a =
          (if j = k then map_option (NotifyErr ERR_TIMEOUT) (ng_heap (ag_net A) a) else ng_heap (ag_net A) a)"
      using dead_turn [OF Cons.prems(1), of k] by (elim exE conjE) rule
    from Cons.IH [OF A1(2)] Cons.prems(2) obtain A' where A': "timeout_loop es A1 = Some A'" "app_wf A'" "app_rest A1 A'"
       "\<forall>k. reqs A' k = (if timed_out es k then None else reqs A1 k)"
       "ng_mConnMap (ag_net A') = ng_mConnMap (ag_net A1)" "ng_mConns (ag_net A') = ng_mConns (ag_net A1)"
       "\<forall>j a. (j, a) \<in> set (ng_mConnMap (ag_net A1)) \<longrightarrow> ng_heap (ag_net A') a =
          (if timed_out es j then map_option (NotifyErr ERR_TIMEOUT) (ng_heap (ag_net A1) a) else ng_heap (ag_net A1) a)"
      by auto
    have "timeout_loop (e # es) A = Some A'" using True e A1(1) A'(1) by simp
    moreover have "app_rest A A'" by (rule app_rest_trans [OF A1(3) A'(3)])
    moreover have "reqs A' j = (if timed_out (e # es) j then None else reqs A j)" for j
      using A'(4) A1(4) e True nin by (simp add: timed_out_Cons)
    moreover have "ng_heap (ag_net A') a = (if timed_out (e # es) j then map_option (NotifyErr ERR_TIMEOUT) (ng_heap (ag_net A) a)
           else ng_heap (ag_net A) a)" if "(j, a) \<in> set (ng_mConnMap (ag_net A))" for j a
      using A'(7) A1(5,7) that e True nin by (simp add: timed_out_Cons)
    ultimately show ?thesis using A'(2,5,6) A1(5,6) by (intro exI [of _ A']) simp
  next
    case False
    then have d: "timed_out (e # es) = timed_out es" using e nin by (auto simp: fun_eq_iff timed_out_Cons)
    show ?thesis using Cons.IH [OF Cons.prems(1)] Cons.prems(2) False e unfolding d by (simp only: timeout_loop.simps) simp
  qed
qed

lemma conn_keys_distinct:
  assumes "net_wf g"
  shows "distinct (map (\<lambda>a. nc_intKey (the (ng_heap g a))) (map snd (ng_mConns g)))"
proof -
  have "fst e = StrForIntKey (nc_intKey (the (ng_heap g (snd e))))" if e: "e \<in> set (ng_mConns g)" for e
  proof -
    obtain k where k: "fst e = StrForIntKey k" "(k, snd e) \<in> set (ng_mConnMap g)"
      using net_wf_member [OF assms, of "fst e" "snd e"] e by auto
    obtain c where "ng_heap g (snd e) = Some c" "nc_intKey c = k" using net_wf_conn [OF assms k(2)] by blast
    with k(1) show ?thesis by simp
  qed
  then have "map fst (ng_mConns g) = map StrForIntKey (map (\<lambda>a. nc_intKey (the (ng_heap g a))) (map snd (ng_mConns g)))"
    by simp
  moreover have "distinct (map fst (ng_mConns g))" using assms std_less.wf_distinct by (auto simp: net_wf_def)
  ultimately show ?thesis by (metis distinct_map)
qed

lemma net_wf_live: "net_wf g \<Longrightarrow> \<forall>b \<in> set (map snd (ng_mConns g)). ng_heap g b \<noteq> None"
proof
  fix b assume wf: "net_wf g" and "b \<in> set (map snd (ng_mConns g))"
  then obtain x where "(x, b) \<in> set (ng_mConns g)" by auto
  then obtain j where j: "(j, b) \<in> set (ng_mConnMap g)" using net_wf_member [OF wf] by metis
  show "ng_heap g b \<noteq> None" using net_wf_conn [OF wf j] by blast
qed

text \<open>
  One round, as seen by one connection that may be asked: its counter goes up, and it is
  declared dead exactly when the counter reaches the limit.
\<close>

lemma keepalive_round:
  assumes wf: "app_wf A" and env: "env_ok E A" and on: "ag_online A"
    and ka: "(k, a) \<in> set (ng_mConnMap (ag_net A))" and c: "ng_heap (ag_net A) a = Some c"
    and can: "canSendRequest c ts" and live: "Conn_Alive c"
  shows "\<exists>A' s' c'. KeepAlive_OnFlush E ts A s = Some (A', s') \<and> app_wf A' \<and> ag_online A'
     \<and> length (ng_mConns (ag_net A')) \<le> length (ng_mConns (ag_net A))
     \<and> (k, a) \<in> set (ng_mConnMap (ag_net A')) \<and> ng_heap (ag_net A') a = Some c'
     \<and> nc_established c' = nc_established c \<and> \<not> nc_new c' \<and> IsUdp (nc_info c') = IsUdp (nc_info c)
     \<and> (if the (bump (reqs A k)) \<ge> MAX_RETRY
        then reqs A' k = None \<and> nc_alive c' = False \<and> nc_errCode c' = ERR_TIMEOUT
        else reqs A' k = bump (reqs A k) \<and> Conn_Alive c')"
proof -
  obtain A1 where A1: "removeInvalidRequest A = Some A1" "app_wf A1" "ag_net A1 = ag_net A" "app_rest A A1"
     "\<forall>k a. (k, a) \<in> set (ng_mConnMap (ag_net A)) \<longrightarrow> reqs A1 k = reqs A k"
    using remove_invalid_ok [OF wf, of "ag_reqMap A", folded removeInvalidRequest_def] by (elim exE conjE) rule
  have net: "net_wf (ag_net A1)" using A1(2) by (simp add: app_wf_def)
  let ?as = "map snd (ng_mConns (ag_net A1))"
  have e1: "env_ok E A1" using env A1(3) by (simp add: env_ok_def)
  have heap: "\<forall>b \<in> set ?as. ng_heap (ag_net A1) b \<noteq> None" by (rule net_wf_live [OF net])
  obtain d where d: "ng_heap (ag_net A) a = Some d" "nc_intKey d = k" "(StrForIntKey k, a) \<in> set (ng_mConns (ag_net A))"
    using net_wf_conn [OF _ ka] net A1(3) by metis
  have dc: "nc_intKey c = k" using d c by simp
  have a_in: "a \<in> set ?as" using d(3) A1(3) by force
  obtain A2 s' where A2: "request_loop E ts ?as A1 s = Some (A2, s')" "app_wf A2" "app_step A1 A2"
     and bumped: "\<forall>a \<in> set ?as. canSendRequest (the (ng_heap (ag_net A1) a)) ts \<longrightarrow>
             (let k = nc_intKey (the (ng_heap (ag_net A1) a)) in reqs A2 k = bump (reqs A1 k))"
    using request_loop_ok [OF A1(2) e1 heap, of ts s] conn_keys_distinct [OF net] by blast
  have r2: "reqs A2 k = bump (reqs A k)"
    using bspec [OF bumped a_in] can c dc A1(3,5) ka by (simp add: Let_def)
  have nk: "net_kept (ag_net A) (ag_net A2)" "net_wf (ag_net A2)" using A2(3) A1(3) by (auto simp: app_step_def)
  obtain c2 where c2: "ng_heap (ag_net A2) a = Some c2" "conn_kept c c2" using nk(1) c unfolding net_kept_def by blast
  have ka2: "(k, a) \<in> set (ng_mConnMap (ag_net A2))"
    using nk(1) ka c live unfolding net_kept_def alive_at_def by fastforce
  have dist: "distinct (map fst (ag_reqMap A2))" using A2(2) std_less.wf_distinct by (auto simp: app_wf_def)
  obtain A3 where A3: "timeout_loop (ag_reqMap A2) A2 = Some A3" "app_wf A3" "app_rest A2 A3"
     "\<forall>k. reqs A3 k = (if timed_out (ag_reqMap A2) k then None else reqs A2 k)"
     "ng_mConnMap (ag_net A3) = ng_mConnMap (ag_net A2)" "ng_mConns (ag_net A3) = ng_mConns (ag_net A2)"
     "\<forall>j a. (j, a) \<in> set (ng_mConnMap (ag_net A2)) \<longrightarrow> ng_heap (ag_net A3) a =
          (if timed_out (ag_reqMap A2) j then map_option (NotifyErr ERR_TIMEOUT) (ng_heap (ag_net A2) a)
           else ng_heap (ag_net A2) a)"
    using timeout_loop_ok [OF A2(2) dist] by (elim exE conjE) rule
  have out: "timed_out (ag_reqMap A2) k \<longleftrightarrow> the (bump (reqs A k)) \<ge> MAX_RETRY"
    using r2 by (simp add: timed_out_def reqs_def [symmetric] bump_def)
  have on3: "ag_online A1" "ag_online A3" using on A1(4) A2(3) A3(3) by (auto simp: app_rest_def app_step_def)
  have run: "KeepAlive_OnFlush E ts A s = Some (A3, s')"
    using A1(1) on3(1) A2(1) A3(1) by (simp add: KeepAlive_OnFlush_def)
  have len: "length (ng_mConns (ag_net A3)) \<le> length (ng_mConns (ag_net A))"
    using nk(1) A3(6) by (simp add: net_kept_def)
  have kept: "nc_established c2 = nc_established c \<and> \<not> nc_new c2 \<and> IsUdp (nc_info c2) = IsUdp (nc_info c) \<and> Conn_Alive c2"
    using c2(2) can live by (auto simp: conn_kept_def canSendRequest_def)
  show ?thesis
  proof (cases "the (bump (reqs A k)) \<ge> MAX_RETRY")
    case True
    then have "ng_heap (ag_net A3) a = Some (NotifyErr ERR_TIMEOUT c2)" "reqs A3 k = None"
      using A3(4,7) out ka2 c2(1) by auto
    with run A3(2,5) on3 len ka2 kept True show ?thesis
      by (intro exI [of _ A3] exI [of _ s'] exI [of _ "NotifyErr ERR_TIMEOUT c2"]) (simp add: NotifyErr_def)
  next
    case False
    then have "ng_heap (ag_net A3) a = Some c2" "reqs A3 k = bump (reqs A k)"
      using A3(4,7) out ka2 c2(1) r2 by auto
    with run A3(2,5) on3 len ka2 kept False show ?thesis
      by (intro exI [of _ A3] exI [of _ s'] exI [of _ c2]) simp
  qed
qed

text \<open>Rounds in sequence; \<open>answered\<close> puts the peer's response for the key after each of them.\<close>

primrec ka_rounds :: "('s env \<times> u64) list \<Rightarrow> app_group \<Rightarrow> 's \<Rightarrow> (app_group \<times> 's) option" where
  "ka_rounds [] A s = Some (A, s)"
| "ka_rounds (r # rs) A s = do { (A, s) \<leftarrow> KeepAlive_OnFlush (fst r) (snd r) A s; ka_rounds rs A s }"

primrec ka_answered :: "u64 \<Rightarrow> ('s env \<times> u64) list \<Rightarrow> app_group \<Rightarrow> 's \<Rightarrow> (app_group \<times> 's) option" where
  "ka_answered k [] A s = Some (A, s)"
| "ka_answered k (r # rs) A s = do {
     (A, s) \<leftarrow> KeepAlive_OnFlush (fst r) (snd r) A s;
     A \<leftarrow> OnRecvResponse k A;
     ka_answered k rs A s }"

lemma env_ok_shrink:
  "env_ok E A \<Longrightarrow> length (ng_mConns (ag_net A')) \<le> length (ng_mConns (ag_net A)) \<Longrightarrow> env_ok E A'"
  by (auto simp: env_ok_def intro: le_less_trans)

lemma canSend_frame: "nc_established c' = nc_established c \<Longrightarrow> \<not> nc_new c' \<Longrightarrow> canSendRequest c ts \<Longrightarrow> canSendRequest c' ts"
  by (simp add: canSendRequest_def)

text \<open>After \<open>j\<close> unanswered rounds the counter is \<open>j - 1\<close>, as long as the limit is not reached.\<close>

lemma ka_rounds_count:
  assumes "app_wf A" "ag_online A" "\<forall>(E, ts) \<in> set rs. env_ok E A \<and> canSendRequest c ts"
    and "(k, a) \<in> set (ng_mConnMap (ag_net A))" "ng_heap (ag_net A) a = Some c" "Conn_Alive c"
    and "reqs A k = (if j = 0 then None else Some (int j - 1))" "j + length rs \<le> 3"
  shows "\<exists>A' s' c'. ka_rounds rs A s = Some (A', s') \<and> app_wf A' \<and> ag_online A'
     \<and> length (ng_mConns (ag_net A')) \<le> length (ng_mConns (ag_net A))
     \<and> (k, a) \<in> set (ng_mConnMap (ag_net A')) \<and> ng_heap (ag_net A') a = Some c'
     \<and> nc_established c' = nc_established c \<and> (nc_new c' \<longrightarrow> nc_new c) \<and> Conn_Alive c'
     \<and> IsUdp (nc_info c') = IsUdp (nc_info c)
     \<and> reqs A' k = (if j + length rs = 0 then None else Some (int (j + length rs) - 1))"
  using assms
proof (induction rs arbitrary: A s c j)
  case Nil
  then show ?case by simp
next
  case (Cons r rs)
  obtain E ts where r: "r = (E, ts)" by fastforce
  have env: "env_ok E A" and can: "canSendRequest c ts" using Cons.prems(3) r by auto
  have b: "bump (reqs A k) = Some (int j)" using Cons.prems(7) by (auto simp: bump_def)
  have low: "\<not> the (bump (reqs A k)) \<ge> MAX_RETRY" using Cons.prems(8) by (simp add: b MAX_RETRY_def)
  obtain A1 s1 c1 where A1: "KeepAlive_OnFlush E ts A s = Some (A1, s1)" "app_wf A1" "ag_online A1"
     "length (ng_mConns (ag_net A1)) \<le> length (ng_mConns (ag_net A))"
     "(k, a) \<in> set (ng_mConnMap (ag_net A1))" "ng_heap (ag_net A1) a = Some c1"
     "nc_established c1 = nc_established c" "\<not> nc_new c1" "IsUdp (nc_info c1) = IsUdp (nc_info c)"
     "reqs A1 k = bump (reqs A k)" "Conn_Alive c1"
    using keepalive_round [OF Cons.prems(1) env Cons.prems(2,4,5) can Cons.prems(6), of s] unfolding if_not_P [OF low]
    by (elim exE conjE) rule
  have ok: "\<forall>(E, ts) \<in> set rs. env_ok E A1 \<and> canSendRequest c1 ts"
    using Cons.prems(3) by (auto intro: env_ok_shrink [OF _ A1(4)] canSend_frame [OF A1(7,8)])
  have r1: "reqs A1 k = (if Suc j = 0 then None else Some (int (Suc j) - 1))" using A1(10) b by simp
  have "Suc j + length rs \<le> 3" using Cons.prems(8) by simp
  from Cons.IH [OF A1(2,3) ok A1(5,6,11) r1 this, of s1] obtain A' s' c' where A':
     "ka_rounds rs A1 s1 = Some (A', s')" "app_wf A'" "ag_online A'"
     "length (ng_mConns (ag_net A')) \<le> length (ng_mConns (ag_net A1))"
     "(k, a) \<in> set (ng_mConnMap (ag_net A'))" "ng_heap (ag_net A') a = Some c'"
     "nc_established c' = nc_established c1" "nc_new c' \<longrightarrow> nc_new c1" "Conn_Alive c'"
     "IsUdp (nc_info c') = IsUdp (nc_info c1)"
     "reqs A' k = (if Suc j + length rs = 0 then None else Some (int (Suc j + length rs) - 1))"
    by (elim exE conjE) rule
  have "ka_rounds (r # rs) A s = Some (A', s')" using r A1(1) A'(1) by simp
  with A' A1(4,7,8,9) show ?case by (intro exI [of _ A'] exI [of _ s'] exI [of _ c']) simp
qed

subsection \<open>Properties\<close>

text \<open>
  C7: A connection whose peer has gone silent is found dead after exactly four rounds. While the network is up, let a fake
  TCP connection of the group be alive, old enough to be asked and without an open request. The first three
  unanswered rounds of \<open>NetConnKeepAlive::OnFlush\<close> leave it alive and count it up; the fourth marks
  it dead with the error \<open>ERR_TIMEOUT\<close> and closes the request. No round fails, whatever the
  random choices of connections and the results of the lower layers are.
\<close>

theorem keepalive_detects_dead_peer:
  assumes "app_wf A" "ag_online A" and "reqs A k = None"
    and "(k, a) \<in> set (ng_mConnMap (ag_net A))" "ng_heap (ag_net A) a = Some c" "Conn_Alive c" "\<not> IsUdp (nc_info c)"
    and "\<forall>(E, ts) \<in> set (rs @ [r]). env_ok E A \<and> canSendRequest c ts" and "length rs = 3"
  shows "\<exists>A' s' c' A'' s'' c''.
       ka_rounds rs A s = Some (A', s') \<and> ng_heap (ag_net A') a = Some c' \<and> Conn_Alive c' \<and> reqs A' k = Some 2
     \<and> ka_rounds (rs @ [r]) A s = Some (A'', s'') \<and> app_wf A'' \<and> ng_heap (ag_net A'') a = Some c''
     \<and> \<not> Conn_Alive c'' \<and> nc_errCode c'' = ERR_TIMEOUT \<and> reqs A'' k = None"
proof -
  obtain E ts where r: "r = (E, ts)" by fastforce
  have "\<forall>(E, ts) \<in> set rs. env_ok E A \<and> canSendRequest c ts" using assms(8) by auto
  moreover have "reqs A k = (if (0::nat) = 0 then None else Some (int 0 - 1))" "0 + length rs \<le> 3" using assms(3,9) by simp_all
  note count = ka_rounds_count [OF assms(1,2) calculation(1) assms(4,5,6) this, of s]
  obtain A' s' c' where A': "ka_rounds rs A s = Some (A', s')" "app_wf A'" "ag_online A'"
     "length (ng_mConns (ag_net A')) \<le> length (ng_mConns (ag_net A))"
     "(k, a) \<in> set (ng_mConnMap (ag_net A'))" "ng_heap (ag_net A') a = Some c'"
     "nc_established c' = nc_established c" "nc_new c' \<longrightarrow> nc_new c" "Conn_Alive c'"
     "IsUdp (nc_info c') = IsUdp (nc_info c)"
     "reqs A' k = (if 0 + length rs = 0 then None else Some (int (0 + length rs) - 1))"
    using count by (elim exE conjE) rule
  have two: "reqs A' k = Some 2" using A'(11) assms(9) by simp
  have can: "canSendRequest c' ts" using assms(8) r A'(7,8) by (auto simp: canSendRequest_def)
  have env: "env_ok E A'" using assms(8) r by (intro env_ok_shrink [OF _ A'(4)]) auto
  have high: "the (bump (reqs A' k)) \<ge> MAX_RETRY" by (simp add: two bump_def MAX_RETRY_def)
  obtain A'' s'' c'' where A'': "KeepAlive_OnFlush E ts A' s' = Some (A'', s'')" "app_wf A''"
     "ng_heap (ag_net A'') a = Some c''" "IsUdp (nc_info c'') = IsUdp (nc_info c')"
     "reqs A'' k = None" "nc_alive c'' = False" "nc_errCode c'' = ERR_TIMEOUT"
    using keepalive_round [OF A'(2) env A'(3,5,6) can A'(9), of s'] unfolding if_P [OF high]
    by (elim exE conjE) rule
  have udp: "\<not> IsUdp (nc_info c')" using A'(10) assms(7) by simp
  have app: "ka_rounds (rs @ [r]) A s = do { (A, s) \<leftarrow> ka_rounds rs A s; ka_rounds [r] A s }"
    by (induction rs arbitrary: A s) (auto split: Option.bind_splits)
  have "ka_rounds (rs @ [r]) A s = Some (A'', s'')" unfolding app using A'(1) A''(1) r by simp
  moreover have "\<not> Conn_Alive c''" using A''(4,6) udp by (cases "nc_info c''") (auto simp: Conn_Alive_def)
  ultimately show ?thesis using A'(1,6,9) A'' two by blast
qed

text \<open>A group with one fake TCP connection that has sent before, and an environment that accepts everything.\<close>

definition sample_conn :: net_conn where
  "sample_conn = (new_net_conn 7 (TcpI new_tcp_info) (Some 4) 0)\<lparr>nc_inited := True, nc_outputCb := True, nc_onRecvCb := True, nc_new := False\<rparr>"

definition sample_net :: net_group where
  "sample_net = (new_net_group ''group-01'' (new_handler 1 True))
     \<lparr>ng_mConns := [(StrForIntKey 7, 3)], ng_mConnMap := [(7, 3)], ng_heap := [3 \<mapsto> sample_conn]\<rparr>"

definition sample_app :: "bool \<Rightarrow> app_group" where
  "sample_app client = \<lparr>ag_key = ''group-01'', ag_isClient = client, ag_stat = new_stat, ag_head = new_head, ag_mConns = [],
     ag_heap = (\<lambda>_. None), ag_closed = [], ag_net = sample_net, ag_netChecks = 0, ag_reqMap = [], ag_online = True,
     ag_convMap = [], ag_convCounter = 1, ag_target = AfInet 0 0\<rparr>"

definition sample_env :: "unit env" where
  "sample_env = \<lparr>en_le = True, en_now = 5, en_rand = (\<lambda>_. [0, 0, 0]), en_out = (\<lambda>_ b s. (int (length b), s)),
     en_udp = (\<lambda>_ _ _ s. s), en_un = (\<lambda>b s. (int (length b), s)), en_create = (\<lambda>_ _. None), en_fresh = 9, en_newUdp = 8\<rparr>"

lemma sample_net_wf: "net_wf sample_net"
  by (simp add: net_wf_def sample_net_def new_net_group_def new_handler_def pending_dead_def handler_wf_def expiries_def
      sample_conn_def new_net_conn_def)

lemma sample_app_wf: "app_wf (sample_app client)"
  by (simp add: app_wf_def sample_app_def sample_net_wf ID_BUF_SIZE_def)

lemma sample_env_ok: "env_ok sample_env (sample_app client)"
  by (simp add: env_ok_def sample_env_def sample_app_def sample_net_def clock_ok_def MAX_MS_def ERR_NO_CONN_def)

lemma sample_can: "canSendRequest sample_conn 20000"
proof -
  have "sint (ucast (20000 :: u64) :: u32) \<ge> 15000" by code_simp
  then show ?thesis by (simp add: canSendRequest_def sample_conn_def new_net_conn_def REQUEST_DELAY_def)
qed

lemma sample_facts:
  "ag_online (sample_app client)" "reqs (sample_app client) k = None" "(7, 3) \<in> set (ng_mConnMap (ag_net (sample_app client)))"
  "ng_heap (ag_net (sample_app client)) 3 = Some sample_conn" "Conn_Alive sample_conn" "\<not> IsUdp (nc_info sample_conn)"
  by (simp_all add: sample_app_def sample_net_def sample_conn_def reqs_def Conn_Alive_def new_net_conn_def)

theorem keepalive_detects_dead_peer_witness:
  "\<exists>A s c. ka_rounds (replicate 4 (sample_env, 20000)) (sample_app True) () = Some (A, s)
     \<and> ng_heap (ag_net A) 3 = Some c \<and> \<not> Conn_Alive c \<and> nc_errCode c = ERR_TIMEOUT"
proof -
  have "\<forall>(E, ts) \<in> set (replicate 3 (sample_env, 20000) @ [(sample_env, 20000)]). env_ok E (sample_app True) \<and> canSendRequest sample_conn ts"
    using sample_env_ok sample_can by auto
  note round4 = keepalive_detects_dead_peer [OF sample_app_wf sample_facts(1,2,3,4,5,6) this length_replicate, of "()"]
  have "\<exists>A s c. ka_rounds (replicate 3 (sample_env, 20000) @ [(sample_env, 20000)]) (sample_app True) () = Some (A, s)
     \<and> ng_heap (ag_net A) 3 = Some c \<and> \<not> Conn_Alive c \<and> nc_errCode c = ERR_TIMEOUT"
    using round4 by (elim exE conjE) (intro exI conjI, assumption+)
  then show ?thesis by (simp add: numeral_eq_Suc del: ka_rounds.simps)
qed

text \<open>
  C8: A peer that answers is never declared dead. With a response for its key after every round, a live connection stays in the
  group and alive for any number of rounds, and no request for it stays open.
\<close>

theorem keepalive_spares_answering_peer:
  assumes "app_wf A" "ag_online A" and "reqs A k = None"
    and "(k, a) \<in> set (ng_mConnMap (ag_net A))" "ng_heap (ag_net A) a = Some c" "Conn_Alive c"
    and "\<forall>(E, ts) \<in> set rs. env_ok E A \<and> canSendRequest c ts"
  shows "\<exists>A' s' c'. ka_answered k rs A s = Some (A', s') \<and> app_wf A' \<and> (k, a) \<in> set (ng_mConnMap (ag_net A'))
     \<and> ng_heap (ag_net A') a = Some c' \<and> Conn_Alive c' \<and> reqs A' k = None"
  using assms
proof (induction rs arbitrary: A s c)
  case Nil
  then show ?case by simp
next
  case (Cons r rs)
  obtain E ts where r: "r = (E, ts)" by fastforce
  have env: "env_ok E A" and can: "canSendRequest c ts" using Cons.prems(7) r by auto
  have low: "\<not> the (bump (reqs A k)) \<ge> MAX_RETRY" using Cons.prems(3) by (simp add: bump_def MAX_RETRY_def)
  obtain A1 s1 c1 where A1: "KeepAlive_OnFlush E ts A s = Some (A1, s1)" "app_wf A1" "ag_online A1"
     "length (ng_mConns (ag_net A1)) \<le> length (ng_mConns (ag_net A))"
     "(k, a) \<in> set (ng_mConnMap (ag_net A1))" "ng_heap (ag_net A1) a = Some c1"
     "nc_established c1 = nc_established c" "\<not> nc_new c1" "Conn_Alive c1"
    using keepalive_round [OF Cons.prems(1) env Cons.prems(2,4,5) can Cons.prems(6), of s] unfolding if_not_P [OF low]
    by (elim exE conjE) rule
  let ?A = "RemoveRequest k A1"
  have net: "ag_net ?A = ag_net A1" "ag_online ?A" "reqs ?A k = None"
    using RemoveRequest_rest [where A = A1 and k = k] A1(3) RemoveRequest_reqs by (auto simp: app_rest_def)
  have "net_wf (ag_net A1)" using A1(2) by (simp add: app_wf_def)
  then have run: "ka_answered k (r # rs) A s = ka_answered k rs ?A s1"
    using r A1(1) by (simp add: OnRecvResponse_def ConnOfIntKey_map)
  have ok: "\<forall>(E, ts) \<in> set rs. env_ok E ?A \<and> canSendRequest c1 ts"
    using Cons.prems(7) A1(4) net(1) by (auto intro: env_ok_shrink [where A = A] canSend_frame [OF A1(7,8)])
  show ?case unfolding run
    using net A1(5,6,9) ok RemoveRequest_wf [OF A1(2)] by (intro Cons.IH [where c = c1]) simp_all
qed

theorem keepalive_spares_answering_peer_witness:
  "\<exists>A s c. ka_answered 7 (replicate 50 (sample_env, 20000)) (sample_app True) () = Some (A, s)
     \<and> ng_heap (ag_net A) 3 = Some c \<and> Conn_Alive c"
proof -
  have "\<forall>(E, ts) \<in> set (replicate 50 (sample_env, 20000)). env_ok E (sample_app True) \<and> canSendRequest sample_conn ts"
    using sample_env_ok sample_can by auto
  from keepalive_spares_answering_peer [OF sample_app_wf sample_facts(1,2,3,4,5) this, of "()"] show ?thesis
    by (elim exE conjE) (intro exI conjI, assumption+)
qed

end
