(* ===== verification/App_Conns.thy ===== *)
theory App_Conns
  imports App_Group
begin

section \<open>The connections of applications\<close>

text \<open>
  On the client an application is known by the address it sends from, the peer knows it by a
  conversation number. \<open>ClientGroup\<close> keeps both maps. This theory shows that they never point to a
  closed connection, that closing and flushing are safe on either side, and that a conversation
  leads back to the address it was opened for.
\<close>

subsection \<open>Closing\<close>

lemma app_wf_conn:
  assumes "app_wf A" "(k, a) \<in> set (ag_mConns A)"
  obtains c where "ag_heap A a = Some c" "ac_key c = k" "ac_inited c" "k \<noteq> ag_key A"
  using assms unfolding app_wf_def by force

lemma app_wf_unique:
  assumes "app_wf A" "(k, a) \<in> set (ag_mConns A)" "(j, b) \<in> set (ag_mConns A)"
  shows "k = j \<longleftrightarrow> a = b"
proof
  have "distinct (map fst (ag_mConns A))" using assms(1) std_less.wf_distinct by (auto simp: app_wf_def)
  then show "k = j \<Longrightarrow> a = b" using assms(2,3) eq_key_imp_eq_value by metis
  assume "a = b"
  then show "k = j" using app_wf_conn [OF assms(1,2)] app_wf_conn [OF assms(1,3)] by (metis option.inject)
qed

lemma App_ConnOfKey_member: "app_wf A \<Longrightarrow> (k, a) \<in> set (ag_mConns A) \<longleftrightarrow> App_ConnOfKey A k = Some a"
  using std_less.wf_distinct [of "ag_mConns A"]
  by (auto simp: app_wf_def App_ConnOfKey_def std_less.find_map_of option.map_comp comp_def option.map_ident)

lemma App_CloseConn_ok:
  assumes wf: "app_wf A" and ka: "(k, a) \<in> set (ag_mConns A)" and c: "ag_heap A a = Some c"
  shows "\<exists>A'. App_CloseConn a A = Some A' \<and> app_wf A' \<and> ag_mConns A' = map_erase (<) k (ag_mConns A)
     \<and> ag_heap A' = (ag_heap A)(a := None) \<and> ag_net A' = ag_net A \<and> ag_key A' = ag_key A \<and> ag_isClient A' = ag_isClient A
     \<and> ag_convMap A' = map_erase (<) (ac_conv c) (ag_convMap A) \<and> ag_reqMap A' = ag_reqMap A \<and> ag_online A' = ag_online A"
proof -
  have k: "ac_key c = k" "k \<noteq> ag_key A" using app_wf_conn [OF wf ka] c by (metis option.inject)+
  let ?A = "A\<lparr>ag_mConns := map_erase (<) k (ag_mConns A), ag_heap := (ag_heap A)(a := None),
     ag_convMap := map_erase (<) (ac_conv c) (ag_convMap A),
     ag_closed := ag_closed A @ (case ac_udp c of None \<Rightarrow> [] | Some h \<Rightarrow> [h])\<rparr>"
  have "map_erase (<) (ac_conv c) (ag_convMap A) = ag_convMap A" if "\<not> ag_isClient A"
    using that wf by (simp add: app_wf_def map_erase_def)
  then have run: "App_CloseConn a A = Some ?A"
    using c k App_ConnOfKey_member [OF wf] ka
    by (simp add: App_CloseConn_def App_RemoveConn_def app_set_def Let_def)
  have rest: "j \<noteq> k" if "(j, b) \<in> set (ag_mConns A)" "b \<noteq> a" for j b
    using app_wf_unique [OF wf ka that(1)] that(2) by simp
  have keep: "b \<noteq> a" if "(j, b) \<in> set (ag_mConns A)" "j \<noteq> k" for j b
    using app_wf_unique [OF wf ka that(1)] that(2) by simp
  have conv: "b \<noteq> a \<and> b \<in> snd ` set (ag_mConns A) \<and> (\<exists>d. ag_heap A b = Some d \<and> ac_conv d = v)"
    if "(v, b) \<in> set (ag_convMap A)" "v \<noteq> ac_conv c" for v b
    using wf that c unfolding app_wf_def by fastforce
  have "app_wf ?A"
    unfolding app_wf_def
  proof (intro conjI)
    show "\<forall>(j, b)\<in>set (ag_mConns ?A). j \<noteq> ag_key ?A \<and> (\<exists>c. ag_heap ?A b = Some c \<and> ac_key c = j \<and> ac_inited c)"
    proof
      fix e assume "e \<in> set (ag_mConns ?A)"
      then obtain j b where e: "e = (j, b)" "(j, b) \<in> set (ag_mConns A)" "j \<noteq> k" by - (cases e, auto simp: set_map_erase)
      then show "case e of (j, b) \<Rightarrow> j \<noteq> ag_key ?A \<and> (\<exists>c. ag_heap ?A b = Some c \<and> ac_key c = j \<and> ac_inited c)"
        using app_wf_conn [OF wf e(2)] keep [OF e(2,3)] by (simp add: e(1)) metis
    qed
    show "\<forall>(v, b)\<in>set (ag_convMap ?A). b \<in> snd ` set (ag_mConns ?A) \<and> (\<exists>c. ag_heap ?A b = Some c \<and> ac_conv c = v)"
    proof
      fix e assume "e \<in> set (ag_convMap ?A)"
      then obtain v b where e: "e = (v, b)" "(v, b) \<in> set (ag_convMap A)" "v \<noteq> ac_conv c" by - (cases e, auto simp: set_map_erase)
      from conv [OF e(2,3)] obtain j d where j: "b \<noteq> a" "(j, b) \<in> set (ag_mConns A)" "ag_heap A b = Some d" "ac_conv d = v" by auto
      then have "(j, b) \<in> set (ag_mConns ?A)" using rest [OF j(2,1)] by (simp add: set_map_erase)
      with j e(1) show "case e of (v, b) \<Rightarrow> b \<in> snd ` set (ag_mConns ?A) \<and> (\<exists>c. ag_heap ?A b = Some c \<and> ac_conv c = v)"
        by force
    qed
  qed (use wf in \<open>auto simp: app_wf_def set_map_erase map_wf_erase map_erase_absent\<close>)
  with run show ?thesis by (intro exI [of _ ?A]) simp
qed

lemma close_all_ok:
  assumes "app_wf A" "distinct as" "set as \<subseteq> snd ` set (ag_mConns A)"
  shows "\<exists>A'. close_all as A = Some A' \<and> app_wf A' \<and> set (ag_mConns A') = {e \<in> set (ag_mConns A). snd e \<notin> set as}
     \<and> (\<forall>b. ag_heap A' b = (if b \<in> set as then None else ag_heap A b)) \<and> ag_net A' = ag_net A \<and> ag_isClient A' = ag_isClient A
     \<and> set (ag_convMap A') \<subseteq> set (ag_convMap A)
     \<and> (\<forall>e \<in> set (ag_convMap A). (\<forall>a \<in> set as. map_option ac_conv (ag_heap A a) \<noteq> Some (fst e)) \<longrightarrow> e \<in> set (ag_convMap A'))"
  using assms
proof (induction as arbitrary: A)
  case Nil
  then show ?case by simp
next
  case (Cons a as)
  obtain k where k: "(k, a) \<in> set (ag_mConns A)" using Cons.prems(3) by auto
  obtain c where c: "ag_heap A a = Some c" using app_wf_conn [OF Cons.prems(1) k] by blast
  obtain A1 where A1: "App_CloseConn a A = Some A1" "app_wf A1" "ag_mConns A1 = map_erase (<) k (ag_mConns A)"
     "ag_heap A1 = (ag_heap A)(a := None)" "ag_net A1 = ag_net A" "ag_isClient A1 = ag_isClient A"
     "ag_convMap A1 = map_erase (<) (ac_conv c) (ag_convMap A)"
    using App_CloseConn_ok [OF Cons.prems(1) k c] by (elim exE conjE) rule
  have m1: "set (ag_mConns A1) = {e \<in> set (ag_mConns A). snd e \<noteq> a}"
    unfolding A1(3) by (auto simp: set_map_erase dest: app_wf_unique [OF Cons.prems(1) k])
  have sub: "set as \<subseteq> snd ` set (ag_mConns A1)"
  proof
    fix b assume b: "b \<in> set as"
    then obtain j where "(j, b) \<in> set (ag_mConns A)" using Cons.prems(3) by auto
    moreover have "b \<noteq> a" using b Cons.prems(2) by auto
    ultimately show "b \<in> snd ` set (ag_mConns A1)" using m1 by force
  qed
  have "distinct as" using Cons.prems(2) by simp
  from Cons.IH [OF A1(2) this sub] obtain A' where A': "close_all as A1 = Some A'" "app_wf A'"
     "set (ag_mConns A') = {e \<in> set (ag_mConns A1). snd e \<notin> set as}"
     "\<forall>b. ag_heap A' b = (if b \<in> set as then None else ag_heap A1 b)" "ag_net A' = ag_net A1" "ag_isClient A' = ag_isClient A1"
     "set (ag_convMap A') \<subseteq> set (ag_convMap A1)"
     "\<forall>e \<in> set (ag_convMap A1). (\<forall>a \<in> set as. map_option ac_conv (ag_heap A1 a) \<noteq> Some (fst e)) \<longrightarrow> e \<in> set (ag_convMap A')"
    by (elim exE conjE) rule
  have "e \<in> set (ag_convMap A')" if e: "e \<in> set (ag_convMap A)"
    "\<forall>b \<in> set (a # as). map_option ac_conv (ag_heap A b) \<noteq> Some (fst e)" for e
  proof -
    have "e \<in> set (ag_convMap A1)" using e c unfolding A1(7) by (auto simp: set_map_erase)
    moreover have "map_option ac_conv (ag_heap A1 b) \<noteq> Some (fst e)" if "b \<in> set as" for b
      using e(2) that unfolding A1(4) by auto
    ultimately show ?thesis using A'(8) by blast
  qed
  moreover have "set (ag_convMap A') \<subseteq> set (ag_convMap A)" using A'(7) unfolding A1(7) by (auto simp: set_map_erase)
  moreover have "close_all (a # as) A = Some A'" using A1(1) A'(1) by simp
  ultimately show ?case using A'(2-6) A1(4,5,6) m1 by (intro exI [of _ A'] conjI allI ballI impI) auto
qed

subsection \<open>Updating one connection\<close>

text \<open>An update that keeps the key, the conversation and the initialisation.\<close>

lemma app_set_wf:
  assumes "app_wf A" "ag_heap A a = Some c" "ac_key c' = ac_key c" "ac_conv c' = ac_conv c" "ac_inited c' = ac_inited c"
  shows "app_wf (app_set a c' A)"
proof -
  have "\<exists>d'. ag_heap (app_set a c' A) b = Some d' \<and> ac_key d' = ac_key d \<and> ac_conv d' = ac_conv d \<and> ac_inited d' = ac_inited d"
    if "ag_heap A b = Some d" for b d
    using assms that by (cases "b = a") (auto simp: app_set_def)
  then show ?thesis
    using assms(1) unfolding app_wf_def app_set_def by simp (fastforce split: prod.splits)
qed

lemma app_flush_conns_ok:
  assumes "app_wf A" "set as \<subseteq> snd ` set (ag_mConns A)"
  shows "\<exists>A'. app_flush_conns as A = Some A' \<and> app_wf A' \<and> ag_mConns A' = ag_mConns A \<and> ag_net A' = ag_net A
     \<and> ag_convMap A' = ag_convMap A \<and> ag_isClient A' = ag_isClient A
     \<and> (\<forall>b. map_option (\<lambda>c. c\<lparr>ac_stat := new_stat\<rparr>) (ag_heap A' b) = map_option (\<lambda>c. c\<lparr>ac_stat := new_stat\<rparr>) (ag_heap A b))"
  using assms
proof (induction as arbitrary: A)
  case Nil
  then show ?case by simp
next
  case (Cons a as)
  obtain k where k: "(k, a) \<in> set (ag_mConns A)" using Cons.prems(2) by auto
  obtain c where c: "ag_heap A a = Some c" using app_wf_conn [OF Cons.prems(1) k] by blast
  let ?A = "app_set a (c\<lparr>ac_stat := Stat_Flush (ac_stat c)\<rparr>) A"
  have wf1: "app_wf ?A" using app_set_wf [OF Cons.prems(1) c] by simp
  have sub: "set as \<subseteq> snd ` set (ag_mConns ?A)" using Cons.prems(2) by (simp add: app_set_def)
  obtain A' where A': "app_flush_conns as ?A = Some A'" "app_wf A'" "ag_mConns A' = ag_mConns ?A" "ag_net A' = ag_net ?A"
     "ag_convMap A' = ag_convMap ?A" "ag_isClient A' = ag_isClient ?A"
     "\<forall>b. map_option (\<lambda>c. c\<lparr>ac_stat := new_stat\<rparr>) (ag_heap A' b) = map_option (\<lambda>c. c\<lparr>ac_stat := new_stat\<rparr>) (ag_heap ?A b)"
    using Cons.IH [OF wf1 sub] by (elim exE conjE) rule
  with c show ?case by (intro exI [of _ A']) (simp add: app_set_def)
qed

subsection \<open>Sending for an application\<close>

lemma App_Send_out:
  assumes wf: "app_wf A" and env: "env_ok E A" and b: "b \<noteq> []"
    and run: "App_Send E k b head A s = Some (n, A', head', s')"
  shows "if Group_Alive (ag_net A)
     then \<exists>a c. a \<in> snd ` set (ng_mConns (ag_net A)) \<and> ng_heap (ag_net A) a = Some c \<and> Conn_Alive c
            \<and> en_out E (set_head (Some (head\<lparr>eh_key := nc_intKey c\<rparr>)) (nc_info c)) b s = (n, s')
     else n = ERR_NO_CONN \<and> s' = s"
proof -
  have net: "net_wf (ag_net A)" "length (ng_mConns (ag_net A)) \<le> length (en_rand E k)" "clock_ok (en_now E)"
    using wf env by (auto simp: app_wf_def env_ok_def less_imp_le)
  have key: "(0 :: u64) = 0 \<or> 0 \<notin> fst ` set (ng_mConnMap (ag_net A))" by simp
  obtain g' where "send_loop (en_rand E k) 0 (en_now E) (en_out E) b head (ag_net A) s = Some (n, g', head', s')"
    using run b by (auto simp: App_Send_def Net_Send_def doSend_def split: Option.bind_splits)
  with send_loop_ok [OF net key, of "en_out E" b head s] show ?thesis by (simp only: option.inject prod.inject) metis
qed

lemma AppConn_Send_ok:
  assumes wf: "app_wf A" and env: "env_ok E A" and c: "ag_heap A a = Some c" "ac_inited c" "ac_outputCb c"
  shows "\<exists>n A' s' st. AppConn_Send E b a A s = Some (n, A', s') \<and> app_wf A' \<and> net_kept (ag_net A) (ag_net A')
     \<and> ag_mConns A' = ag_mConns A \<and> ag_convMap A' = ag_convMap A \<and> ag_isClient A' = ag_isClient A \<and> ag_key A' = ag_key A
     \<and> ag_heap A' = (ag_heap A)(a \<mapsto> c\<lparr>ac_stat := st\<rparr>)
     \<and> (b \<noteq> [] \<longrightarrow> (if Group_Alive (ag_net A)
          then \<exists>x d. x \<in> snd ` set (ng_mConns (ag_net A)) \<and> ng_heap (ag_net A) x = Some d \<and> Conn_Alive d
            \<and> en_out E (set_head (Some ((ag_head A)\<lparr>eh_conv := ac_conv c, eh_key := nc_intKey d\<rparr>)) (nc_info d)) b s = (n, s')
          else n = ERR_NO_CONN \<and> s' = s))"
proof -
  let ?h = "(ag_head A)\<lparr>eh_conv := ac_conv c\<rparr>"
  obtain n A1 head' s' where r: "App_Send E 0 b ?h A s = Some (n, A1, head', s')" "app_step A A1" "ag_reqMap A1 = ag_reqMap A"
    using App_Send_ok [OF wf env, of 0 b ?h s] by (elim exE conjE) rule
  let ?A1 = "A1\<lparr>ag_head := head'\<rparr>"
  let ?c = "c\<lparr>ac_stat := afterSend n (ac_stat c)\<rparr>"
  have st: "app_step A ?A1" "ag_reqMap ?A1 = ag_reqMap A" using r(2,3) by (simp_all add: app_step_def app_rest_def)
  have wf1: "app_wf ?A1" by (rule app_step_wf [OF wf st])
  have h: "ag_heap ?A1 = ag_heap A" using st by (simp add: app_step_def app_rest_def)
  have run: "AppConn_Send E b a A s = Some (n, app_set a ?c ?A1, s')"
    using c h r(1) by (simp add: AppConn_Send_def cconSend_def)
  have "app_wf (app_set a ?c ?A1)" using app_set_wf [OF wf1, of a c ?c] h c(1) by simp
  moreover have "ag_heap (app_set a ?c ?A1) = (ag_heap A)(a \<mapsto> ?c)" using h by (simp add: app_set_def)
  moreover have "net_kept (ag_net A) (ag_net (app_set a ?c ?A1))" using st by (simp add: app_step_def app_set_def)
  moreover have "ag_mConns (app_set a ?c ?A1) = ag_mConns A" "ag_convMap (app_set a ?c ?A1) = ag_convMap A"
     "ag_isClient (app_set a ?c ?A1) = ag_isClient A" "ag_key (app_set a ?c ?A1) = ag_key A"
    using st by (simp_all add: app_step_def app_rest_def app_set_def)
  moreover have "b \<noteq> [] \<longrightarrow> (if Group_Alive (ag_net A)
          then \<exists>x d. x \<in> snd ` set (ng_mConns (ag_net A)) \<and> ng_heap (ag_net A) x = Some d \<and> Conn_Alive d
            \<and> en_out E (set_head (Some ((ag_head A)\<lparr>eh_conv := ac_conv c, eh_key := nc_intKey d\<rparr>)) (nc_info d)) b s = (n, s')
          else n = ERR_NO_CONN \<and> s' = s)"
    using App_Send_out [OF wf env _ r(1)] by (rule impI)
  ultimately show ?thesis using run
    by (intro exI [of _ n] exI [of _ "app_set a ?c ?A1"] exI [of _ s'] exI [of _ "afterSend n (ac_stat c)"] conjI) assumption+
qed

subsection \<open>The client's two maps\<close>

text \<open>
  Every connection is filed under the key of its own address and under its own conversation.
\<close>

definition client_wf :: "app_group \<Rightarrow> bool" where
  "client_wf A \<longleftrightarrow> app_wf A \<and> ag_isClient A
     \<and> (\<forall>(k, a) \<in> set (ag_mConns A). \<exists>c. ag_heap A a = Some c \<and> k = CConn_BuildKey (ac_addr c) \<and> ac_outputCb c \<and> ac_onRecvCb c
          \<and> (ac_conv c, a) \<in> set (ag_convMap A))"

lemma BuildKey_inject: "CConn_BuildKey (AfInet ip port) = CConn_BuildKey (AfInet ip' port') \<longleftrightarrow> ip = ip' \<and> port = port'"
proof
  let ?w = "\<lambda>ip :: u32. \<lambda>port :: u16. push_bit 32 (ucast ip :: u64) OR ucast port"
  assume "CConn_BuildKey (AfInet ip port) = CConn_BuildKey (AfInet ip' port')"
  then have eq: "?w ip port = ?w ip' port'" by (simp add: CConn_BuildKey_def to_string_inject word_unat_eq_iff)
  have bit: "bit (?w i p) n = (if n < 32 then bit p n else n < 64 \<and> bit i (n - 32))" for i p n
    by (auto simp: bit_or_iff bit_push_bit_iff bit_ucast_iff dest: bit_imp_le_length)
  have "bit port n = bit port' n" for n
    using bit [of ip port n] bit [of ip' port' n] eq bit_imp_le_length [of port n] bit_imp_le_length [of port' n] by (cases "n < 32") auto
  moreover have "bit ip n = bit ip' n" for n
    using bit [of ip port "n + 32"] bit [of ip' port' "n + 32"] eq bit_imp_le_length [of ip n] bit_imp_le_length [of ip' n]
    by (cases "n < 32") auto
  ultimately show "ip = ip' \<and> port = port'" by (auto intro: bit_eqI)
qed simp

lemma stat_only:
  "c'\<lparr>ac_stat := x\<rparr> = c\<lparr>ac_stat := x\<rparr> \<Longrightarrow> ac_addr c' = ac_addr c \<and> ac_outputCb c' = ac_outputCb c
     \<and> ac_onRecvCb c' = ac_onRecvCb c \<and> ac_conv c' = ac_conv c"
  by (cases c; cases c') simp

lemma client_wfI:
  assumes "app_wf A" "ag_isClient A"
    and "\<And>k a. (k, a) \<in> set (ag_mConns A) \<Longrightarrow> \<exists>c. ag_heap A a = Some c \<and> k = CConn_BuildKey (ac_addr c) \<and> ac_outputCb c
          \<and> ac_onRecvCb c \<and> (ac_conv c, a) \<in> set (ag_convMap A)"
  shows "client_wf A"
  using assms by (auto simp: client_wf_def)

lemma client_wf_conn:
  assumes "client_wf A" "(k, a) \<in> set (ag_mConns A)"
  obtains c where "ag_heap A a = Some c" "k = CConn_BuildKey (ac_addr c)" "ac_outputCb c" "ac_onRecvCb c"
    "(ac_conv c, a) \<in> set (ag_convMap A)" "ac_key c = k" "ac_inited c"
proof -
  have "app_wf A" using assms(1) by (simp add: client_wf_def)
  from app_wf_conn [OF this assms(2)] obtain c where c: "ag_heap A a = Some c" "ac_key c = k" "ac_inited c" by blast
  moreover have "k = CConn_BuildKey (ac_addr c) \<and> ac_outputCb c \<and> ac_onRecvCb c \<and> (ac_conv c, a) \<in> set (ag_convMap A)"
    using assms c(1) unfolding client_wf_def by fastforce
  ultimately show ?thesis using that by blast
qed

lemma client_conv_unique:
  assumes "client_wf A" "(v, a) \<in> set (ag_convMap A)" "(v, b) \<in> set (ag_convMap A)"
  shows "a = b"
  using assms std_less.wf_distinct [of "ag_convMap A"] eq_key_imp_eq_value by (fastforce simp: client_wf_def app_wf_def)

text \<open>A new connection for an address that is not known yet.\<close>

lemma ClientGroup_newConn_ok:
  assumes wf: "client_wf A" and new: "App_ConnOfKey A (CConn_BuildKey addr) = None" "CConn_BuildKey addr \<noteq> ag_key A"
    and fresh: "ag_heap A a = None" and conv: "map_find (<) v (ag_convMap A) = None" and a: "en_fresh E = a"
  shows "\<exists>A'. ClientGroup_newConn E (CConn_BuildKey addr) addr v A = (a, A') \<and> client_wf A' \<and> ag_net A' = ag_net A
     \<and> (CConn_BuildKey addr, a) \<in> set (ag_mConns A') \<and> ag_head A' = ag_head A \<and> ag_key A' = ag_key A
     \<and> ag_heap A' a = Some ((new_CConn (CConn_BuildKey addr) addr v)\<lparr>ac_outputCb := True, ac_onRecvCb := True\<rparr>)"
proof -
  let ?k = "CConn_BuildKey addr"
  let ?c = "(new_CConn ?k addr v)\<lparr>ac_outputCb := True, ac_onRecvCb := True\<rparr>"
  let ?A = "A\<lparr>ag_mConns := map_emplace (<) ?k a (ag_mConns A), ag_heap := (ag_heap A)(a \<mapsto> ?c),
     ag_convMap := map_emplace (<) v a (ag_convMap A)\<rparr>"
  have aw: "app_wf A" "ag_isClient A" using wf by (simp_all add: client_wf_def)
  have run: "ClientGroup_newConn E ?k addr v A = (a, ?A)"
    using a by (simp add: ClientGroup_newConn_def App_AddConn_def app_set_def new_CConn_def Let_def)
  have sets: "set (map_emplace (<) ?k a (ag_mConns A)) = insert (?k, a) (set (ag_mConns A))"
     "set (map_emplace (<) v a (ag_convMap A)) = insert (v, a) (set (ag_convMap A))"
    using new(1) conv by (simp_all add: std_less.set_emplace_new App_ConnOfKey_def)
  have old: "b \<noteq> a" if "(j, b) \<in> set (ag_mConns A)" for j b
    using app_wf_conn [OF aw(1) that] fresh by (metis option.distinct(1))
  have oldv: "b \<noteq> a" if "(w, b) \<in> set (ag_convMap A)" for w b
    using aw(1) that fresh unfolding app_wf_def by fastforce
  have wf': "app_wf ?A"
    unfolding app_wf_def
  proof (intro conjI)
    show "\<forall>(j, b)\<in>set (ag_mConns ?A). j \<noteq> ag_key ?A \<and> (\<exists>c. ag_heap ?A b = Some c \<and> ac_key c = j \<and> ac_inited c)"
      using aw(1) new(2) old by (fastforce simp: sets app_wf_def new_CConn_def)
    show "\<forall>(w, b)\<in>set (ag_convMap ?A). b \<in> snd ` set (ag_mConns ?A) \<and> (\<exists>c. ag_heap ?A b = Some c \<and> ac_conv c = w)"
      using aw(1) oldv by (fastforce simp: sets app_wf_def new_CConn_def)
  qed (use aw in \<open>auto simp: app_wf_def intro: std_less.wf_emplace\<close>)
  have entries: "\<exists>c. ag_heap ?A b = Some c \<and> j = CConn_BuildKey (ac_addr c) \<and> ac_outputCb c \<and> ac_onRecvCb c
      \<and> (ac_conv c, b) \<in> set (ag_convMap ?A)" if "(j, b) \<in> set (ag_mConns ?A)" for j b
  proof (cases "(j, b) = (?k, a)")
    case True
    then show ?thesis using sets(2) by (simp add: new_CConn_def)
  next
    case False
    then have jb: "(j, b) \<in> set (ag_mConns A)" using that sets(1) by auto
    obtain c where "ag_heap A b = Some c" "j = CConn_BuildKey (ac_addr c)" "ac_outputCb c" "ac_onRecvCb c"
       "(ac_conv c, b) \<in> set (ag_convMap A)" using client_wf_conn [OF wf jb] .
    then show ?thesis using old [OF jb] sets(2) by simp
  qed
  have "client_wf ?A" by (rule client_wfI [OF wf' _ entries]) (use aw(2) in simp_all)
  with run sets(1) show ?thesis by (intro exI [of _ ?A]) simp
qed

text \<open>What comes back for a conversation goes to the address of its connection.\<close>

lemma ClientGroup_OnRecv_routes:
  assumes "client_wf A" "(k, a) \<in> set (ag_mConns A)" "ag_heap A a = Some c"
    and "ci_head (info_base info) = Some head" "eh_conv head = ac_conv c" "b \<noteq> []"
  shows "\<exists>A'. App_OnRecv E info b A s = Some (fst (send2Origin E b (ac_addr c) s), A', snd (send2Origin E b (ac_addr c) s))"
proof -
  have c: "(ac_conv c, a) \<in> set (ag_convMap A)" "ac_onRecvCb c" "ac_inited c"
    using client_wf_conn [OF assms(1,2)] assms(3) by (metis option.inject)+
  then have "map_find (<) (ac_conv c) (ag_convMap A) = Some (ac_conv c, a)"
    using std_less.find_member [of "ag_convMap A" "(ac_conv c, a)"] assms(1) by (simp add: client_wf_def app_wf_def)
  with c assms show ?thesis
    by (auto simp: App_OnRecv_def ClientGroup_OnRecv_def AppConn_Input_def client_wf_def case_prod_beta Let_def)
qed

lemma client_wf_stat:
  assumes "client_wf A" "ag_heap A a = Some c" "app_wf A'" "ag_mConns A' = ag_mConns A" "ag_convMap A' = ag_convMap A"
    "ag_isClient A' = ag_isClient A" "ag_heap A' = (ag_heap A)(a \<mapsto> c\<lparr>ac_stat := st\<rparr>)"
  shows "client_wf A'"
proof -
  have "\<exists>c. ag_heap A' b = Some c \<and> j = CConn_BuildKey (ac_addr c) \<and> ac_outputCb c \<and> ac_onRecvCb c
      \<and> (ac_conv c, b) \<in> set (ag_convMap A')" if jb: "(j, b) \<in> set (ag_mConns A)" for j b
  proof -
    obtain d where "ag_heap A b = Some d" "j = CConn_BuildKey (ac_addr d)" "ac_outputCb d" "ac_onRecvCb d"
       "(ac_conv d, b) \<in> set (ag_convMap A)" using client_wf_conn [OF assms(1) jb] .
    then show ?thesis using assms(2,5,7) by (cases "b = a") auto
  qed
  with assms(1,3,4,6) show ?thesis by (auto simp: client_wf_def)
qed

subsection \<open>Properties\<close>

lemma onLocalRecv_routes:
  fixes E :: "'s env"
  assumes wf: "client_wf A" and env: "env_ok E A" and "b \<noteq> []"
    and addr: "CConn_BuildKey addr \<noteq> ag_key A" and fresh: "ag_heap A (en_fresh E) = None"
    and conv: "map_find (<) (ag_convCounter A + 1) (ag_convMap A) = None"
  shows "\<exists>A' s' v addr'. onLocalRecv E b addr A s = Some (A', s') \<and> client_wf A'
     \<and> CConn_BuildKey addr' = CConn_BuildKey addr
     \<and> (if Group_Alive (ag_net A)
        then \<exists>x d n. ng_heap (ag_net A) x = Some d \<and> Conn_Alive d
               \<and> en_out E (set_head (Some ((ag_head A)\<lparr>eh_conv := v, eh_key := nc_intKey d\<rparr>)) (nc_info d)) b s = (n, s')
        else s' = s)
     \<and> (\<forall>(E2 :: 's env) info head b2 s2. ci_head (info_base info) = Some head \<and> eh_conv head = v \<and> b2 \<noteq> [] \<longrightarrow>
          (\<exists>A2. App_OnRecv E2 info b2 A' s2 = Some (fst (send2Origin E2 b2 addr' s2), A2, snd (send2Origin E2 b2 addr' s2))))"
proof -
  let ?k = "CConn_BuildKey addr"
  let ?B = "A\<lparr>ag_convCounter := ag_convCounter A + 1\<rparr>"
  let ?open = "case App_ConnOfKey A ?k of Some a \<Rightarrow> (a, A) | None \<Rightarrow> ClientGroup_newConn E ?k addr (ag_convCounter ?B) ?B"
  have aw: "app_wf A" using wf by (simp add: client_wf_def)
  obtain a A1 c where A1: "?open = (a, A1)" "client_wf A1" "ag_net A1 = ag_net A" "ag_head A1 = ag_head A"
      "(?k, a) \<in> set (ag_mConns A1)" "ag_heap A1 a = Some c" "CConn_BuildKey (ac_addr c) = ?k"
  proof (cases "App_ConnOfKey A ?k")
    case (Some a)
    then have ka: "(?k, a) \<in> set (ag_mConns A)" by (simp add: App_ConnOfKey_member [OF aw])
    obtain c where c: "ag_heap A a = Some c" "?k = CConn_BuildKey (ac_addr c)" using client_wf_conn [OF wf ka] by blast
    have "?open = (a, A)" using Some by simp
    from that [OF this wf refl refl ka c(1) c(2) [symmetric]] show ?thesis .
  next
    case None
    have B: "client_wf ?B" "App_ConnOfKey ?B ?k = None" "?k \<noteq> ag_key ?B" "ag_heap ?B (en_fresh E) = None"
        "map_find (<) (ag_convCounter ?B) (ag_convMap ?B) = None"
      using wf None addr fresh conv by (simp_all add: client_wf_def app_wf_def App_ConnOfKey_def)
    let ?c = "(new_CConn ?k addr (ag_convCounter ?B))\<lparr>ac_outputCb := True, ac_onRecvCb := True\<rparr>"
    obtain A' where A': "ClientGroup_newConn E ?k addr (ag_convCounter ?B) ?B = (en_fresh E, A')" "client_wf A'" "ag_net A' = ag_net ?B"
       "(?k, en_fresh E) \<in> set (ag_mConns A')" "ag_head A' = ag_head ?B" "ag_heap A' (en_fresh E) = Some ?c"
      using ClientGroup_newConn_ok [OF B refl] by (elim exE conjE) rule
    show ?thesis by (rule that [of "en_fresh E" A' ?c]) (use None A' in \<open>simp_all add: new_CConn_def\<close>)
  qed
  have c: "ac_inited c" "ac_outputCb c" using client_wf_conn [OF A1(2,5)] A1(6) by (metis option.inject)+
  have aw1: "app_wf A1" "env_ok E A1" using A1(2,3) env by (simp_all add: client_wf_def env_ok_def)
  obtain n A' s' st where S: "AppConn_Send E b a A1 s = Some (n, A', s')" "app_wf A'"
     "ag_mConns A' = ag_mConns A1" "ag_convMap A' = ag_convMap A1" "ag_isClient A' = ag_isClient A1"
     "ag_heap A' = (ag_heap A1)(a \<mapsto> c\<lparr>ac_stat := st\<rparr>)"
     "b \<noteq> [] \<longrightarrow> (if Group_Alive (ag_net A1)
          then \<exists>x d. x \<in> snd ` set (ng_mConns (ag_net A1)) \<and> ng_heap (ag_net A1) x = Some d \<and> Conn_Alive d
            \<and> en_out E (set_head (Some ((ag_head A1)\<lparr>eh_conv := ac_conv c, eh_key := nc_intKey d\<rparr>)) (nc_info d)) b s = (n, s')
          else n = ERR_NO_CONN \<and> s' = s)"
    using AppConn_Send_ok [OF aw1 A1(6) c, of b s] by (elim exE conjE) rule
  have run: "onLocalRecv E b addr A s = Some (A', s')"
    unfolding onLocalRecv_def Let_def A1(1) by (simp add: S(1))
  have wf': "client_wf A'" by (rule client_wf_stat [OF A1(2,6) S(2-6)])
  have out: "if Group_Alive (ag_net A)
        then \<exists>x d n. ng_heap (ag_net A) x = Some d \<and> Conn_Alive d
               \<and> en_out E (set_head (Some ((ag_head A)\<lparr>eh_conv := ac_conv c, eh_key := nc_intKey d\<rparr>)) (nc_info d)) b s = (n, s')
        else s' = s"
    using S(7) assms(3) unfolding A1(3,4) by (cases "Group_Alive (ag_net A)") auto
  let ?c = "c\<lparr>ac_stat := st\<rparr>"
  have c': "(?k, a) \<in> set (ag_mConns A')" "ag_heap A' a = Some ?c" using A1(5) S(3,6) by simp_all
  have reply: "\<exists>A2. App_OnRecv E2 info b2 A' s2 = Some (fst (send2Origin E2 b2 (ac_addr c) s2), A2, snd (send2Origin E2 b2 (ac_addr c) s2))"
    if "ci_head (info_base info) = Some head \<and> eh_conv head = ac_conv c \<and> b2 \<noteq> []" for E2 :: "'s env" and info head b2 s2
    using ClientGroup_OnRecv_routes [OF wf' c', of info head b2 E2 s2] that by simp
  have "\<forall>E2 info head b2 s2. ci_head (info_base info) = Some head \<and> eh_conv head = ac_conv c \<and> b2 \<noteq> [] \<longrightarrow>
          (\<exists>A2. App_OnRecv (E2 :: 's env) info b2 A' s2
             = Some (fst (send2Origin E2 b2 (ac_addr c) s2), A2, snd (send2Origin E2 b2 (ac_addr c) s2)))"
    using reply by (intro allI impI)
  with run wf' A1(7) out show ?thesis
    by (intro exI [of _ A'] exI [of _ s'] exI [of _ "ac_conv c"] exI [of _ "ac_addr c"] conjI) assumption+
qed





text \<open>
  A client never closes a conversation when the peer resets it. \<open>OnRecvConvRst\<close> looks for the connection under
  the key \<open>conv:address:number\<close> that the server uses; the client files its connections under the address of the
  application, so that for IPv4 addresses the reset is answered with -1 and ignored.
\<close>

theorem client_ignores_conv_reset:
  assumes "client_wf A" and "\<forall>a c. ag_heap A a = Some c \<longrightarrow> (\<exists>ip port. ac_addr c = AfInet ip port)"
  shows "OnRecvConvRst src v A = Some (-1, A)"
proof -
  let ?k = "BuildConvKey (ci_dst (info_base src)) v"
  have "(?k, a) \<notin> set (ag_mConns A)" for a
  proof
    assume ka: "(?k, a) \<in> set (ag_mConns A)"
    obtain c where c: "ag_heap A a = Some c" "?k = CConn_BuildKey (ac_addr c)" using client_wf_conn [OF assms(1) ka] by blast
    obtain ip port where "ac_addr c = AfInet ip port" using assms(2) c(1) by blast
    then obtain n where "?k = to_string n" using c(2) by (simp add: CConn_BuildKey_def)
    moreover have "CHR '':'' \<in> set ?k" by (simp add: BuildConvKey_def)
    ultimately show False using not_digit_notin_to_string [of "CHR '':''" n] by simp
  qed
  then have "App_ConnOfKey A ?k = None"
    using App_ConnOfKey_member [of A ?k] assms(1) by (metis client_wf_def option.exhaust)
  then show ?thesis by (simp add: OnRecvConvRst_def)
qed

theorem client_ignores_conv_reset_witness: "OnRecvConvRst (TcpI new_tcp_info) 2 (sample_app True) = Some (-1, sample_app True)"
proof (rule client_ignores_conv_reset)
  show "client_wf (sample_app True)" using sample_app_wf by (simp add: client_wf_def sample_app_def)
qed (simp add: sample_app_def)

end
