(* ===== verification/Services.thy ===== *)
theory Services
  imports Handler Std_Map
begin

section \<open>Services and observers\<close>

text \<open>
  The services of src/src/service: \<open>IService\<close> keeps observers in the order of their registration,
  \<open>TimerService\<close> calls its observers at regular intervals, \<open>RouteService\<close> watches the network and
  \<open>NetService\<close> reports closed TCP connections; src/src/singletons holds the managers of services and
  routes. An observer is an address. What the code throws is a value of \<open>svc_err\<close>; a failed assertion is
  one of them, and so is an iterator that is used after its element was erased; \<open>OutOfFuel\<close> is a
  loop that has not ended, which no theorem below leaves open. libpcap and libdnet are parameters.
\<close>

subsection \<open>Observers\<close>

datatype svc_err = ConcurrentModification | OutOfRange | AssertFailed | BadIterator | OutOfFuel

record service =
  sv_observers :: "nat list"
  sv_inited :: bool
  sv_visitCount :: int
  sv_block :: bool

definition new_service :: service where
  "new_service = \<lparr>sv_observers = [], sv_inited = False, sv_visitCount = 0, sv_block = False\<rparr>"

definition Service_Init :: "service \<Rightarrow> svc_err + int \<times> service" where
  "Service_Init s = (if sv_inited s then Inl AssertFailed else Inr (0, s\<lparr>sv_inited := True\<rparr>))"

definition Service_Close :: "service \<Rightarrow> svc_err + int" where
  "Service_Close s = (if sv_observers s \<noteq> [] then Inl AssertFailed else Inr 0)"

definition RegisterObserver :: "nat \<Rightarrow> service \<Rightarrow> svc_err + int \<times> service" where
  "RegisterObserver obs s =
     (if sv_visitCount s \<noteq> 0 then Inl ConcurrentModification
      else if \<not> sv_inited s then Inl AssertFailed
      else if obs \<notin> set (sv_observers s) then Inr (0, s\<lparr>sv_observers := sv_observers s @ [obs]\<rparr>)
      else Inr (-1, s))"

definition UnRegisterObserver :: "nat \<Rightarrow> service \<Rightarrow> svc_err + int \<times> service" where
  "UnRegisterObserver obs s =
     (if sv_visitCount s \<noteq> 0 then Inl ConcurrentModification
      else if \<not> sv_inited s then Inl AssertFailed
      else if obs \<in> set (sv_observers s) then Inr (0, s\<lparr>sv_observers := remove1 obs (sv_observers s)\<rparr>)
      else Inr (-1, s))"

definition ObserverSize :: "service \<Rightarrow> nat" where
  "ObserverSize s = length (sv_observers s)"

definition ContainsObserver :: "nat \<Rightarrow> service \<Rightarrow> bool" where
  "ContainsObserver obs s \<longleftrightarrow> obs \<in> set (sv_observers s)"

definition SetBlock :: "bool \<Rightarrow> service \<Rightarrow> service" where
  "SetBlock b s = s\<lparr>sv_block := b\<rparr>"

text \<open>
  The iterator is an index into the vector. While one exists the observers are changed by
  \<open>Remove\<close> only, because the other operations throw.
\<close>

definition NewIterator :: "service \<Rightarrow> nat \<times> service" where
  "NewIterator s = (0, s\<lparr>sv_visitCount := sv_visitCount s + 1\<rparr>)"

definition DeleteIterator :: "service \<Rightarrow> service" where
  "DeleteIterator s = s\<lparr>sv_visitCount := sv_visitCount s - 1\<rparr>"

definition HasNext :: "nat \<Rightarrow> service \<Rightarrow> bool" where
  "HasNext i s \<longleftrightarrow> i < length (sv_observers s)"

definition Iterator_Next :: "nat \<Rightarrow> service \<Rightarrow> svc_err + nat \<times> nat" where
  "Iterator_Next i s = (if i \<ge> length (sv_observers s) then Inl OutOfRange else Inr (sv_observers s ! i, i + 1))"

definition Iterator_Remove :: "nat \<Rightarrow> service \<Rightarrow> svc_err + nat \<times> service" where
  "Iterator_Remove i s =
     (if \<not> HasNext i s then Inl OutOfRange
      else Inr (i, s\<lparr>sv_observers := take i (sv_observers s) @ drop (i + 1) (sv_observers s)\<rparr>))"

text \<open>
  \<open>ServiceUtil::ForEach\<close>: the callback may use the service and may throw; either way the iterator
  is deleted. The fuel is one more than the number of observers, which is enough as long as the
  callback adds none.
\<close>

primrec foreach_loop :: "nat \<Rightarrow> (nat \<Rightarrow> 's \<times> service \<Rightarrow> (svc_err + unit) \<times> 's \<times> service) \<Rightarrow> nat \<Rightarrow> 's \<times> service \<Rightarrow> (svc_err + unit) \<times> 's \<times> service" where
  "foreach_loop 0 f i st = (Inl OutOfFuel, st)"
| "foreach_loop (Suc n) f i st =
     (if HasNext i (snd st) then
        case Iterator_Next i (snd st) of
          Inl e \<Rightarrow> (Inl e, st)
        | Inr (obs, i) \<Rightarrow> (case f obs st of (Inl e, st) \<Rightarrow> (Inl e, st) | (Inr _, st) \<Rightarrow> foreach_loop n f i st)
      else (Inr (), st))"

definition ForEach :: "(nat \<Rightarrow> 's \<times> service \<Rightarrow> (svc_err + unit) \<times> 's \<times> service) \<Rightarrow> 's \<times> service \<Rightarrow> (svc_err + unit) \<times> 's \<times> service" where
  "ForEach f st =
     (let (i, s) = NewIterator (snd st);
          (r, x, s) = foreach_loop (Suc (length (sv_observers s))) f i (fst st, s)
      in (r, x, DeleteIterator s))"

subsection \<open>Timers\<close>

record timer_service =
  tm_service :: service
  tm_timer :: bool
  tm_expireMap :: "(u64, nat) smap"
  tm_seconds :: bool

definition new_timer_service :: "bool \<Rightarrow> timer_service" where
  "new_timer_service seconds = \<lparr>tm_service = new_service, tm_timer = False, tm_expireMap = [], tm_seconds = seconds\<rparr>"

text \<open>The period of the timer that drives \<open>onFlush\<close>, in milliseconds.\<close>

definition timer_period :: "timer_service \<Rightarrow> nat" where
  "timer_period t = (if tm_seconds t then 1000 else 100)"

definition setupTimer :: "timer_service \<Rightarrow> timer_service" where
  "setupTimer t = (if \<not> tm_timer t then t\<lparr>tm_timer := True\<rparr> else t)"

definition Timer_destroyTimer :: "timer_service \<Rightarrow> timer_service" where
  "Timer_destroyTimer t = t\<lparr>tm_timer := False\<rparr>"

definition Timer_Close :: "timer_service \<Rightarrow> svc_err + int \<times> timer_service" where
  "Timer_Close t = (case Service_Close (tm_service t) of Inl e \<Rightarrow> Inl e | Inr n \<Rightarrow> Inr (n, Timer_destroyTimer t))"

text \<open>
  The loop of \<open>nextExpireTs\<close> counts up to the first free time, modulo \<open>2 ^ 64\<close>. One more
  attempt than there are entries is enough.
\<close>

primrec next_free :: "nat \<Rightarrow> u64 \<Rightarrow> (u64, nat) smap \<Rightarrow> u64 option" where
  "next_free 0 ts m = None"
| "next_free (Suc n) ts m = (if map_has (<) ts m then next_free n (ts + 1) m else Some ts)"

definition nextExpireTs :: "u64 \<Rightarrow> (u64, nat) smap \<Rightarrow> u64 option" where
  "nextExpireTs start m = next_free (Suc (length m)) start m"

text \<open>\<open>iv\<close> gives the interval of an observer. A search that does not end is \<open>OutOfFuel\<close>.\<close>

definition Timer_add :: "u64 \<Rightarrow> nat \<Rightarrow> timer_service \<Rightarrow> svc_err + timer_service" where
  "Timer_add start obs t =
     (case nextExpireTs start (tm_expireMap t) of
        None \<Rightarrow> Inl OutOfFuel
      | Some ts \<Rightarrow> Inr (t\<lparr>tm_expireMap := map_emplace (<) ts obs (tm_expireMap t)\<rparr>))"

definition Timer_RegisterDelayed :: "(nat \<Rightarrow> u64) \<Rightarrow> u64 \<Rightarrow> nat option \<Rightarrow> u64 \<Rightarrow> timer_service \<Rightarrow> svc_err + int \<times> timer_service" where
  "Timer_RegisterDelayed iv now obs delay t =
     (case obs of
        None \<Rightarrow> Inr (-1, t)
      | Some obs \<Rightarrow>
          if iv obs = 0 then Inr (-1, t)
          else (let t = setupTimer t in
            case RegisterObserver obs (tm_service t) of
              Inl e \<Rightarrow> Inl e
            | Inr (nret, s) \<Rightarrow>
                (let t = t\<lparr>tm_service := s\<rparr> in
                 if nret = 0 then case Timer_add (now + delay) obs t of Inl e \<Rightarrow> Inl e | Inr t \<Rightarrow> Inr (nret, t)
                 else Inr (nret, t))))"

definition Timer_RegisterObserver :: "(nat \<Rightarrow> u64) \<Rightarrow> u64 \<Rightarrow> nat option \<Rightarrow> timer_service \<Rightarrow> svc_err + int \<times> timer_service" where
  "Timer_RegisterObserver iv now obs t =
     (case obs of None \<Rightarrow> Inr (-1, t) | Some a \<Rightarrow> Timer_RegisterDelayed iv now obs (iv a) t)"

primrec erase_observer :: "nat \<Rightarrow> (u64, nat) smap \<Rightarrow> (u64, nat) smap" where
  "erase_observer obs [] = []"
| "erase_observer obs (e # m) = (if snd e = obs then m else e # erase_observer obs m)"

definition Timer_UnRegisterObserver :: "nat \<Rightarrow> timer_service \<Rightarrow> svc_err + int \<times> timer_service" where
  "Timer_UnRegisterObserver obs t =
     (let t = t\<lparr>tm_expireMap := erase_observer obs (tm_expireMap t)\<rparr> in
      case UnRegisterObserver obs (tm_service t) of Inl e \<Rightarrow> Inl e | Inr (n, s) \<Rightarrow> Inr (n, t\<lparr>tm_service := s\<rparr>))"

text \<open>
  The first loop of \<open>onFlush\<close>. It reads the clock in every turn (\<open>nows\<close>), calls the observer (\<open>f\<close>,
  which may change the service), copies the element, erases it and goes on with the one after
  it. An element that the observer has erased itself makes the iterator invalid. The calls are
  collected in the second component.
\<close>

definition after_key :: "u64 \<Rightarrow> (u64, nat) smap \<Rightarrow> (u64 \<times> nat) option" where
  "after_key k m = List.find (\<lambda>e. k < fst e) m"

primrec flush_loop ::
  "u64 list \<Rightarrow> (nat \<Rightarrow> u64 \<Rightarrow> timer_service \<Rightarrow> svc_err + timer_service) \<Rightarrow> (u64 \<times> nat) option \<Rightarrow> (u64, nat) smap \<Rightarrow> (nat \<times> u64) list
     \<Rightarrow> timer_service \<Rightarrow> svc_err + (u64, nat) smap \<times> (nat \<times> u64) list \<times> timer_service" where
  "flush_loop [] f it aCopy calls t = (if it = None then Inr (aCopy, calls, t) else Inl OutOfFuel)"
| "flush_loop (now # nows) f it aCopy calls t =
     (case it of
        None \<Rightarrow> Inr (aCopy, calls, t)
      | Some (k, obs) \<Rightarrow>
          if now \<ge> k then
            case f obs now t of
              Inl e \<Rightarrow> Inl e
            | Inr t \<Rightarrow>
                (case map_find (<) k (tm_expireMap t) of
                   None \<Rightarrow> Inl BadIterator
                 | Some e \<Rightarrow>
                     flush_loop nows f (after_key k (tm_expireMap t)) (map_emplace (<) (fst e) (snd e) aCopy) (calls @ [(obs, now)])
                       (t\<lparr>tm_expireMap := map_erase (<) k (tm_expireMap t)\<rparr>))
          else Inr (aCopy, calls, t))"

primrec readd_loop :: "(nat \<Rightarrow> u64) \<Rightarrow> u64 \<Rightarrow> (u64, nat) smap \<Rightarrow> timer_service \<Rightarrow> svc_err + timer_service" where
  "readd_loop iv now [] t = Inr t"
| "readd_loop iv now (e # es) t =
     (if ContainsObserver (snd e) (tm_service t) \<and> iv (snd e) > 0 then
        case Timer_add (now + iv (snd e)) (snd e) t of Inl x \<Rightarrow> Inl x | Inr t \<Rightarrow> readd_loop iv now es t
      else readd_loop iv now es t)"

definition Timer_onFlush ::
  "(nat \<Rightarrow> u64) \<Rightarrow> u64 list \<Rightarrow> u64 \<Rightarrow> (nat \<Rightarrow> u64 \<Rightarrow> timer_service \<Rightarrow> svc_err + timer_service) \<Rightarrow> timer_service
     \<Rightarrow> svc_err + (nat \<times> u64) list \<times> timer_service" where
  "Timer_onFlush iv nows now f t =
     (case flush_loop nows f (case tm_expireMap t of [] \<Rightarrow> None | e # _ \<Rightarrow> Some e) [] [] t of
        Inl e \<Rightarrow> Inl e
      | Inr (aCopy, calls, t) \<Rightarrow> (case readd_loop iv now aCopy t of Inl e \<Rightarrow> Inl e | Inr t \<Rightarrow> Inr (calls, t)))"

subsection \<open>The search for a free time ends\<close>

lemma next_free_Some:
  "next_free n ts m = Some r \<Longrightarrow>
     \<not> map_has (<) r m \<and> (\<exists>d. r = ts + of_nat d \<and> d < n \<and> (\<forall>j < d. map_has (<) (ts + of_nat j) m))"
proof (induction n arbitrary: ts)
  case 0
  then show ?case by simp
next
  case (Suc n)
  show ?case
  proof (cases "map_has (<) ts m")
    case False
    then show ?thesis using Suc.prems by (auto intro!: exI [of _ 0])
  next
    case True
    then have "next_free n (ts + 1) m = Some r" using Suc.prems by simp
    from Suc.IH [OF this] obtain d where d: "\<not> map_has (<) r m" "r = ts + 1 + of_nat d" "d < n"
      "\<And>j. j < d \<Longrightarrow> map_has (<) (ts + 1 + of_nat j) m" by auto
    have "map_has (<) (ts + of_nat j) m" if "j < Suc d" for j
      using that d(4) [of "j - 1"] True by (cases j) (auto simp: ac_simps)
    then show ?thesis using d by (intro conjI exI [of _ "Suc d"]) (auto simp: ac_simps)
  qed
qed

lemma next_free_None:
  "next_free n ts m = None \<Longrightarrow> j < n \<Longrightarrow> map_has (<) (ts + of_nat j) m"
proof (induction n arbitrary: ts j)
  case (Suc n)
  then show ?case using Suc.IH [of "ts + 1" "j - 1"]
    by (cases j) (auto split: if_splits simp: ac_simps)
qed simp

lemma map_has_member: "map_has (<) k m \<longleftrightarrow> k \<in> fst ` set (m :: (u64, 'v) smap)"
  unfolding map_has_def using map_find_None_iff [of "(<)" k m] by auto

text \<open>A run of \<open>length m + 1\<close> different times cannot all be taken.\<close>

lemma next_free_enough:
  fixes m :: "(u64, nat) smap"
  assumes "length m < 2 ^ 64"
  shows "next_free (Suc (length m)) ts m \<noteq> None"
proof
  assume none: "next_free (Suc (length m)) ts m = None"
  define run where "run = (\<lambda>j. ts + of_nat j) ` {..length m}"
  have "inj_on (\<lambda>j. ts + (of_nat j :: u64)) {..length m}"
  proof (rule inj_onI)
    fix i j assume "i \<in> {..length m}" "j \<in> {..length m}" "ts + (of_nat i :: u64) = ts + of_nat j"
    then have "(of_nat i :: u64) = of_nat j" "i < 2 ^ 64" "j < 2 ^ 64" using assms by auto
    then have "unat (of_nat i :: u64) = unat (of_nat j :: u64)" by simp
    then show "i = j" using \<open>i < 2 ^ 64\<close> \<open>j < 2 ^ 64\<close> unfolding unat_of_nat by simp
  qed
  then have "card run = Suc (length m)" unfolding run_def by (simp add: card_image)
  moreover have "run \<subseteq> fst ` set m"
    unfolding run_def using next_free_None [OF none] by (auto simp: map_has_member less_Suc_eq_le)
  then have "card run \<le> card (fst ` set m)" by (intro card_mono) auto
  moreover have "card (fst ` set m) \<le> length m"
    using card_image_le [of "set m" fst] card_length [of m] by simp
  ultimately show False by simp
qed

text \<open>
  C18: \<open>TimerService::nextExpireTs\<close> returns, although its loop has no bound: while there are fewer
  than \<open>2 ^ 64\<close> entries it finds the first free time at or after \<open>start\<close>, counting modulo \<open>2 ^ 64\<close>, after
  at most as many increments as there are entries.
\<close>
theorem next_expire_terminates:
  fixes m :: "(u64, nat) smap"
  assumes "length m < 2 ^ 64"
  shows "\<exists>d. nextExpireTs start m = Some (start + of_nat d) \<and> d \<le> length m
    \<and> \<not> map_has (<) (start + of_nat d) m \<and> (\<forall>j < d. map_has (<) (start + of_nat j) m)"
proof -
  obtain r where "next_free (Suc (length m)) start m = Some r"
    using next_free_enough [OF assms] by blast
  from this next_free_Some [OF this] show ?thesis by (auto simp: nextExpireTs_def simp del: next_free.simps)
qed

theorem next_expire_terminates_witness:
  "\<exists>d. nextExpireTs (-1) [(0, 7), (1, 8), (-1, 9)] = Some (-1 + of_nat d) \<and> d \<le> 3
    \<and> \<not> map_has (<) (-1 + of_nat d) [(0 :: u64, 7 :: nat), (1, 8), (-1, 9)] \<and> (\<forall>j < d. map_has (<) (-1 + of_nat j) [(0 :: u64, 7 :: nat), (1, 8), (-1, 9)])"
  using next_expire_terminates [of "[(0, 7), (1, 8), (-1, 9)]" "-1"] by (simp add: numeral_3_eq_3)

subsection \<open>The timer invariant\<close>

text \<open>
  \<open>timer_inv A t\<close>: every registered observer has exactly one entry in the map of expiry times,
  except those in \<open>A\<close>, which a running \<open>onFlush\<close> has taken out; nothing else is in the map.
\<close>

definition service_ok :: "service \<Rightarrow> bool" where
  "service_ok s \<longleftrightarrow> sv_inited s \<and> sv_visitCount s = 0 \<and> distinct (sv_observers s)"

definition timer_inv :: "nat set \<Rightarrow> timer_service \<Rightarrow> bool" where
  "timer_inv A t \<longleftrightarrow> service_ok (tm_service t) \<and> map_wf (<) (tm_expireMap t) \<and> distinct (map snd (tm_expireMap t))
     \<and> snd ` set (tm_expireMap t) = set (sv_observers (tm_service t)) - A"

definition timer_wf :: "timer_service \<Rightarrow> bool" where
  "timer_wf t \<longleftrightarrow> timer_inv {} t"

lemma timer_inv_simps [simp]:
  "timer_inv A (setupTimer t) = timer_inv A t"
  "tm_service (setupTimer t) = tm_service t"
  "tm_expireMap (setupTimer t) = tm_expireMap t"
  by (auto simp: timer_inv_def setupTimer_def)

lemma set_erase_observer:
  "distinct (map snd m) \<Longrightarrow> set (erase_observer obs m) = {e \<in> set m. snd e \<noteq> obs}"
  by (induction m) (auto simp: image_iff)

lemma erase_observer_filter: "distinct (map snd m) \<Longrightarrow> erase_observer obs m = filter (\<lambda>e. snd e \<noteq> obs) m"
proof (induction m)
  case (Cons e m)
  then have "filter (\<lambda>x. snd x \<noteq> snd e) m = m" by (auto simp: filter_id_conv image_iff)
  then show ?case using Cons by auto
qed simp

lemma timer_inv_length:
  assumes "timer_inv A t"
  shows "length (tm_expireMap t) = card (set (sv_observers (tm_service t)) - A)"
proof -
  have "length (tm_expireMap t) = card (set (map snd (tm_expireMap t)))"
    using assms distinct_card [of "map snd (tm_expireMap t)"] by (simp add: timer_inv_def)
  then show ?thesis using assms by (simp add: timer_inv_def)
qed

text \<open>Adding one entry for a registered observer that has none.\<close>

lemma distinct_snd_emplace:
  "map_find (<) k m = None \<Longrightarrow> v \<notin> snd ` set m \<Longrightarrow> distinct (map snd m) \<Longrightarrow> distinct (map snd (map_emplace (<) (k :: u64) v m))"
proof (induction m)
  case (Cons e m)
  have "snd ` set (map_emplace (<) k v m) \<subseteq> insert v (snd ` set m)"
    using set_map_emplace [of "(<)" k v m] by auto
  then show ?case using Cons by (auto split: if_splits)
qed simp

lemma Timer_add_inv:
  assumes inv: "timer_inv A t" and obs: "obs \<in> set (sv_observers (tm_service t))" "obs \<in> A"
    and few: "length (sv_observers (tm_service t)) < 2 ^ 64"
  shows "\<exists>m. Timer_add start obs t = Inr (t\<lparr>tm_expireMap := m\<rparr>) \<and> timer_inv (A - {obs}) (t\<lparr>tm_expireMap := m\<rparr>)"
proof -
  have "length (tm_expireMap t) \<le> length (sv_observers (tm_service t))"
    using timer_inv_length [OF inv] card_length [of "sv_observers (tm_service t)"]
      card_mono [of "set (sv_observers (tm_service t))" "set (sv_observers (tm_service t)) - A"] by simp
  then obtain ts where ts: "nextExpireTs start (tm_expireMap t) = Some ts"
    using next_free_enough few by (fastforce simp: nextExpireTs_def simp del: next_free.simps)
  have "map_find (<) ts (tm_expireMap t) = None"
    using next_free_Some ts unfolding nextExpireTs_def map_has_def by blast
  then have new: "set (map_emplace (<) ts obs (tm_expireMap t)) = insert (ts, obs) (set (tm_expireMap t))"
    and dist: "obs \<notin> snd ` set (tm_expireMap t) \<Longrightarrow> distinct (map snd (map_emplace (<) ts obs (tm_expireMap t)))"
    using inv by (auto simp: std_less.set_emplace_new timer_inv_def intro!: distinct_snd_emplace)
  have "obs \<notin> snd ` set (tm_expireMap t)" using inv obs by (simp add: timer_inv_def)
  then have "timer_inv (A - {obs}) (t\<lparr>tm_expireMap := map_emplace (<) ts obs (tm_expireMap t)\<rparr>)"
    using inv obs dist new by (auto simp: timer_inv_def std_less.wf_emplace)
  then show ?thesis using ts by (intro exI [of _ "map_emplace (<) ts obs (tm_expireMap t)"]) (simp add: Timer_add_def)
qed

lemma timer_register_wf:
  assumes wf: "timer_wf t" and few: "length (sv_observers (tm_service t)) + 1 < 2 ^ 64"
  shows "\<exists>n t'. Timer_RegisterDelayed iv now (Some obs) delay t = Inr (n, t') \<and> timer_wf t'
    \<and> (n = 0 \<longleftrightarrow> iv obs \<noteq> 0 \<and> \<not> ContainsObserver obs (tm_service t)) \<and> (iv obs \<noteq> 0 \<longrightarrow> ContainsObserver obs (tm_service t'))"
proof (cases "iv obs \<noteq> 0 \<and> obs \<notin> set (sv_observers (tm_service t))")
  case False
  then show ?thesis using wf by (auto simp: Timer_RegisterDelayed_def RegisterObserver_def timer_wf_def timer_inv_def service_ok_def Let_def ContainsObserver_def)
next
  case True
  define s where "s = (tm_service t)\<lparr>sv_observers := sv_observers (tm_service t) @ [obs]\<rparr>"
  have reg: "RegisterObserver obs (tm_service t) = Inr (0, s)"
    using wf True by (simp add: RegisterObserver_def s_def timer_wf_def timer_inv_def service_ok_def)
  have "timer_inv {obs} ((setupTimer t)\<lparr>tm_service := s\<rparr>)"
    using wf True by (auto simp: timer_wf_def timer_inv_def service_ok_def s_def)
  from Timer_add_inv [OF this, of obs "now + delay"] few obtain m where
    "Timer_add (now + delay) obs ((setupTimer t)\<lparr>tm_service := s\<rparr>) = Inr ((setupTimer t)\<lparr>tm_service := s, tm_expireMap := m\<rparr>)"
    "timer_inv {} ((setupTimer t)\<lparr>tm_service := s, tm_expireMap := m\<rparr>)" by (auto simp: s_def)
  then show ?thesis using True reg
    by (simp add: Timer_RegisterDelayed_def timer_wf_def Let_def ContainsObserver_def) (simp add: s_def)
qed

lemma timer_unregister_inv:
  assumes "timer_inv A t"
  shows "\<exists>n t'. Timer_UnRegisterObserver obs t = Inr (n, t') \<and> timer_inv A t'
    \<and> set (sv_observers (tm_service t')) = set (sv_observers (tm_service t)) - {obs}
    \<and> tm_expireMap t' = filter (\<lambda>e. snd e \<noteq> obs) (tm_expireMap t)"
  using assms
  by (auto simp: Timer_UnRegisterObserver_def Let_def UnRegisterObserver_def timer_inv_def service_ok_def
      erase_observer_filter map_wf_filter distinct_map_filter)

subsection \<open>Flushing\<close>

text \<open>
  What \<open>onFlush\<close> relies on: the \<open>OnFlush\<close> of an observer may unregister other observers but keeps
  itself registered, and it registers nothing.
\<close>

definition keeps_itself :: "(nat \<Rightarrow> u64 \<Rightarrow> timer_service \<Rightarrow> svc_err + timer_service) \<Rightarrow> bool" where
  "keeps_itself f \<longleftrightarrow> (\<forall>A obs now t. timer_inv A t \<and> obs \<in> set (sv_observers (tm_service t)) - A \<longrightarrow>
     (\<exists>t'. f obs now t = Inr t' \<and> timer_inv A t' \<and> obs \<in> set (sv_observers (tm_service t'))
       \<and> set (sv_observers (tm_service t')) \<subseteq> set (sv_observers (tm_service t)) \<and> set (tm_expireMap t') \<subseteq> set (tm_expireMap t)))"

definition drop_observer :: "nat \<Rightarrow> nat \<Rightarrow> u64 \<Rightarrow> timer_service \<Rightarrow> svc_err + timer_service" where
  "drop_observer victim obs now t =
     (if obs = victim then Inr t else case Timer_UnRegisterObserver victim t of Inl e \<Rightarrow> Inl e | Inr (_, t) \<Rightarrow> Inr t)"

lemma keeps_itself_drop: "keeps_itself (drop_observer victim)"
  unfolding keeps_itself_def
proof (intro allI impI)
  fix A obs now t assume a: "timer_inv A t \<and> obs \<in> set (sv_observers (tm_service t)) - A"
  then obtain n t' where "Timer_UnRegisterObserver victim t = Inr (n, t')" "timer_inv A t'"
    "set (sv_observers (tm_service t')) = set (sv_observers (tm_service t)) - {victim}"
    "tm_expireMap t' = filter (\<lambda>e. snd e \<noteq> victim) (tm_expireMap t)"
    using timer_unregister_inv by blast
  then show "\<exists>t'. drop_observer victim obs now t = Inr t' \<and> timer_inv A t' \<and> obs \<in> set (sv_observers (tm_service t'))
       \<and> set (sv_observers (tm_service t')) \<subseteq> set (sv_observers (tm_service t)) \<and> set (tm_expireMap t') \<subseteq> set (tm_expireMap t)"
    using a by (auto simp: drop_observer_def)
qed

lemma keeps_itselfD:
  assumes "keeps_itself f" "timer_inv A t" "obs \<in> set (sv_observers (tm_service t)) - A"
  obtains t' where "f obs now t = Inr t'" "timer_inv A t'" "obs \<in> set (sv_observers (tm_service t'))"
    "set (sv_observers (tm_service t')) \<subseteq> set (sv_observers (tm_service t))" "set (tm_expireMap t') \<subseteq> set (tm_expireMap t)"
  using assms unfolding keeps_itself_def by blast

lemma timer_inv_entry:
  "timer_inv A t \<Longrightarrow> (k, obs) \<in> set (tm_expireMap t) \<Longrightarrow> obs \<in> set (sv_observers (tm_service t)) - A"
  unfolding timer_inv_def by (metis image_eqI snd_conv)

text \<open>After the call the entry is still the first one of the map.\<close>

lemma entry_stays_first:
  assumes t: "timer_inv A t" "tm_expireMap t = (k, obs) # m"
    and t': "timer_inv A t'" "obs \<in> set (sv_observers (tm_service t'))" "set (tm_expireMap t') \<subseteq> set (tm_expireMap t)"
  obtains m' where "tm_expireMap t' = (k, obs) # m'" "set m' \<subseteq> set m"
proof -
  have "obs \<notin> A" using timer_inv_entry [OF t(1), of k obs] t(2) by simp
  then have "obs \<in> snd ` set (tm_expireMap t')" using t'(1,2) by (simp add: timer_inv_def)
  then obtain j where j: "(j, obs) \<in> set (tm_expireMap t')" by auto
  moreover have "obs \<notin> snd ` set m" using t by (simp add: timer_inv_def)
  ultimately have "(k, obs) \<in> set (tm_expireMap t')" using t'(3) t(2) by force
  then obtain us vs where us: "tm_expireMap t' = us @ (k, obs) # vs" by (meson split_list)
  have wf: "map_wf (<) (tm_expireMap t)" "map_wf (<) (tm_expireMap t')" using t(1) t'(1) by (simp_all add: timer_inv_def)
  have "us = []"
  proof (rule ccontr)
    assume "us \<noteq> []"
    then obtain e us' where e: "us = e # us'" by (cases us) auto
    then have "fst e < k" using wf(2) us by simp
    moreover have "e \<in> set ((k, obs) # m)" using us e t'(3) t(2) by auto
    then have "k \<le> fst e" using wf(1) t(2) by auto
    ultimately show False by simp
  qed
  moreover have "(k, obs) \<notin> set vs" using wf(2) us by (auto simp: map_wf_def sorted_wrt_append)
  ultimately show thesis using that us t'(3) t(2) by auto
qed

definition first_entry :: "(u64, nat) smap \<Rightarrow> (u64 \<times> nat) option" where
  "first_entry m = (case m of [] \<Rightarrow> None | e # _ \<Rightarrow> Some e)"

lemma after_first: "map_wf (<) ((k, obs) # m) \<Longrightarrow> after_key k ((k, obs) # m) = first_entry m"
  by (cases m) (auto simp: after_key_def first_entry_def)

lemma erase_first: "map_wf (<) ((k :: u64, obs) # m) \<Longrightarrow> map_erase (<) k ((k, obs) # m) = m"
  by (auto simp: map_erase_def filter_id_conv key_equiv_def)

lemma emplace_last:
  "(\<And>e. e \<in> set m \<Longrightarrow> fst e < k) \<Longrightarrow> map_emplace (<) (k :: u64) v m = m @ [(k, v)]"
proof (induction m)
  case (Cons e m)
  have lt: "fst e < k" using Cons.prems [of e] by simp
  then have "\<not> k < fst e" by (rule order_less_not_sym)
  then show ?case using lt Cons.IH Cons.prems by simp
qed simp

lemma flush_loop_safe:
  assumes "keeps_itself f" and "timer_inv (snd ` set aCopy) t" and "distinct (map snd aCopy)"
    and "\<And>e d. e \<in> set aCopy \<Longrightarrow> d \<in> set (tm_expireMap t) \<Longrightarrow> fst e < fst d"
    and "length (tm_expireMap t) < length nows"
  shows "\<exists>more new t'. flush_loop nows f (first_entry (tm_expireMap t)) aCopy calls t = Inr (aCopy @ more, calls @ new, t')
    \<and> timer_inv (snd ` set (aCopy @ more)) t' \<and> distinct (map snd (aCopy @ more)) \<and> set more \<subseteq> set (tm_expireMap t)
    \<and> set (tm_expireMap t') \<subseteq> set (tm_expireMap t)
    \<and> set (sv_observers (tm_service t')) \<subseteq> set (sv_observers (tm_service t))
    \<and> list_all2 (\<lambda>e c. fst c = snd e \<and> fst e \<le> snd c) more new
    \<and> (\<forall>e \<in> set (tm_expireMap t'). \<exists>n \<in> set nows. n < fst e)"
  using assms(2-5)
proof (induction nows arbitrary: aCopy calls t)
  case Nil
  then show ?case by simp
next
  case (Cons now nows)
  show ?case
  proof (cases "tm_expireMap t")
    case Nil
    then show ?thesis using Cons.prems by (intro exI [of _ "[]"] exI [of _ t]) (simp add: first_entry_def)
  next
    case (Cons e m)
    obtain k obs where e: "e = (k, obs)" by (cases e)
    have map: "tm_expireMap t = (k, obs) # m" using Cons e by simp
    have wf: "map_wf (<) ((k, obs) # m)" using Cons.prems(1) map by (simp add: timer_inv_def)
    show ?thesis
    proof (cases "now \<ge> k")
      case False
      then have "\<forall>x \<in> set (tm_expireMap t). now < fst x" using wf map by auto
      then show ?thesis using Cons.prems(1,2) False map
        by (intro exI [of _ "[]"] exI [of _ t]) (auto simp: first_entry_def)
    next
      case True
      have obs: "obs \<in> set (sv_observers (tm_service t)) - snd ` set aCopy"
        using timer_inv_entry [OF Cons.prems(1), of k obs] map by simp
      obtain t1 where t1: "f obs now t = Inr t1" "timer_inv (snd ` set aCopy) t1" "obs \<in> set (sv_observers (tm_service t1))"
        "set (sv_observers (tm_service t1)) \<subseteq> set (sv_observers (tm_service t))" "set (tm_expireMap t1) \<subseteq> set (tm_expireMap t)"
        by (rule keeps_itselfD [OF assms(1) Cons.prems(1) obs])
      obtain m1 where m1: "tm_expireMap t1 = (k, obs) # m1" "set m1 \<subseteq> set m"
        by (rule entry_stays_first [OF Cons.prems(1) map t1(2,3,5)])
      define t2 where "t2 = t1\<lparr>tm_expireMap := m1\<rparr>"
      have wf1: "map_wf (<) ((k, obs) # m1)" and d1: "distinct (map snd ((k, obs) # m1))"
        using t1(2) m1(1) by (simp_all add: timer_inv_def)
      have copy: "map_emplace (<) k obs aCopy = aCopy @ [(k, obs)]"
        using Cons.prems(3) [of _ "(k, obs)"] map by (intro emplace_last) simp
      have step: "flush_loop (now # nows) f (first_entry (tm_expireMap t)) aCopy calls t
        = flush_loop nows f (first_entry (tm_expireMap t2)) (aCopy @ [(k, obs)]) (calls @ [(obs, now)]) t2"
        using True map t1(1) m1(1) after_first [OF wf1] erase_first [OF wf1] copy
        by (simp add: first_entry_def t2_def key_equiv_def)
      have inv2: "timer_inv (snd ` set (aCopy @ [(k, obs)])) t2"
        using t1(2) m1(1) d1 by (auto simp: timer_inv_def t2_def)
      have "distinct (map snd (aCopy @ [(k, obs)]))" using Cons.prems(2) obs by auto
      moreover have "fst x < fst y" if "x \<in> set (aCopy @ [(k, obs)])" "y \<in> set (tm_expireMap t2)" for x y
        using that Cons.prems(3) [of x y] map m1 wf by (auto simp: t2_def)
      moreover have "length (tm_expireMap t2) < length nows"
      proof -
        have "distinct m1" "distinct m" using wf wf1 by (auto dest!: std_less.wf_distinct simp: distinct_map)
        then have "length m1 \<le> length m" using m1(2) by (metis card_mono distinct_card finite_set)
        then show ?thesis using Cons.prems(4) map by (simp add: t2_def)
      qed
      ultimately obtain more new t' where r:
        "flush_loop nows f (first_entry (tm_expireMap t2)) (aCopy @ [(k, obs)]) (calls @ [(obs, now)]) t2
           = Inr ((aCopy @ [(k, obs)]) @ more, (calls @ [(obs, now)]) @ new, t')"
        "timer_inv (snd ` set ((aCopy @ [(k, obs)]) @ more)) t'" "distinct (map snd ((aCopy @ [(k, obs)]) @ more))"
        "set more \<subseteq> set (tm_expireMap t2)" "set (tm_expireMap t') \<subseteq> set (tm_expireMap t2)" "set (sv_observers (tm_service t')) \<subseteq> set (sv_observers (tm_service t2))"
        "list_all2 (\<lambda>e c. fst c = snd e \<and> fst e \<le> snd c) more new"
        "\<forall>e \<in> set (tm_expireMap t'). \<exists>n \<in> set nows. n < fst e"
        using Cons.IH [OF inv2, of "calls @ [(obs, now)]"] by blast
      have "set more \<subseteq> set m" "set (tm_expireMap t') \<subseteq> set m" using r(4,5) m1(2) by (auto simp: t2_def)
      moreover have "set (sv_observers (tm_service t')) \<subseteq> set (sv_observers (tm_service t))"
        using r(6) t1(4) by (auto simp: t2_def)
      ultimately show ?thesis unfolding step using r(1,2,3,7,8) True map
        by (intro exI [of _ "(k, obs) # more"] exI [of _ "(obs, now) # new"] exI [of _ t']) auto
    qed
  qed
qed

lemma readd_loop_safe:
  assumes "timer_inv (snd ` set es) t" and "distinct (map snd es)" and "length (sv_observers (tm_service t)) < 2 ^ 64"
    and "\<And>obs. obs \<in> set (sv_observers (tm_service t)) \<Longrightarrow> 0 < iv obs"
  shows "\<exists>m. readd_loop iv now es t = Inr (t\<lparr>tm_expireMap := m\<rparr>) \<and> timer_wf (t\<lparr>tm_expireMap := m\<rparr>)"
  using assms
proof (induction es arbitrary: t)
  case Nil
  then show ?case by (intro exI [of _ "tm_expireMap t"]) (simp add: timer_wf_def)
next
  case (Cons e es)
  have A: "snd ` set (e # es) - {snd e} = snd ` set es" using Cons.prems(2) by auto
  show ?case
  proof (cases "snd e \<in> set (sv_observers (tm_service t))")
    case True
    then obtain m where m: "Timer_add (now + iv (snd e)) (snd e) t = Inr (t\<lparr>tm_expireMap := m\<rparr>)"
      "timer_inv (snd ` set es) (t\<lparr>tm_expireMap := m\<rparr>)"
      using Timer_add_inv [OF Cons.prems(1) True _ Cons.prems(3), of "now + iv (snd e)"] A by auto
    then obtain m' where "readd_loop iv now es (t\<lparr>tm_expireMap := m\<rparr>) = Inr (t\<lparr>tm_expireMap := m'\<rparr>)" "timer_wf (t\<lparr>tm_expireMap := m'\<rparr>)"
      using Cons.IH [OF m(2)] Cons.prems by auto
    then show ?thesis using True m(1) Cons.prems(4) by (auto simp: ContainsObserver_def)
  next
    case False
    then have "timer_inv (snd ` set es) t" using Cons.prems(1,2) by (auto simp: timer_inv_def)
    from Cons.IH [OF this] show ?thesis using False Cons.prems by (simp add: ContainsObserver_def)
  qed
qed

text \<open>
  C16: A flush of \<open>TimerService\<close> ends without using an erased element as long as no observer unregisters
  itself in its \<open>OnFlush\<close> (it may unregister others). No observer is called twice or before its time;
  each one that is still registered and was due at every clock reading is called; and at the end
  every registered observer has exactly one expiry time again, also those that were taken out
  during the loop, while those that were unregistered have none.
\<close>
theorem timer_flush_safe:
  assumes wf: "timer_wf t" and f: "keeps_itself f"
    and iv: "\<And>obs. obs \<in> set (sv_observers (tm_service t)) \<Longrightarrow> 0 < iv obs"
    and few: "length (sv_observers (tm_service t)) < 2 ^ 64" and clock: "length (sv_observers (tm_service t)) < length nows"
  shows "\<exists>calls t'. Timer_onFlush iv nows now f t = Inr (calls, t') \<and> timer_wf t'
    \<and> set (sv_observers (tm_service t')) \<subseteq> set (sv_observers (tm_service t)) \<and> distinct (map fst calls)
    \<and> (\<forall>c \<in> set calls. \<exists>k. (k, fst c) \<in> set (tm_expireMap t) \<and> k \<le> snd c)
    \<and> (\<forall>(k, obs) \<in> set (tm_expireMap t). ContainsObserver obs (tm_service t') \<and> (\<forall>n \<in> set nows. k \<le> n) \<longrightarrow> obs \<in> fst ` set calls)"
proof -
  have inv: "timer_inv (snd ` set []) t" using wf by (simp add: timer_wf_def)
  have "length (tm_expireMap t) < length nows"
    using timer_inv_length [OF inv] card_length [of "sv_observers (tm_service t)"] clock by simp
  from flush_loop_safe [OF f inv _ _ this, of "[]"] obtain more calls t1 where loop:
    "flush_loop nows f (first_entry (tm_expireMap t)) [] [] t = Inr (more, calls, t1)"
    "timer_inv (snd ` set more) t1" "distinct (map snd more)" "set more \<subseteq> set (tm_expireMap t)"
    "set (tm_expireMap t1) \<subseteq> set (tm_expireMap t)"
    "set (sv_observers (tm_service t1)) \<subseteq> set (sv_observers (tm_service t))"
    "list_all2 (\<lambda>e c. fst c = snd e \<and> fst e \<le> snd c) more calls"
    "\<forall>e \<in> set (tm_expireMap t1). \<exists>n \<in> set nows. n < fst e" by auto
  have fc: "map fst calls = map snd more" using loop(7) by (induction rule: list_all2_induct) auto
  have "length (sv_observers (tm_service t1)) < 2 ^ 64"
  proof -
    have "distinct (sv_observers (tm_service t1))" "distinct (sv_observers (tm_service t))"
      using loop(2) inv by (simp_all add: timer_inv_def service_ok_def)
    then have "length (sv_observers (tm_service t1)) \<le> length (sv_observers (tm_service t))"
      using loop(6) by (metis card_mono distinct_card finite_set)
    then show ?thesis using few by simp
  qed
  moreover have "0 < iv obs" if "obs \<in> set (sv_observers (tm_service t1))" for obs using that loop(6) iv by auto
  ultimately obtain m where m: "readd_loop iv now more t1 = Inr (t1\<lparr>tm_expireMap := m\<rparr>)" "timer_wf (t1\<lparr>tm_expireMap := m\<rparr>)"
    using readd_loop_safe [OF loop(2,3)] by blast
  have "Timer_onFlush iv nows now f t = Inr (calls, t1\<lparr>tm_expireMap := m\<rparr>)"
    using loop(1) m(1) by (simp add: Timer_onFlush_def first_entry_def)
  moreover have "distinct (map fst calls)" using fc loop(3) by simp
  moreover have "\<exists>k. (k, fst c) \<in> set (tm_expireMap t) \<and> k \<le> snd c" if c: "c \<in> set calls" for c
  proof -
    obtain e where "e \<in> set more" "fst c = snd e" "fst e \<le> snd c"
      using list_all2_member_right [OF loop(7) c] by blast
    then show ?thesis using loop(4) by (intro exI [of _ "fst e"]) auto
  qed
  moreover have "obs \<in> fst ` set calls"
    if "(k, obs) \<in> set (tm_expireMap t)" "obs \<in> set (sv_observers (tm_service t1))" "\<forall>n \<in> set nows. k \<le> n" for k obs
  proof (rule ccontr)
    assume "obs \<notin> fst ` set calls"
    then have "obs \<notin> snd ` set more" using fc by (metis list.set_map)
    then have "obs \<in> snd ` set (tm_expireMap t1)" using that(2) loop(2) by (simp add: timer_inv_def)
    then obtain j where j: "(j, obs) \<in> set (tm_expireMap t1)" by auto
    then have "(j, obs) \<in> set (tm_expireMap t)" using loop(5) by blast
    moreover have "inj_on snd (set (tm_expireMap t))" using inv by (simp add: timer_inv_def distinct_map)
    ultimately have "j = k" using inj_onD [of snd "set (tm_expireMap t)" "(j, obs)" "(k, obs)"] that(1) by simp
    then obtain n where "n \<in> set nows" "n < k" using bspec [OF loop(8) j] by auto
    then show False using bspec [OF that(3)] by (simp add: leD)
  qed
  ultimately show ?thesis using m(2) loop(6)
    by (intro exI [of _ calls] exI [of _ "t1\<lparr>tm_expireMap := m\<rparr>"]) (simp add: ContainsObserver_def, blast)
qed

text \<open>Three observers: 7 and 8 are due, 9 is not, and 7 unregisters 8.\<close>

definition sample_timer :: timer_service where
  "sample_timer = \<lparr>tm_service = \<lparr>sv_observers = [7, 8, 9], sv_inited = True, sv_visitCount = 0, sv_block = False\<rparr>,
     tm_timer = True, tm_expireMap = [(100, 7), (101, 8), (900, 9)], tm_seconds = True\<rparr>"

lemma sample_timer_wf: "timer_wf sample_timer"
  by (auto simp: timer_wf_def timer_inv_def service_ok_def sample_timer_def)

theorem timer_flush_safe_witness:
  "\<exists>calls t'. Timer_onFlush (\<lambda>_. 50) [200, 200, 200, 200] 200 (drop_observer 8) sample_timer = Inr (calls, t') \<and> timer_wf t'
    \<and> set (sv_observers (tm_service t')) \<subseteq> set (sv_observers (tm_service sample_timer)) \<and> distinct (map fst calls)
    \<and> (\<forall>c \<in> set calls. \<exists>k. (k, fst c) \<in> set (tm_expireMap sample_timer) \<and> k \<le> snd c)
    \<and> (\<forall>(k, obs) \<in> set (tm_expireMap sample_timer). ContainsObserver obs (tm_service t') \<and> (\<forall>n \<in> set [200, 200, 200, 200]. k \<le> n) \<longrightarrow> obs \<in> fst ` set calls)"
  by (rule timer_flush_safe [OF sample_timer_wf keeps_itself_drop]) (simp_all add: sample_timer_def)

text \<open>An observer that unregisters itself erases the element the loop is about to copy.\<close>

theorem timer_self_unregister_faults:
  assumes "timer_wf t" and "tm_expireMap t = (k, obs) # m" and "k \<le> now"
    and "\<And>n. f obs n t = (case Timer_UnRegisterObserver obs t of Inl e \<Rightarrow> Inl e | Inr (_, t) \<Rightarrow> Inr t)"
  shows "Timer_onFlush iv (now # nows) later f t = Inl BadIterator"
proof -
  obtain n t' where t': "Timer_UnRegisterObserver obs t = Inr (n, t')" "tm_expireMap t' = filter (\<lambda>e. snd e \<noteq> obs) (tm_expireMap t)"
    using timer_unregister_inv [of "{}" t obs] assms(1) unfolding timer_wf_def by blast
  have "map_wf (<) ((k, obs) # m)" using assms(1,2) by (simp add: timer_wf_def timer_inv_def)
  then have "map_find (<) k (tm_expireMap t') = None" using t'(2) assms(2) by (auto simp: map_find_None_iff key_equiv_def)
  then show ?thesis using assms(2-4) t'(1) by (simp add: Timer_onFlush_def)
qed

subsection \<open>The contract of a registry of observers\<close>

text \<open>
  What a client of a service relies on: registering and unregistering answer 0 exactly when they
  change something, they never throw outside of an iteration, and they change nothing else.
  \<open>valid\<close> are the observers the service accepts.
\<close>

datatype reg_op = Reg nat | UnReg nat

locale observer_registry =
  fixes reg :: "nat \<Rightarrow> 'st \<Rightarrow> svc_err + int \<times> 'st"
    and unreg :: "nat \<Rightarrow> 'st \<Rightarrow> svc_err + int \<times> 'st"
    and observers :: "'st \<Rightarrow> nat set"
    and ok :: "'st \<Rightarrow> bool"
    and valid :: "nat \<Rightarrow> bool"
  assumes reg_law: "ok s \<Longrightarrow> valid a \<Longrightarrow>
      \<exists>n s'. reg a s = Inr (n, s') \<and> ok s' \<and> (n = 0 \<longleftrightarrow> a \<notin> observers s) \<and> observers s' = insert a (observers s)"
    and unreg_law: "ok s \<Longrightarrow>
      \<exists>n s'. unreg a s = Inr (n, s') \<and> ok s' \<and> (n = 0 \<longleftrightarrow> a \<in> observers s) \<and> observers s' = observers s - {a}"

primrec run_reg :: "(nat \<Rightarrow> 'st \<Rightarrow> svc_err + int \<times> 'st) \<Rightarrow> (nat \<Rightarrow> 'st \<Rightarrow> svc_err + int \<times> 'st) \<Rightarrow> reg_op list \<Rightarrow> 'st \<Rightarrow> svc_err + int list \<times> 'st" where
  "run_reg reg unreg [] s = Inr ([], s)"
| "run_reg reg unreg (p # ps) s =
     (case (case p of Reg a \<Rightarrow> reg a s | UnReg a \<Rightarrow> unreg a s) of
        Inl e \<Rightarrow> Inl e
      | Inr (n, s) \<Rightarrow> (case run_reg reg unreg ps s of Inl e \<Rightarrow> Inl e | Inr (ns, s) \<Rightarrow> Inr (n # ns, s)))"

text \<open>The same operations on a set.\<close>

primrec set_reg :: "reg_op list \<Rightarrow> nat set \<Rightarrow> bool list \<times> nat set" where
  "set_reg [] S = ([], S)"
| "set_reg (p # ps) S =
     (case p of
        Reg a \<Rightarrow> (case set_reg ps (insert a S) of (bs, S') \<Rightarrow> ((a \<notin> S) # bs, S'))
      | UnReg a \<Rightarrow> (case set_reg ps (S - {a}) of (bs, S') \<Rightarrow> ((a \<in> S) # bs, S')))"

context observer_registry
begin

lemma run_refines_set:
  assumes "ok s" "\<And>a. Reg a \<in> set ps \<Longrightarrow> valid a"
  shows "\<exists>ns s'. run_reg reg unreg ps s = Inr (ns, s') \<and> ok s' \<and> set_reg ps (observers s) = (map (\<lambda>n. n = 0) ns, observers s')"
  using assms
proof (induction ps arbitrary: s)
  case Nil
  then show ?case by simp
next
  case (Cons p ps)
  obtain n s1 where s1: "(case p of Reg a \<Rightarrow> reg a s | UnReg a \<Rightarrow> unreg a s) = Inr (n, s1)" "ok s1"
    "set_reg (p # ps) (observers s) = (case set_reg ps (observers s1) of (bs, S') \<Rightarrow> ((n = 0) # bs, S'))"
  proof (cases p)
    case (Reg a)
    then show thesis using reg_law [OF Cons.prems(1), of a] Cons.prems(2) [of a] that by auto
  next
    case (UnReg a)
    then show thesis using unreg_law [OF Cons.prems(1), of a] that by auto
  qed
  obtain ns s' where "run_reg reg unreg ps s1 = Inr (ns, s')" "ok s'"
    "set_reg ps (observers s1) = (map (\<lambda>n. n = 0) ns, observers s')"
    using Cons.IH [OF s1(2)] Cons.prems(2) by auto
  then show ?case using s1(1,3) by (auto simp del: set_reg.simps)
qed

end

interpretation base_reg: observer_registry RegisterObserver UnRegisterObserver "\<lambda>s. set (sv_observers s)" service_ok "\<lambda>_. True"
  by unfold_locales (auto simp: RegisterObserver_def UnRegisterObserver_def service_ok_def)

text \<open>Observers are addresses, so there are fewer than \<open>2 ^ 63\<close> of them.\<close>

definition timer_ok :: "timer_service \<Rightarrow> bool" where
  "timer_ok t \<longleftrightarrow> timer_wf t \<and> set (sv_observers (tm_service t)) \<subseteq> {..< 2 ^ 63}"

lemma timer_ok_few: "timer_ok t \<Longrightarrow> length (sv_observers (tm_service t)) \<le> 2 ^ 63"
  using card_mono [of "{..< 2 ^ 63 :: nat}" "set (sv_observers (tm_service t))"]
  by (simp add: timer_ok_def timer_wf_def timer_inv_def service_ok_def distinct_card)

lemma Timer_Register_law:
  assumes "timer_ok t" and "0 < iv a" "a < 2 ^ 63"
  shows "\<exists>n t'. Timer_RegisterObserver iv now (Some a) t = Inr (n, t') \<and> timer_ok t'
    \<and> (n = 0 \<longleftrightarrow> a \<notin> set (sv_observers (tm_service t))) \<and> set (sv_observers (tm_service t')) = insert a (set (sv_observers (tm_service t)))"
proof -
  obtain n t' where r: "Timer_RegisterDelayed iv now (Some a) (iv a) t = Inr (n, t')" "timer_wf t'"
    "n = 0 \<longleftrightarrow> iv a \<noteq> 0 \<and> \<not> ContainsObserver a (tm_service t)"
    using timer_register_wf [of t iv now a "iv a"] timer_ok_few [OF assms(1)] assms(1) by (auto simp: timer_ok_def)
  moreover have "set (sv_observers (tm_service t')) = insert a (set (sv_observers (tm_service t)))"
    using r(1) assms(2) unfolding Timer_RegisterDelayed_def
    by (auto simp: Let_def RegisterObserver_def Timer_add_def split: if_splits sum.splits option.splits)
  ultimately show ?thesis using assms by (auto simp: Timer_RegisterObserver_def timer_ok_def ContainsObserver_def)
qed

lemma Timer_UnRegister_law:
  assumes "timer_ok t"
  shows "\<exists>n t'. Timer_UnRegisterObserver a t = Inr (n, t') \<and> timer_ok t'
    \<and> (n = 0 \<longleftrightarrow> a \<in> set (sv_observers (tm_service t))) \<and> set (sv_observers (tm_service t')) = set (sv_observers (tm_service t)) - {a}"
proof -
  obtain n t' where r: "Timer_UnRegisterObserver a t = Inr (n, t')" "timer_inv {} t'"
    "set (sv_observers (tm_service t')) = set (sv_observers (tm_service t)) - {a}"
    using timer_unregister_inv [of "{}" t a] assms unfolding timer_ok_def timer_wf_def by blast
  moreover have "n = 0 \<longleftrightarrow> a \<in> set (sv_observers (tm_service t))"
    using r(1) by (auto simp: Timer_UnRegisterObserver_def UnRegisterObserver_def Let_def split: if_splits)
  ultimately show ?thesis using assms by (auto simp: timer_ok_def timer_wf_def)
qed

interpretation timer_reg: observer_registry "Timer_RegisterObserver iv now \<circ> Some" Timer_UnRegisterObserver
    "\<lambda>t. set (sv_observers (tm_service t))" timer_ok "\<lambda>a. 0 < iv a \<and> a < 2 ^ 63" for iv now
  by unfold_locales (auto simp: Timer_Register_law Timer_UnRegister_law)

text \<open>
  C17: A \<open>TimerService\<close> behaves as a set of observers: any sequence of \<open>RegisterObserver\<close> and
  \<open>UnRegisterObserver\<close> outside of an iteration returns without throwing, each call answers 0 exactly when it
  changes the set, and at the end every member of the set and nothing else has an expiry time.
\<close>
theorem timer_registry_refines_set:
  assumes "timer_ok t" and "\<And>a. Reg a \<in> set ps \<Longrightarrow> 0 < iv a \<and> a < 2 ^ 63"
  shows "\<exists>ns t'. run_reg (Timer_RegisterObserver iv now \<circ> Some) Timer_UnRegisterObserver ps t = Inr (ns, t') \<and> timer_ok t'
    \<and> set_reg ps (set (sv_observers (tm_service t))) = (map (\<lambda>n. n = 0) ns, set (sv_observers (tm_service t')))
    \<and> snd ` set (tm_expireMap t') = set (sv_observers (tm_service t'))"
proof -
  obtain ns t' where "run_reg (Timer_RegisterObserver iv now \<circ> Some) Timer_UnRegisterObserver ps t = Inr (ns, t')" "timer_ok t'"
    "set_reg ps (set (sv_observers (tm_service t))) = (map (\<lambda>n. n = 0) ns, set (sv_observers (tm_service t')))"
    using timer_reg.run_refines_set [OF assms] by blast
  then show ?thesis by (auto simp: timer_ok_def timer_wf_def timer_inv_def)
qed

theorem timer_registry_refines_set_witness:
  "\<exists>ns t'. run_reg (Timer_RegisterObserver (\<lambda>_. 50) 10 \<circ> Some) Timer_UnRegisterObserver [Reg 4, UnReg 7, Reg 4] sample_timer = Inr (ns, t') \<and> timer_ok t'
    \<and> set_reg [Reg 4, UnReg 7, Reg 4] (set (sv_observers (tm_service sample_timer))) = (map (\<lambda>n. n = 0) ns, set (sv_observers (tm_service t')))
    \<and> snd ` set (tm_expireMap t') = set (sv_observers (tm_service t'))"
proof (rule timer_registry_refines_set)
  show "timer_ok sample_timer" using sample_timer_wf by (simp add: timer_ok_def) (simp add: sample_timer_def)
qed auto

end
