(* ===== verification/Route_Service.thy ===== *)
theory Route_Service
  imports Services Conn_Info "HOL-Library.List_Lexorder" "HOL-Library.Char_ord"
begin

section \<open>Watching the network\<close>

text \<open>
  \<open>RouteService\<close> and \<open>NetService\<close> of src/src/service, \<open>RouteManager\<close>, \<open>ServiceManager\<close> and the device
  fields of \<open>ConfManager\<close> of src/src/singletons, and \<open>RouteUtil\<close>. libdnet, libpcap and \<open>inet_addr\<close> are parameters.
\<close>

subsection \<open>Finding the interface (\<open>RouteManager\<close>)\<close>

record gw_addr =
  gw_type :: nat
  gw_ip :: u32

definition ADDR_TYPE_IP :: nat where "ADDR_TYPE_IP = 2"

record cap_addr =
  ca_inet :: bool
  ca_addr :: u32
  ca_netmask :: u32

record cap_dev =
  cd_name :: string
  cd_addresses :: "cap_addr list"

definition new_RouteManager :: "string list \<Rightarrow> string list" where
  "new_RouteManager dns = foldl (\<lambda>targets s. targets @ [''223.5.5.5'']) dns [''223.5.5.5'', ''114.114.114.114'', ''8.8.8.8'']"

text \<open>\<open>route_get\<close> fills in the gateway or fails; it is asked for one target after the other.\<close>

primrec getDefGateway_loop :: "(string \<Rightarrow> u32) \<Rightarrow> (u32 \<Rightarrow> int \<times> gw_addr) \<Rightarrow> string list \<Rightarrow> gw_addr option" where
  "getDefGateway_loop inet_addr route_get [] = None"
| "getDefGateway_loop inet_addr route_get (e # es) =
     (case route_get (inet_addr e) of (nret, gw) \<Rightarrow> if nret = 0 then Some gw else getDefGateway_loop inet_addr route_get es)"

definition getDefGateway :: "bool \<Rightarrow> (string \<Rightarrow> u32) \<Rightarrow> (u32 \<Rightarrow> int \<times> gw_addr) \<Rightarrow> string list \<Rightarrow> gw_addr option" where
  "getDefGateway route_open inet_addr route_get targets =
     (if \<not> route_open then None else getDefGateway_loop inet_addr route_get targets)"

primrec find_addr :: "u32 \<Rightarrow> cap_addr list \<Rightarrow> u32 option" where
  "find_addr gw [] = None"
| "find_addr gw (a # as) =
     (if ca_inet a \<and> and (ca_addr a) (ca_netmask a) = and gw (ca_netmask a) then Some (ca_addr a) else find_addr gw as)"

primrec find_dev :: "u32 \<Rightarrow> cap_dev list \<Rightarrow> (string \<times> string) option" where
  "find_dev gw [] = None"
| "find_dev gw (d # ds) =
     (case find_addr gw (cd_addresses d) of Some a \<Rightarrow> Some (cd_name d, InAddr2Ip a) | None \<Rightarrow> find_dev gw ds)"

text \<open>\<open>devs\<close> is what \<open>pcap_findalldevs\<close> returns: its result and the devices.\<close>

definition getIfaceInfo :: "int \<times> cap_dev list \<Rightarrow> u32 \<Rightarrow> int \<times> string \<times> string" where
  "getIfaceInfo devs gw =
     (case devs of (nret, ds) \<Rightarrow>
        if nret \<noteq> 0 then (-1, [], [])
        else case find_dev gw ds of Some (ifName, ip) \<Rightarrow> (0, ifName, ip) | None \<Rightarrow> (-1, [], []))"

definition GetWanInfo ::
  "bool \<Rightarrow> (string \<Rightarrow> u32) \<Rightarrow> (u32 \<Rightarrow> int \<times> gw_addr) \<Rightarrow> int \<times> cap_dev list \<Rightarrow> string list \<Rightarrow> int \<times> string \<times> string" where
  "GetWanInfo route_open inet_addr route_get devs targets =
     (case getDefGateway route_open inet_addr route_get targets of
        None \<Rightarrow> (-1, [], [])
      | Some gw \<Rightarrow> if gw_type gw \<noteq> ADDR_TYPE_IP then (-1, [], []) else getIfaceInfo devs (gw_ip gw))"

text \<open>The target list is never empty: the constructor puts three targets in and nothing takes one out for good.\<close>

definition AddTargetFront :: "string \<Rightarrow> string list \<Rightarrow> string list" where
  "AddTargetFront target targets =
     (if target = [] then targets
      else (let targets = (case targets of t # ts \<Rightarrow> if t = target then ts else targets | [] \<Rightarrow> []) in target # targets))"

subsection \<open>The services\<close>

definition MSG_CHECK :: int where "MSG_CHECK = 0"

text \<open>\<open>rs_dev\<close> and \<open>rs_ip\<close> are the fields of the configuration that \<open>ConfManager\<close> guards.\<close>

record route_service =
  rs_service :: service
  rs_handler :: "handler option"
  rs_interval :: u64
  rs_dev :: string
  rs_ip :: string

definition new_route_service :: "nat \<Rightarrow> string \<Rightarrow> string \<Rightarrow> route_service" where
  "new_route_service this dev ip = \<lparr>rs_service = new_service, rs_handler = Some (new_handler this True), rs_interval = 1, rs_dev = dev, rs_ip = ip\<rparr>"

definition SetDev :: "string \<Rightarrow> route_service \<Rightarrow> route_service" where
  "SetDev dev r = r\<lparr>rs_dev := dev\<rparr>"

definition SetIp :: "string \<Rightarrow> route_service \<Rightarrow> route_service" where
  "SetIp ip r = r\<lparr>rs_ip := ip\<rparr>"

definition UpdateDevInfo :: "string \<Rightarrow> string \<Rightarrow> route_service \<Rightarrow> route_service" where
  "UpdateDevInfo ifName ip r = r\<lparr>rs_dev := ifName, rs_ip := ip\<rparr>"

definition SameNetwork :: "string \<Rightarrow> string \<Rightarrow> string \<Rightarrow> string \<Rightarrow> bool" where
  "SameNetwork dev1 ip1 dev2 ip2 \<longleftrightarrow> dev1 = dev2 \<and> ip1 = ip2"

definition Route_Close :: "route_service \<Rightarrow> (svc_err + int) \<times> route_service" where
  "Route_Close r = (Service_Close (rs_service r), r\<lparr>rs_handler := None\<rparr>)"

definition doubleIntervalSec :: "route_service \<Rightarrow> route_service" where
  "doubleIntervalSec r = (let i = rs_interval r * 2 in r\<lparr>rs_interval := if i > 16 then 1 else i\<rparr>)"

text \<open>\<open>None\<close> is the use of the handler after \<open>Close\<close>.\<close>

definition CheckNetworkStatusDelayed :: "u64 \<Rightarrow> route_service \<Rightarrow> route_service option" where
  "CheckNetworkStatusDelayed now r =
     (if sv_block (rs_service r) then Some r
      else case rs_handler r of
        None \<Rightarrow> None
      | Some h \<Rightarrow>
          (let m = ObtainMessage h MSG_CHECK 0 [] None in
           if \<not> HasMessages h MSG_CHECK then
             case SendMessageDelayed h m (rs_interval r * 1000) now of
               None \<Rightarrow> None
             | Some (_, h) \<Rightarrow> Some (doubleIntervalSec (r\<lparr>rs_handler := Some h\<rparr>))
           else Some r))"

text \<open>
  The observers: \<open>on_up dev ip\<close> and \<open>on_down\<close> are their \<open>OnNetConnected\<close> and \<open>OnNetDisconnected\<close>, which work on a
  state of their own and on the list of observers.
\<close>

type_synonym 's observer_cb = "nat \<Rightarrow> 's \<times> service \<Rightarrow> (svc_err + unit) \<times> 's \<times> service"

definition route_foreach :: "'s observer_cb \<Rightarrow> 's \<times> route_service \<Rightarrow> (svc_err + unit) \<times> 's \<times> route_service" where
  "route_foreach f xr = (case ForEach f (fst xr, rs_service (snd xr)) of (res, x, s) \<Rightarrow> (res, x, (snd xr)\<lparr>rs_service := s\<rparr>))"

definition NotifyOnline :: "(string \<Rightarrow> string \<Rightarrow> 's observer_cb) \<Rightarrow> string \<Rightarrow> string \<Rightarrow> 's \<times> route_service \<Rightarrow> (svc_err + unit) \<times> 's \<times> route_service" where
  "NotifyOnline on_up dev ip xr = route_foreach (on_up dev ip) xr"

definition NotifyOffline :: "'s observer_cb \<Rightarrow> 's \<times> route_service \<Rightarrow> (svc_err + unit) \<times> 's \<times> route_service" where
  "NotifyOffline on_down xr = route_foreach on_down xr"

definition CheckNetworkStatusNow ::
  "int \<times> string \<times> string \<Rightarrow> (string \<Rightarrow> string \<Rightarrow> 's observer_cb) \<Rightarrow> 's observer_cb \<Rightarrow> 's \<times> route_service
     \<Rightarrow> (svc_err + unit) \<times> 's \<times> route_service" where
  "CheckNetworkStatusNow wan on_up on_down xr =
     (if sv_block (rs_service (snd xr)) then (Inr (), xr)
      else case wan of (nret, dev, ip) \<Rightarrow>
        if nret \<noteq> 0 \<or> dev = [] \<or> ip = [] then
          NotifyOffline on_down (fst xr, SetIp [] (SetDev [] (snd xr)))
        else if \<not> SameNetwork (rs_dev (snd xr)) (rs_ip (snd xr)) dev ip then
          NotifyOnline on_up dev ip (fst xr, UpdateDevInfo dev ip (snd xr))
        else (Inr (), xr))"

definition Route_handleMessage ::
  "int \<times> string \<times> string \<Rightarrow> (string \<Rightarrow> string \<Rightarrow> 's observer_cb) \<Rightarrow> 's observer_cb \<Rightarrow> message \<Rightarrow> 's \<times> route_service
     \<Rightarrow> (svc_err + unit) \<times> 's \<times> route_service" where
  "Route_handleMessage wan on_up on_down m xr =
     (if m_what m = MSG_CHECK then CheckNetworkStatusNow wan on_up on_down xr else (Inr (), xr))"

definition NotifyTcpFinOrRst :: "(tcp_info \<Rightarrow> 's observer_cb) \<Rightarrow> tcp_info \<Rightarrow> 's \<times> service \<Rightarrow> (svc_err + unit) \<times> 's \<times> service" where
  "NotifyTcpFinOrRst f info st = (if \<not> sv_block (snd st) then ForEach (f info) st else (Inr (), st))"

subsection \<open>The table of services (\<open>ServiceManager\<close>)\<close>

text \<open>The values are the services themselves, which the table owns.\<close>

definition AddService :: "string \<Rightarrow> service \<Rightarrow> (string, service) smap \<Rightarrow> svc_err + (string, service) smap" where
  "AddService name s m = (if map_has (<) name m then Inl AssertFailed else Inr (map_emplace (<) name s m))"

definition RemoveService :: "string \<Rightarrow> (string, service) smap \<Rightarrow> svc_err + (string, service) smap" where
  "RemoveService name m = (if map_has (<) name m then Inr (map_erase (<) name m) else Inl AssertFailed)"

definition GetService :: "string \<Rightarrow> (string, service) smap \<Rightarrow> service option" where
  "GetService name m = map_option snd (map_find (<) name m)"

primrec init_services :: "(string, service) smap \<Rightarrow> svc_err + int \<times> (string, service) smap" where
  "init_services [] = Inr (0, [])"
| "init_services (e # m) =
     (case Service_Init (snd e) of
        Inl x \<Rightarrow> Inl x
      | Inr (nret, s) \<Rightarrow>
          if nret \<noteq> 0 then Inr (nret, (fst e, s) # m)
          else case init_services m of Inl x \<Rightarrow> Inl x | Inr (n, m) \<Rightarrow> Inr (n, (fst e, s) # m))"

primrec close_services :: "(string, service) smap \<Rightarrow> (string, service) smap \<Rightarrow> svc_err + (string, service) smap" where
  "close_services [] m = Inr m"
| "close_services (e # es) m =
     (case RemoveService (fst e) m of
        Inl x \<Rightarrow> Inl x
      | Inr m \<Rightarrow> (case Service_Close (snd e) of Inl x \<Rightarrow> Inl x | Inr _ \<Rightarrow> close_services es m))"

definition Manager_Close :: "(string, service) smap \<Rightarrow> svc_err + int" where
  "Manager_Close m =
     (case close_services m m of Inl x \<Rightarrow> Inl x | Inr m \<Rightarrow> if m = [] then Inr 0 else Inl AssertFailed)"

subsection \<open>Iterating over observers\<close>

text \<open>A callback that does not throw and works on its own state is called once for each observer, in the order of registration.\<close>

lemma foreach_loop_fold:
  assumes "\<And>obs x s. f obs (x, s) = (Inr (), g obs x, s)" and "length (sv_observers s) - i < n"
  shows "foreach_loop n f i (x, s) = (Inr (), fold g (drop i (sv_observers s)) x, s)"
  using assms(2)
proof (induction n arbitrary: i x)
  case 0
  then show ?case by simp
next
  case (Suc n)
  show ?case
  proof (cases "i < length (sv_observers s)")
    case True
    then have "drop i (sv_observers s) = sv_observers s ! i # drop (Suc i) (sv_observers s)" by (rule Cons_nth_drop_Suc [symmetric])
    then show ?thesis using True Suc.IH [of "Suc i"] Suc.prems assms(1)
      by (simp add: HasNext_def Iterator_Next_def)
  qed (simp add: HasNext_def)
qed

lemma ForEach_fold:
  assumes "\<And>obs x s. f obs (x, s) = (Inr (), g obs x, s)"
  shows "ForEach f (x, s) = (Inr (), fold g (sv_observers s) x, s)"
  using foreach_loop_fold [of f g "s\<lparr>sv_visitCount := sv_visitCount s + 1\<rparr>" 0, OF assms, of "Suc (length (sv_observers s))" x]
  by (simp add: ForEach_def NewIterator_def DeleteIterator_def Let_def del: foreach_loop.simps)

text \<open>Whatever the callback does to the services through their operations, it cannot change the observers it is called from.\<close>

lemma no_change_while_iterating:
  assumes "sv_visitCount s \<noteq> 0"
  shows "RegisterObserver a s = Inl ConcurrentModification" "UnRegisterObserver a s = Inl ConcurrentModification"
  using assms by (simp_all add: RegisterObserver_def UnRegisterObserver_def)


definition log_up :: "string \<Rightarrow> string \<Rightarrow> (nat \<times> bool) list observer_cb" where
  "log_up dev ip obs xs = (Inr (), fst xs @ [(obs, True)], snd xs)"

definition log_down :: "(nat \<times> bool) list observer_cb" where
  "log_down obs xs = (Inr (), fst xs @ [(obs, False)], snd xs)"

definition sample_route :: route_service where
  "sample_route = (new_route_service 1 ''eth0'' ''10.0.0.2'')\<lparr>rs_service := new_service\<lparr>sv_observers := [4, 6], sv_inited := True\<rparr>\<rparr>"


subsection \<open>The interval between checks\<close>

text \<open>What may happen to a route service: a delayed check is asked for, the timer of its handler fires, it is blocked.\<close>

datatype route_event = AskCheck u64 | Fire u64 | Block bool

primrec handle_messages :: "(message \<Rightarrow> 'x \<Rightarrow> (svc_err + unit) \<times> 'x) \<Rightarrow> message list \<Rightarrow> 'x \<Rightarrow> (svc_err + unit) \<times> 'x" where
  "handle_messages f [] x = (Inr (), x)"
| "handle_messages f (m # ms) x = (case f m x of (Inl e, x) \<Rightarrow> (Inl e, x) | (Inr _, x) \<Rightarrow> handle_messages f ms x)"

definition route_step ::
  "int \<times> string \<times> string \<Rightarrow> (string \<Rightarrow> string \<Rightarrow> 's observer_cb) \<Rightarrow> 's observer_cb \<Rightarrow> route_event \<Rightarrow> 's \<times> route_service \<Rightarrow> ('s \<times> route_service) option" where
  "route_step wan on_up on_down ev xr =
     (case ev of
        AskCheck now \<Rightarrow> map_option (Pair (fst xr)) (CheckNetworkStatusDelayed now (snd xr))
      | Block b \<Rightarrow> Some (fst xr, (snd xr)\<lparr>rs_service := SetBlock b (rs_service (snd xr))\<rparr>)
      | Fire now \<Rightarrow>
          (case rs_handler (snd xr) of
             None \<Rightarrow> None
           | Some h \<Rightarrow>
               (case OnTimeout h now of
                  None \<Rightarrow> None
                | Some (_, ms, h) \<Rightarrow>
                    (case handle_messages (Route_handleMessage wan on_up on_down) ms (fst xr, (snd xr)\<lparr>rs_handler := Some h\<rparr>) of
                       (Inl _, _) \<Rightarrow> None
                     | (Inr _, xr) \<Rightarrow> Some xr))))"

primrec route_run ::
  "(string \<Rightarrow> string \<Rightarrow> 's observer_cb) \<Rightarrow> 's observer_cb \<Rightarrow> ((int \<times> string \<times> string) \<times> route_event) list \<Rightarrow> 's \<times> route_service \<Rightarrow> ('s \<times> route_service) option" where
  "route_run on_up on_down [] xr = Some xr"
| "route_run on_up on_down (e # es) xr =
     (case route_step (fst e) on_up on_down (snd e) xr of None \<Rightarrow> None | Some xr \<Rightarrow> route_run on_up on_down es xr)"

definition route_inv :: "route_service \<Rightarrow> bool" where
  "route_inv r \<longleftrightarrow> rs_interval r \<in> {1, 2, 4, 8, 16}
     \<and> (\<exists>h. rs_handler r = Some h \<and> handler_wf h \<and> mCallback h \<and> length (mMessageList h) \<le> 1 \<and> (\<forall>m \<in> set (mMessageList h). m_what m = MSG_CHECK))"

definition event_ok :: "route_event \<Rightarrow> bool" where
  "event_ok ev \<longleftrightarrow> (case ev of AskCheck now \<Rightarrow> now \<noteq> 0 \<and> now < 2 ^ 61 | Fire now \<Rightarrow> now < MAX_MS | Block _ \<Rightarrow> True)"

lemma double_interval: "rs_interval r \<in> {1, 2, 4, 8, 16} \<Longrightarrow> rs_interval (doubleIntervalSec r) \<in> {1, 2, 4, 8, 16}"
  by (auto simp: doubleIntervalSec_def Let_def)

lemma setup_callback [simp]: "mCallback (updateNextMsAndTimer h now) = mCallback h" "h_this (updateNextMsAndTimer h now) = h_this h"
  by (auto simp: updateNextMsAndTimer_def setupOneShotTimer_def destroyTimer_def Let_def)

lemma Route_timeout_callback: "OnTimeout h now = Some (ts, ms, h') \<Longrightarrow> mCallback h' = mCallback h"
  by (auto simp: OnTimeout_def Let_def destroyTimer_def split: if_splits)

lemma check_keeps: "CheckNetworkStatusNow wan on_up on_down xr = (res, xr') \<Longrightarrow>
    rs_interval (snd xr') = rs_interval (snd xr) \<and> rs_handler (snd xr') = rs_handler (snd xr)"
  by (cases xr) (auto simp: CheckNetworkStatusNow_def NotifyOffline_def NotifyOnline_def route_foreach_def SetDev_def SetIp_def
      UpdateDevInfo_def split: prod.splits if_splits)

lemma check_delayed_inv:
  assumes "route_inv r" "now \<noteq> 0" "now < 2 ^ 61"
  shows "\<exists>r'. CheckNetworkStatusDelayed now r = Some r' \<and> route_inv r'
    \<and> (\<not> sv_block (rs_service r) \<longrightarrow> (\<exists>h'. rs_handler r' = Some h' \<and> length (mMessageList h') = 1 \<and> mOneShotTimer h' \<noteq> None))"
proof -
  obtain h where h: "rs_handler r = Some h" "handler_wf h" "mCallback h" "length (mMessageList h) \<le> 1"
    "\<forall>m \<in> set (mMessageList h). m_what m = MSG_CHECK" and i: "rs_interval r \<in> {1, 2, 4, 8, 16}"
    using assms(1) by (auto simp: route_inv_def)
  show ?thesis
  proof (cases "sv_block (rs_service r) \<or> mMessageList h \<noteq> []")
    case True
    have "HasMessages h MSG_CHECK" if "mMessageList h \<noteq> []"
      using that h(5) by (cases "mMessageList h") (auto simp: HasMessages_def)
    moreover have "mOneShotTimer h \<noteq> None \<and> length (mMessageList h) = 1" if "mMessageList h \<noteq> []"
      using that h(2,4) by (cases "mMessageList h") (auto simp: handler_wf_def expiries_def)
    ultimately show ?thesis using assms(1) h(1) True by (auto simp: CheckNetworkStatusDelayed_def Let_def)
  next
    case False
    define d where "d = rs_interval r * 1000"
    have d: "now + d < MAX_MS"
    proof -
      have "d \<in> {1000, 2000, 4000, 8000, 16000}" using i by (auto simp: d_def)
      then have "unat d \<le> 16000" by auto
      moreover have "unat now < 2 ^ 61" using assms(3) by (simp add: word_less_nat_alt)
      ultimately show ?thesis by (simp add: MAX_MS_def word_less_nat_alt unat_word_ariths)
    qed
    obtain h' where h': "SendMessageDelayed h (ObtainMessage h MSG_CHECK 0 [] None) d now = Some (True, h')"
      "mCallback h'" "length (mMessageList h') = 1" "\<forall>m \<in> set (mMessageList h'). m_what m = MSG_CHECK"
      using False h(3) by (auto simp: SendMessageDelayed_def SendMessageAtTime_def Let_def ObtainMessage_def)
    then have wf: "handler_wf h'" using SendMessageAtTime_wf [OF h(2) assms(2) _ d] assms(3)
      by (auto simp: SendMessageDelayed_def MAX_MS_def word_less_nat_alt)
    then have "mOneShotTimer h' \<noteq> None" using h'(3) by (cases "mMessageList h'") (auto simp: handler_wf_def expiries_def)
    moreover have "rs_handler (doubleIntervalSec (r\<lparr>rs_handler := Some h'\<rparr>)) = Some h'" by (simp add: doubleIntervalSec_def Let_def)
    moreover have "rs_interval (doubleIntervalSec (r\<lparr>rs_handler := Some h'\<rparr>)) \<in> {1, 2, 4, 8, 16}"
      by (rule double_interval) (use i in simp)
    ultimately show ?thesis using h h' wf False d_def
      by (simp add: CheckNetworkStatusDelayed_def Let_def HasMessages_def route_inv_def)
  qed
qed

lemma handle_messages_keeps:
  assumes "\<And>obs x s. on_down obs (x, s) = (Inr (), gdown obs x, s)" "\<And>dev ip obs x s. on_up dev ip obs (x, s) = (Inr (), gup dev ip obs x, s)"
  shows "\<exists>xr'. handle_messages (Route_handleMessage wan on_up on_down) ms xr = (Inr (), xr')
    \<and> rs_interval (snd xr') = rs_interval (snd xr) \<and> rs_handler (snd xr') = rs_handler (snd xr)"
proof (induction ms arbitrary: xr)
  case Nil
  then show ?case by simp
next
  case (Cons m ms)
  obtain nret dev ip where wan: "wan = (nret, dev, ip)" by (cases wan)
  have fe: "route_foreach on_down y = (Inr (), fold gdown (sv_observers (rs_service (snd y))) (fst y), snd y)"
    "route_foreach (on_up dev ip) y = (Inr (), fold (gup dev ip) (sv_observers (rs_service (snd y))) (fst y), snd y)" for y
    by (simp_all add: route_foreach_def ForEach_fold [of on_down gdown, OF assms(1)] ForEach_fold [of "on_up dev ip" "gup dev ip", OF assms(2)])
  have "\<exists>xr1. Route_handleMessage wan on_up on_down m xr = (Inr (), xr1)"
    by (simp add: Route_handleMessage_def CheckNetworkStatusNow_def wan NotifyOffline_def NotifyOnline_def fe)
  then obtain xr1 where xr1: "Route_handleMessage wan on_up on_down m xr = (Inr (), xr1)" by blast
  then have "rs_interval (snd xr1) = rs_interval (snd xr) \<and> rs_handler (snd xr1) = rs_handler (snd xr)"
    using check_keeps [of wan on_up on_down xr] by (auto simp: Route_handleMessage_def split: if_splits)
  then show ?case using Cons.IH [of xr1] xr1 by simp
qed

lemma route_step_inv:
  assumes "\<And>obs x s. on_down obs (x, s) = (Inr (), gdown obs x, s)" "\<And>dev ip obs x s. on_up dev ip obs (x, s) = (Inr (), gup dev ip obs x, s)"
    and "route_inv (snd xr)" "event_ok ev"
  shows "\<exists>xr'. route_step wan on_up on_down ev xr = Some xr' \<and> route_inv (snd xr')"
proof (cases ev)
  case (AskCheck now)
  then show ?thesis using check_delayed_inv [OF assms(3), of now] assms(4) by (auto simp: route_step_def event_ok_def)
next
  case (Block b)
  then show ?thesis using assms(3) by (auto simp: route_step_def route_inv_def)
next
  case (Fire now)
  then have "now < MAX_MS" using assms(4) by (simp add: event_ok_def)
  obtain h where h: "rs_handler (snd xr) = Some h" "handler_wf h" "mCallback h" "length (mMessageList h) \<le> 1"
    "\<forall>m \<in> set (mMessageList h). m_what m = MSG_CHECK" and i: "rs_interval (snd xr) \<in> {1, 2, 4, 8, 16}"
    using assms(3) by (auto simp: route_inv_def)
  obtain ts ms h' where t: "OnTimeout h now = Some (ts, ms, h')" "handler_wf h'"
    "mMessageList h' = filter (\<lambda>m. \<not> m_expireMs m < now + INTERVAL) (mMessageList h)"
    using OnTimeout_exact [OF h(2) \<open>now < MAX_MS\<close>] by blast
  have "length (mMessageList h') \<le> 1" unfolding t(3) using length_filter_le h(4) le_trans by blast
  moreover have "\<forall>m \<in> set (mMessageList h'). m_what m = MSG_CHECK" unfolding t(3) using h(5) by simp
  moreover obtain xr' where "handle_messages (Route_handleMessage wan on_up on_down) ms (fst xr, (snd xr)\<lparr>rs_handler := Some h'\<rparr>) = (Inr (), xr')"
    "rs_interval (snd xr') = rs_interval (snd xr)" "rs_handler (snd xr') = Some h'"
    using handle_messages_keeps [where wan = wan and ms = ms and on_up = on_up and on_down = on_down
        and xr = "(fst xr, (snd xr)\<lparr>rs_handler := Some h'\<rparr>)", OF assms(1,2)] by auto
  ultimately show ?thesis using Fire h(1,3) t(1,2) i Route_timeout_callback [OF t(1)]
    by (intro exI [of _ xr']) (simp add: route_step_def route_inv_def)
qed

lemma new_route_inv: "route_inv (new_route_service this dev ip)"
  by (simp add: route_inv_def new_route_service_def handler_wf_def expiries_def new_handler_def)

text \<open>
  C19: However often a check of the network is asked for, at most one is pending, and the time to
  wait for the next one stays one of 1, 2, 4, 8 and 16 seconds: the doubling in 64 bits never runs away
  and never reaches 0. Asking while the service is not blocked always leaves a check pending
  with a timer armed for it, and no event makes the service fail.
\<close>
theorem route_interval_bounded:
  assumes down: "\<And>obs x s. on_down obs (x, s) = (Inr (), gdown obs x, s)" and up: "\<And>dev ip obs x s. on_up dev ip obs (x, s) = (Inr (), gup dev ip obs x, s)"
    and ok: "\<forall>e \<in> set es. event_ok (snd e)"
  shows "\<exists>x' r'. route_run on_up on_down es (x, new_route_service this dev ip) = Some (x', r') \<and> rs_interval r' \<in> {1, 2, 4, 8, 16}
    \<and> (\<exists>h. rs_handler r' = Some h \<and> length (filter (\<lambda>m. m_what m = MSG_CHECK) (mMessageList h)) \<le> 1)
    \<and> (\<forall>now. now \<noteq> 0 \<and> now < 2 ^ 61 \<and> \<not> sv_block (rs_service r') \<longrightarrow>
         (\<exists>r'' h. CheckNetworkStatusDelayed now r' = Some r'' \<and> rs_handler r'' = Some h \<and> HasMessages h MSG_CHECK \<and> mOneShotTimer h \<noteq> None))"
proof -
  have "\<exists>xr'. route_run on_up on_down es xr = Some xr' \<and> route_inv (snd xr')" if "route_inv (snd xr)" for xr
    using that ok
  proof (induction es arbitrary: xr)
    case (Cons e es)
    then obtain xr1 where "route_step (fst e) on_up on_down (snd e) xr = Some xr1" "route_inv (snd xr1)"
      using route_step_inv [where wan = "fst e" and ev = "snd e" and on_up = on_up and on_down = on_down, OF down up Cons.prems(1)]
        Cons.prems(2) by auto
    then show ?case using Cons.IH [of xr1] Cons.prems(2) by simp
  qed simp
  from this [of "(x, new_route_service this dev ip)"] obtain x' r' where
    run: "route_run on_up on_down es (x, new_route_service this dev ip) = Some (x', r')" and inv: "route_inv r'"
    using new_route_inv by auto
  have "\<exists>r'' h. CheckNetworkStatusDelayed now r' = Some r'' \<and> rs_handler r'' = Some h \<and> HasMessages h MSG_CHECK \<and> mOneShotTimer h \<noteq> None"
    if now: "now \<noteq> 0 \<and> now < 2 ^ 61 \<and> \<not> sv_block (rs_service r')" for now
  proof -
    obtain r'' h where r: "CheckNetworkStatusDelayed now r' = Some r''" "route_inv r''"
      "rs_handler r'' = Some h" "length (mMessageList h) = 1" "mOneShotTimer h \<noteq> None"
      using check_delayed_inv [OF inv, of now] now by blast
    then have "HasMessages h MSG_CHECK"
      by (cases "mMessageList h") (auto simp: HasMessages_def route_inv_def)
    then show ?thesis using r by blast
  qed
  moreover obtain h where "rs_handler r' = Some h" "length (mMessageList h) \<le> 1" "rs_interval r' \<in> {1, 2, 4, 8, 16}"
    using inv unfolding route_inv_def by blast
  moreover have "length (filter (\<lambda>m. m_what m = MSG_CHECK) (mMessageList h)) \<le> 1"
    using \<open>length (mMessageList h) \<le> 1\<close> length_filter_le le_trans by blast
  ultimately show ?thesis using run by blast
qed

definition sample_events :: "((int \<times> string \<times> string) \<times> route_event) list" where
  "sample_events = [((0, [], []), AskCheck 100), ((0, [], []), AskCheck 200), ((-1, [], []), Fire 1100), ((0, [], []), AskCheck 1200)]"

theorem route_interval_bounded_witness:
  "\<exists>x' r'. route_run log_up log_down sample_events ([], new_route_service 1 ''eth0'' ''10.0.0.2'') = Some (x', r') \<and> rs_interval r' \<in> {1, 2, 4, 8, 16}
    \<and> (\<exists>h. rs_handler r' = Some h \<and> length (filter (\<lambda>m. m_what m = MSG_CHECK) (mMessageList h)) \<le> 1)
    \<and> (\<forall>now. now \<noteq> 0 \<and> now < 2 ^ 61 \<and> \<not> sv_block (rs_service r') \<longrightarrow>
         (\<exists>r'' h. CheckNetworkStatusDelayed now r' = Some r'' \<and> rs_handler r'' = Some h \<and> HasMessages h MSG_CHECK \<and> mOneShotTimer h \<noteq> None))"
proof (rule route_interval_bounded)
  show "\<forall>e \<in> set sample_events. event_ok (snd e)"
    by (simp add: sample_events_def event_ok_def MAX_MS_def)
  show "log_down obs (x, s) = (Inr (), x @ [(obs, False)], s)" for obs x s by (simp add: log_down_def)
  show "log_up dev ip obs (x, s) = (Inr (), x @ [(obs, True)], s)" for dev ip obs x s by (simp add: log_up_def)
qed

subsection \<open>Targets and services\<close>

text \<open>The constructor of \<open>RouteManager\<close> adds the first of its three public servers three times.\<close>

theorem route_manager_targets: "new_RouteManager dns = dns @ [''223.5.5.5'', ''223.5.5.5'', ''223.5.5.5'']"
  by (simp add: new_RouteManager_def)

text \<open>A target that is known, but not the first one, is added a second time instead of being moved.\<close>

theorem add_target_duplicates:
  "target \<noteq> [] \<Longrightarrow> t \<noteq> target \<Longrightarrow> target \<in> set ts \<Longrightarrow> AddTargetFront target (t # ts) = target # t # ts"
  by (simp add: AddTargetFront_def Let_def)

text \<open>Closing the manager closes every service once, and succeeds exactly when no service has an observer left.\<close>

lemma close_services_ok:
  assumes "map_wf (<) m"
  shows "close_services m m = (if \<forall>e \<in> set m. sv_observers (snd e) = [] then Inr [] else Inl AssertFailed)"
  using assms
proof (induction m)
  case (Cons e m)
  have "map_erase (<) (fst e) (e # m) = m" using Cons.prems by (auto simp: map_erase_def filter_id_conv)
  then have "RemoveService (fst e) (e # m) = Inr m" by (simp add: RemoveService_def map_has_def)
  then show ?case using Cons by (simp add: Service_Close_def)
qed simp

theorem service_table:
  assumes "map_wf (<) m"
  shows "Manager_Close m = (if \<forall>e \<in> set m. sv_observers (snd e) = [] then Inr 0 else Inl AssertFailed)"
    and "GetService name m = None \<Longrightarrow> \<exists>m'. AddService name s m = Inr m' \<and> GetService name m' = Some s \<and> RemoveService name m' = Inr m"
proof -
  show "Manager_Close m = (if \<forall>e \<in> set m. sv_observers (snd e) = [] then Inr 0 else Inl AssertFailed)"
    using close_services_ok [OF assms] by (simp add: Manager_Close_def)
  assume "GetService name m = None"
  then have none: "map_find (<) name m = None" by (simp add: GetService_def)
  then have "map_erase (<) name (map_emplace (<) name s m) = m"
    by (induction m) (auto simp: map_erase_def filter_id_conv map_find_None_iff split: if_splits)
  then show "\<exists>m'. AddService name s m = Inr m' \<and> GetService name m' = Some s \<and> RemoveService name m' = Inr m"
    using none std_less.find_emplace_same [OF assms, of name s]
    by (simp add: AddService_def GetService_def RemoveService_def map_has_def)
qed

end
