(* ===== verification/Client_Net.thy ===== *)
theory Client_Net
  imports Net_Group Services "HOL-Library.Multiset"
begin

section \<open>Dialling (client/ClientNetManager.cpp, net/NetUtil.cpp, client/CConnErrHandler.cpp)\<close>

text \<open>
  The client opens its TCP connections itself: once at the start, waiting for the answer, and
  again for every connection that breaks, in the background and with growing pauses.
  The answers of libuv and of the operating system are parameters: of a socket (its number, and the
  results of the calls on it) or of a request. \<open>cn_closed\<close> lists the handles that were
  passed to \<open>uv_close\<close>. A dial is known by its callback.
\<close>

subsection \<open>Sockets (\<open>NetUtil\<close>)\<close>

record sock_ans =
  sa_socket :: int
  sa_setsockopt :: int
  sa_bind :: int
  sa_connect :: int
  sa_open :: int
  sa_tcp :: handle

text \<open>The result and the descriptors that were closed. The option is set and the socket bound only when the source port is not 0.\<close>

definition createTcpSock :: "sock_ans \<Rightarrow> 'a conn_info_scheme \<Rightarrow> int \<times> int list" where
  "createTcpSock a info =
     (if ci_sp info \<noteq> 0 \<and> sa_setsockopt a \<noteq> 0 then (sa_setsockopt a, [])
      else if ci_sp info \<noteq> 0 \<and> sa_bind a = -1 then (sa_bind a, [])
      else if sa_connect a \<noteq> 0 then (sa_connect a, [sa_socket a])
      else (sa_socket a, []))"

definition CreateTcp :: "sock_ans \<Rightarrow> 'a conn_info_scheme \<Rightarrow> handle option \<times> int list" where
  "CreateTcp a info =
     (case createTcpSock a info of (sock, closed) \<Rightarrow>
        if sock < 0 then (None, closed)
        else if sa_open a \<noteq> 0 then (None, closed @ [sock])
        else (Some (sa_tcp a), closed))"

record connect_ans =
  ca_tcp :: handle
  ca_bind :: int
  ca_connect :: int
  ca_req :: nat

text \<open>A request is its number and the handle it works on.\<close>

definition ConnectTcp :: "connect_ans \<Rightarrow> 'a conn_info_scheme \<Rightarrow> handle list \<Rightarrow> (nat \<times> handle) option \<times> handle list" where
  "ConnectTcp a info closed =
     (if ci_sp info \<noteq> 0 \<and> ca_bind a \<noteq> 0 then (None, closed @ [ca_tcp a])
      else if ca_connect a \<noteq> 0 then (None, closed @ [ca_tcp a])
      else (Some (ca_req a, ca_tcp a), closed))"

subsection \<open>The manager\<close>

definition DIAL_MAX_RETRY :: int where "DIAL_MAX_RETRY = 2147483647"

record dial_helper =
  dh_info :: tcp_info
  dh_cb :: nat
  dh_nRetry :: int
  dh_nextRetryMs :: u64
  dh_durationMs :: u64
  dh_req :: "(nat \<times> handle) option"

record client_net =
  cn_mPending :: "dial_helper list"
  cn_mNetworkAlive :: bool
  cn_ackPool :: "ack_pool option"
  cn_closed :: "handle list"
  cn_cancelled :: "nat list"

definition new_client_net :: "ack_pool \<Rightarrow> client_net" where
  "new_client_net p = \<lparr>cn_mPending = [], cn_mNetworkAlive = True, cn_ackPool = Some p, cn_closed = [], cn_cancelled = []\<rparr>"

definition ClientNet_Init :: "int \<Rightarrow> nat \<Rightarrow> service \<Rightarrow> svc_err + int \<times> service" where
  "ClientNet_Init timer this route = (if timer \<noteq> 0 then Inr (timer, route) else RegisterObserver this route)"

text \<open>The member \<open>conn\<close> of a helper is never set, so there is nothing else to close.\<close>

definition ClientNet_Close :: "nat \<Rightarrow> client_net \<times> service \<Rightarrow> svc_err + int \<times> client_net \<times> service" where
  "ClientNet_Close this ns =
     (case UnRegisterObserver this (snd ns) of
        Inl e \<Rightarrow> Inl e
      | Inr (nret, route) \<Rightarrow>
          (let n = (fst ns)\<lparr>cn_ackPool := None\<rparr> in
           Inr (nret, n\<lparr>cn_cancelled := cn_cancelled n @ map fst (List.map_filter dh_req (cn_mPending n)), cn_mPending := []\<rparr>, route)))"

text \<open>Waiting for the captured handshake uses up \<open>wakes\<close>; \<^const>\<open>None\<close> is a manager without a pool, a failed assertion, or the caller still waiting.\<close>

definition createINetConn :: "sock_names \<Rightarrow> wake_ups \<Rightarrow> u64 \<Rightarrow> handle \<Rightarrow> client_net \<Rightarrow> (net_conn option \<times> client_net) option" where
  "createINetConn names wakes now tcp n =
     (let (nret, tcpInfo) = GetTcpInfo names new_tcp_info (Some tcp) in do {
        pool \<leftarrow> cn_ackPool n;
        if nret = 0 then do {
          (ok, tcpInfo, pool) \<leftarrow> Wait2TransferInfo pool tcpInfo wakes;
          if ok then do {
            key \<leftarrow> KeyForConnInfo (TcpI tcpInfo);
            c \<leftarrow> new_FakeTcp names tcp key tcpInfo now;
            Some (Some c, n\<lparr>cn_ackPool := Some pool\<rparr>) }
          else Some (None, n\<lparr>cn_ackPool := Some (snd (RemoveInfo pool tcpInfo))\<rparr>) }
        else Some (None, n\<lparr>cn_ackPool := Some (snd (RemoveInfo pool tcpInfo))\<rparr>) })"

definition DialTcpSync :: "sock_ans \<Rightarrow> sock_names \<Rightarrow> wake_ups \<Rightarrow> u64 \<Rightarrow> conn_info \<Rightarrow> client_net \<Rightarrow> (net_conn option \<times> client_net) option" where
  "DialTcpSync a names wakes now info n =
     (case fst (CreateTcp a info) of
        None \<Rightarrow> Some (None, n)
      | Some tcp \<Rightarrow> do {
          (c, n) \<leftarrow> createINetConn names wakes now tcp n;
          Some (c, if c = None then n\<lparr>cn_closed := cn_closed n @ [tcp]\<rparr> else n) })"

definition DialTcpAsync :: "conn_info \<Rightarrow> nat \<Rightarrow> u64 \<Rightarrow> client_net \<Rightarrow> int \<times> client_net" where
  "DialTcpAsync info cb now n =
     (let helper = \<lparr>dh_info = TcpInfo_of info, dh_cb = cb, dh_nRetry = DIAL_MAX_RETRY, dh_nextRetryMs = now + 1000,
                    dh_durationMs = 1000, dh_req = None\<rparr>
      in (0, n\<lparr>cn_mPending := cn_mPending n @ [helper]\<rparr>))"

definition dialFailed :: "u64 \<Rightarrow> dial_helper \<Rightarrow> dial_helper" where
  "dialFailed now h =
     (let d = dh_durationMs h * 2; d = (if d > 60000 then 1000 else d)
      in h\<lparr>dh_nRetry := dh_nRetry h - 1, dh_durationMs := d, dh_nextRetryMs := now + d\<rparr>)"

text \<open>What the callbacks are told: the connection or nothing.\<close>

type_synonym dial_event = "nat \<times> net_conn option \<times> tcp_info"

primrec flush_dials :: "(nat \<Rightarrow> connect_ans) \<Rightarrow> u64 \<Rightarrow> nat \<Rightarrow> dial_helper list \<Rightarrow> handle list \<Rightarrow> dial_event list \<times> dial_helper list \<times> handle list" where
  "flush_dials ans now k [] closed = ([], [], closed)"
| "flush_dials ans now k (h # hs) closed =
     (if dh_nRetry h \<le> 0 then
        (case flush_dials ans now (k + 1) hs closed of (evs, hs, closed) \<Rightarrow> ((dh_cb h, None, dh_info h) # evs, hs, closed))
      else if dh_req h = None \<and> now \<ge> dh_nextRetryMs h then
        (case ConnectTcp (ans k) (dh_info h) closed of
           (Some req, closed) \<Rightarrow>
             (case flush_dials ans now (k + 1) hs closed of (evs, hs, closed) \<Rightarrow> (evs, h\<lparr>dh_req := Some req\<rparr> # hs, closed))
         | (None, closed) \<Rightarrow>
             (case flush_dials ans now (k + 1) hs closed of (evs, hs, closed) \<Rightarrow> (evs, dialFailed now h # hs, closed)))
      else (case flush_dials ans now (k + 1) hs closed of (evs, hs, closed) \<Rightarrow> (evs, h # hs, closed)))"

definition flushPending :: "(nat \<Rightarrow> connect_ans) \<Rightarrow> u64 \<Rightarrow> client_net \<Rightarrow> dial_event list \<times> client_net" where
  "flushPending ans now n =
     (if \<not> cn_mNetworkAlive n then ([], n)
      else case flush_dials ans now 0 (cn_mPending n) (cn_closed n) of
        (evs, hs, closed) \<Rightarrow> (evs, n\<lparr>cn_mPending := hs, cn_closed := closed\<rparr>))"

definition ClientNet_OnFlush :: "(nat \<Rightarrow> connect_ans) \<Rightarrow> u64 \<Rightarrow> client_net \<Rightarrow> dial_event list \<times> client_net" where
  "ClientNet_OnFlush ans now n = flushPending ans now n"

text \<open>The first helper with the request is the one that is looked at.\<close>

primrec split_req :: "nat \<Rightarrow> dial_helper list \<Rightarrow> (dial_helper list \<times> dial_helper \<times> handle \<times> dial_helper list) option" where
  "split_req req [] = None"
| "split_req req (h # hs) =
     (case dh_req h of
        Some (r, tcp) \<Rightarrow> if r = req then Some ([], h, tcp, hs)
                         else map_option (\<lambda>(us, x, t, vs). (h # us, x, t, vs)) (split_req req hs)
      | None \<Rightarrow> map_option (\<lambda>(us, x, t, vs). (h # us, x, t, vs)) (split_req req hs))"

definition onTcpConnect ::
  "sock_names \<Rightarrow> wake_ups \<Rightarrow> u64 \<Rightarrow> nat \<Rightarrow> int \<Rightarrow> client_net \<Rightarrow> (dial_event list \<times> client_net) option" where
  "onTcpConnect names wakes now req status n =
     (case split_req req (cn_mPending n) of
        None \<Rightarrow> Some ([], n)
      | Some (us, h, tcp, vs) \<Rightarrow>
          (let failed = (\<lambda>n. n\<lparr>cn_mPending := us @ dialFailed now (h\<lparr>dh_req := None\<rparr>) # vs, cn_closed := cn_closed n @ [tcp]\<rparr>) in
           if status \<noteq> 0 then Some ([], failed n)
           else do {
             (c, n) \<leftarrow> createINetConn names wakes now tcp n;
             let (nret, tcpInfo) = GetTcpInfo names new_tcp_info (Some tcp);
             pool \<leftarrow> cn_ackPool n;
             case c of
               Some conn \<Rightarrow>
                 if nret \<noteq> 0 \<or> ci_dp tcpInfo = 0 \<or> ci_dst tcpInfo = 0 then
                   Some ([], (failed n)\<lparr>cn_ackPool := Some (snd (RemoveInfo pool (dh_info h)))\<rparr>)
                 else Some ([(dh_cb h, Some conn, tcpInfo)],
                            n\<lparr>cn_mPending := us @ vs, cn_ackPool := Some (snd (RemoveInfo pool tcpInfo))\<rparr>)
             | None \<Rightarrow> Some ([], (failed n)\<lparr>cn_ackPool := Some (snd (RemoveInfo pool (dh_info h)))\<rparr>) }))"

definition connectCb ::
  "sock_names \<Rightarrow> wake_ups \<Rightarrow> u64 \<Rightarrow> nat \<Rightarrow> int \<Rightarrow> client_net \<Rightarrow> (dial_event list \<times> client_net) option" where
  "connectCb names wakes now req status n =
     (if status \<noteq> UV_ECANCELED then onTcpConnect names wakes now req status n else Some ([], n))"

definition ClientNet_OnNetConnected :: "client_net \<Rightarrow> client_net" where
  "ClientNet_OnNetConnected n = n\<lparr>cn_mNetworkAlive := True\<rparr>"

definition ClientNet_OnNetDisconnected :: "client_net \<Rightarrow> client_net" where
  "ClientNet_OnNetDisconnected n = n\<lparr>cn_mNetworkAlive := False\<rparr>"

subsection \<open>Dialling again (\<open>CConnErrHandler\<close>)\<close>

definition OnNetConnErr :: "bool \<Rightarrow> any_info \<Rightarrow> nat \<Rightarrow> u64 \<Rightarrow> client_net \<Rightarrow> client_net" where
  "OnNetConnErr closing info cb now n =
     (if closing then n
      else case info of
        TcpI t \<Rightarrow> snd (DialTcpAsync ((base_of t)\<lparr>ci_sp := 0\<rparr>) cb now n)
      | UdpI _ \<Rightarrow> n)"

text \<open>The new connection gets a fresh address \<open>a\<close>.\<close>

definition TcpDialAsyncCb :: "nat \<Rightarrow> net_conn option \<Rightarrow> net_group \<Rightarrow> net_group option" where
  "TcpDialAsyncCb a conn g =
     (case conn of
        None \<Rightarrow> Some g
      | Some c \<Rightarrow> do { c \<leftarrow> Conn_Init c; AddNetConn a (set_conn a c g) })"

subsection \<open>A dial is never lost\<close>

datatype net_event =
    EDial conn_info nat u64
  | EFlush "nat \<Rightarrow> connect_ans" u64
  | EConnect sock_names wake_ups u64 nat int
  | EUp
  | EDown

primrec dial_step :: "net_event \<Rightarrow> client_net \<Rightarrow> (dial_event list \<times> client_net) option" where
  "dial_step (EDial info cb now) n = Some ([], snd (DialTcpAsync info cb now n))"
| "dial_step (EFlush ans now) n = Some (ClientNet_OnFlush ans now n)"
| "dial_step (EConnect names wakes now req status) n = connectCb names wakes now req status n"
| "dial_step EUp n = Some ([], ClientNet_OnNetConnected n)"
| "dial_step EDown n = Some ([], ClientNet_OnNetDisconnected n)"

primrec dial_run :: "net_event list \<Rightarrow> client_net \<Rightarrow> (dial_event list \<times> client_net) option" where
  "dial_run [] n = Some ([], n)"
| "dial_run (e # es) n = do { (evs, n) \<leftarrow> dial_step e n; (evs', n) \<leftarrow> dial_run es n; Some (evs @ evs', n) }"

primrec dialled :: "net_event list \<Rightarrow> nat list" where
  "dialled [] = []"
| "dialled (e # es) = (case e of EDial _ cb _ \<Rightarrow> cb # dialled es | _ \<Rightarrow> dialled es)"

text \<open>
  What the model assumes of the system: \<open>wait_for\<close> times out in the end, an error is not 0, and a
  socket that has names has ports.
\<close>

definition names_ok :: "sock_names \<Rightarrow> bool" where
  "names_ok names \<longleftrightarrow> (\<forall>tcp. fst (names tcp) \<noteq> Inl 0 \<and> snd (names tcp) \<noteq> Inl 0
     \<and> (\<forall>src sp dst dp. names tcp = (Inr (src, sp), Inr (dst, dp)) \<longrightarrow> sp \<noteq> 0 \<and> dp \<noteq> 0))"

definition net_event_ok :: "net_event \<Rightarrow> bool" where
  "net_event_ok e \<longleftrightarrow> (case e of
     EConnect names wakes now req status \<Rightarrow> timeout \<in> fst ` set wakes \<and> names_ok names
   | _ \<Rightarrow> True)"

definition dial_ok :: "dial_helper \<Rightarrow> bool" where
  "dial_ok h \<longleftrightarrow> dh_durationMs h \<in> {1000, 2000, 4000, 8000, 16000, 32000} \<and> 0 \<le> dh_nRetry h \<and> dh_nRetry h \<le> DIAL_MAX_RETRY
     \<and> (dh_req h \<noteq> None \<longrightarrow> 0 < dh_nRetry h)"

definition client_net_wf :: "client_net \<Rightarrow> bool" where
  "client_net_wf n \<longleftrightarrow> (\<forall>h \<in> set (cn_mPending n). dial_ok h) \<and> cn_ackPool n \<noteq> None"

lemma dialFailed_ok: "dial_ok h \<Longrightarrow> 0 < dh_nRetry h \<Longrightarrow> dial_ok ((dialFailed now h)\<lparr>dh_req := None\<rparr>)"
  by (auto simp: dial_ok_def dialFailed_def Let_def)

lemma dialFailed_simps [simp]: "dh_cb (dialFailed now h) = dh_cb h" "dh_req (dialFailed now h) = dh_req h"
  "dialFailed now (h\<lparr>dh_req := r\<rparr>) = (dialFailed now h)\<lparr>dh_req := r\<rparr>"
  by (simp_all add: dialFailed_def Let_def)

lemma Wait2TransferInfo_returns:
  "timeout \<in> fst ` set wakes \<Longrightarrow> \<exists>ok i p. Wait2TransferInfo pool info wakes = Some (ok, i, p)
     \<and> (\<exists>s a. i = info\<lparr>ti_seq := s, ti_ack := a\<rparr>)"
proof (induction pool info wakes rule: Wait2TransferInfo.induct)
  case (1 p info wakes)
  have same: "\<exists>s a. info = info\<lparr>ti_seq := s, ti_ack := a\<rparr>" by (intro exI [of _ "ti_seq info"] exI [of _ "ti_ack info"]) simp
  show ?case
  proof (cases "getInfoIfExists p info")
    case None
    then obtain w q rest where w: "wakes = (w, q) # rest" using 1(2) by (cases wakes) auto
    show ?thesis
    proof (cases w)
      case no_timeout
      then have "Wait2TransferInfo p info wakes = Wait2TransferInfo q info rest"
        using None w by (subst Wait2TransferInfo.simps) simp
      then show ?thesis using 1 None w no_timeout by auto
    next
      case timeout
      then have "Wait2TransferInfo p info wakes = Some (False, info, q)"
        using None w by (subst Wait2TransferInfo.simps) simp
      then show ?thesis using same by blast
    qed
  next
    case (Some i)
    then have "\<exists>s a. i = info\<lparr>ti_seq := s, ti_ack := a\<rparr>" by (auto simp: getInfoIfExists_def split: option.splits)
    moreover have "Wait2TransferInfo p info wakes = Some (True, i, snd (locklessRemove p i))"
      using Some by (subst Wait2TransferInfo.simps) simp
    ultimately show ?thesis by blast
  qed
qed

lemma GetTcpInfo_ok:
  assumes "GetTcpInfo names new_tcp_info (Some tcp) = (0, i)" "names_ok names"
  shows "ci_sp i \<noteq> 0" "ci_dp i \<noteq> 0"
proof -
  obtain src sp dst dp where n: "names tcp = (Inr (src, sp), Inr (dst, dp))"
      "i = new_tcp_info\<lparr>ci_src := src, ci_sp := sp, ci_dst := dst, ci_dp := dp\<rparr>"
  proof (cases "names tcp")
    case (Pair a b)
    have "a \<noteq> Inl 0" "b \<noteq> Inl 0" using assms(2) Pair unfolding names_ok_def by (metis fst_conv, metis snd_conv)
    then show thesis using that assms(1) Pair by (cases a; cases b) (auto simp: GetTcpInfo_def split: prod.splits)
  qed
  then have "sp \<noteq> 0 \<and> dp \<noteq> 0" using assms(2) unfolding names_ok_def by blast
  then show "ci_sp i \<noteq> 0" "ci_dp i \<noteq> 0" using n(2) by simp_all
qed

lemma createINetConn_returns:
  assumes "timeout \<in> fst ` set wakes" "names_ok names" "cn_ackPool n \<noteq> None"
  shows "\<exists>c pool. createINetConn names wakes now tcp n = Some (c, n\<lparr>cn_ackPool := Some pool\<rparr>)"
proof -
  obtain nret i where g: "GetTcpInfo names new_tcp_info (Some tcp) = (nret, i)" by (cases "GetTcpInfo names new_tcp_info (Some tcp)")
  obtain pool where pool: "cn_ackPool n = Some pool" using assms(3) by auto
  show ?thesis
  proof (cases "nret = 0")
    case False
    then show ?thesis using g pool
      by (intro exI [of _ None] exI [of _ "snd (RemoveInfo pool i)"]) (simp add: createINetConn_def)
  next
    case True
    note ports = GetTcpInfo_ok [OF g [unfolded True] assms(2)]
    obtain ok j p s a where w: "Wait2TransferInfo pool i wakes = Some (ok, j, p)" "j = i\<lparr>ti_seq := s, ti_ack := a\<rparr>"
      using Wait2TransferInfo_returns [OF assms(1)] by blast
    obtain k c where "KeyForTcp j = Some k" "new_FakeTcp names tcp k j now = Some c"
      using ports g w(2) by (auto simp: KeyForTcp_def new_FakeTcp_def TcpEquals_def)
    then show ?thesis using g pool w(1) True
      by (intro exI [of _ "if ok then Some c else None"] exI [of _ "if ok then p else snd (RemoveInfo p j)"])
        (simp add: createINetConn_def)
  qed
qed

lemma split_req_Some:
  "split_req req hs = Some (us, h, tcp, vs) \<Longrightarrow> hs = us @ h # vs \<and> dh_req h = Some (req, tcp)"
  by (induction hs arbitrary: us) (auto split: option.splits if_splits prod.splits)

lemma flush_dials_wf:
  assumes "\<forall>h \<in> set hs. dial_ok h" "flush_dials ans now k hs closed = (evs, hs', closed')"
  shows "(\<forall>h \<in> set hs'. dial_ok h) \<and> mset (map dh_cb hs) = mset (map fst evs) + mset (map dh_cb hs')"
  using assms
proof (induction hs arbitrary: k closed evs hs' closed')
  case (Cons h hs)
  define cl where "cl = (if \<not> dh_nRetry h \<le> 0 \<and> dh_req h = None \<and> now \<ge> dh_nextRetryMs h then snd (ConnectTcp (ans k) (dh_info h) closed) else closed)"
  obtain evs1 hs1 cl1 where r: "flush_dials ans now (k + 1) hs cl = (evs1, hs1, cl1)" by (cases "flush_dials ans now (k + 1) hs cl") auto
  have IH: "\<forall>h \<in> set hs1. dial_ok h" "mset (map dh_cb hs) = mset (map fst evs1) + mset (map dh_cb hs1)"
    using Cons.IH [OF _ r] Cons.prems(1) by auto
  show ?case
  proof (cases "dh_nRetry h \<le> 0")
    case True
    then have "evs = (dh_cb h, None, dh_info h) # evs1" "hs' = hs1" using Cons.prems(2) r by (simp_all add: cl_def)
    then show ?thesis using IH by simp
  next
    case False
    have ok: "dial_ok h" "0 < dh_nRetry h" using Cons.prems(1) False by auto
    have "\<exists>h1. dial_ok h1 \<and> dh_cb h1 = dh_cb h \<and> evs = evs1 \<and> hs' = h1 # hs1"
    proof (cases "dh_req h = None \<and> now \<ge> dh_nextRetryMs h")
      case True
      have "dial_ok (dialFailed now h)" using True ok by (auto simp: dial_ok_def dialFailed_def Let_def)
      moreover have "dial_ok (h\<lparr>dh_req := r\<rparr>)" for r using ok by (auto simp: dial_ok_def)
      ultimately show ?thesis using Cons.prems(2) True False r by (cases "ConnectTcp (ans k) (dh_info h) closed") (auto simp: cl_def split: option.splits)
    next
      case no: False
      then have "cl = closed" by (auto simp: cl_def)
      then have "evs = evs1 \<and> hs' = h # hs1" using Cons.prems(2) False no r by (auto split: if_splits)
      then show ?thesis using ok by blast
    qed
    then show ?thesis using IH by auto
  qed
qed simp

lemma dial_step_wf:
  assumes "client_net_wf n" "net_event_ok e"
  shows "\<exists>evs n'. dial_step e n = Some (evs, n') \<and> client_net_wf n'
    \<and> mset (map dh_cb (cn_mPending n)) + mset (dialled [e]) = mset (map fst evs) + mset (map dh_cb (cn_mPending n'))"
proof (cases e)
  case (EDial info cb now)
  then show ?thesis using assms(1)
    by (simp add: DialTcpAsync_def client_net_wf_def dial_ok_def DIAL_MAX_RETRY_def)
next
  case (EFlush ans now)
  obtain evs hs cl where f: "flush_dials ans now 0 (cn_mPending n) (cn_closed n) = (evs, hs, cl)" by (cases "flush_dials ans now 0 (cn_mPending n) (cn_closed n)")
  show ?thesis using flush_dials_wf [OF _ f] assms(1) EFlush f
    by (simp add: ClientNet_OnFlush_def flushPending_def client_net_wf_def)
next
  case (EConnect names wakes now req status)
  then have sys: "timeout \<in> fst ` set wakes" "names_ok names" using assms(2) by (auto simp: net_event_ok_def)
  show ?thesis
  proof (cases "split_req req (cn_mPending n)")
    case None
    then show ?thesis using EConnect assms(1) by (simp add: connectCb_def onTcpConnect_def)
  next
    case (Some x)
    then obtain us h tcp vs where x: "split_req req (cn_mPending n) = Some (us, h, tcp, vs)" by (cases x) auto
    note sp = split_req_Some [OF x]
    then have ok: "dial_ok h" "0 < dh_nRetry h" "\<forall>g \<in> set (us @ vs). dial_ok g"
      using assms(1) by (auto simp: client_net_wf_def dial_ok_def)
    obtain c pool where c: "createINetConn names wakes now tcp n = Some (c, n\<lparr>cn_ackPool := Some pool\<rparr>)"
      using createINetConn_returns [OF sys, of n now tcp] assms(1) unfolding client_net_wf_def by blast
    show ?thesis using EConnect x c ok assms(1) dialFailed_ok [OF ok(1,2), of now] sp
      by (cases c; cases "GetTcpInfo names new_tcp_info (Some tcp)")
        (auto simp: connectCb_def onTcpConnect_def Let_def client_net_wf_def)
  qed
next
  case EUp
  then show ?thesis using assms(1) by (simp add: ClientNet_OnNetConnected_def client_net_wf_def)
next
  case EDown
  then show ?thesis using assms(1) by (simp add: ClientNet_OnNetDisconnected_def client_net_wf_def)
qed

lemma dial_run_wf:
  assumes "client_net_wf n" "\<forall>e \<in> set es. net_event_ok e"
  shows "\<exists>evs n'. dial_run es n = Some (evs, n') \<and> client_net_wf n'
    \<and> mset (map dh_cb (cn_mPending n)) + mset (dialled es) = mset (map fst evs) + mset (map dh_cb (cn_mPending n'))"
  using assms
proof (induction es arbitrary: n)
  case (Cons e es)
  obtain ev1 n1 where s: "dial_step e n = Some (ev1, n1)" "client_net_wf n1"
    "mset (map dh_cb (cn_mPending n)) + mset (dialled [e]) = mset (map fst ev1) + mset (map dh_cb (cn_mPending n1))"
    using dial_step_wf [OF Cons.prems(1), of e] Cons.prems(2) by (auto simp del: dialled.simps)
  obtain ev2 n2 where r: "dial_run es n1 = Some (ev2, n2)" "client_net_wf n2"
    "mset (map dh_cb (cn_mPending n1)) + mset (dialled es) = mset (map fst ev2) + mset (map dh_cb (cn_mPending n2))"
    using Cons.IH [OF s(2)] Cons.prems(2) by auto
  have "mset (dialled (e # es)) = mset (dialled [e]) + mset (dialled es)" by (cases e) auto
  then have "mset (map dh_cb (cn_mPending n)) + mset (dialled (e # es)) = mset (map fst (ev1 @ ev2)) + mset (map dh_cb (cn_mPending n2))"
    using s(3) r(3) by (simp add: ac_simps)
  then show ?case using s(1) r(1,2) by simp
qed simp

text \<open>
  C13: Whatever happens to the network, dialling in the background always returns and loses no
  request: every dial that was ever asked for is either still pending or has been answered, exactly
  once. The pause between two attempts stays within 1 and 32 seconds (it doubles, and one over a
  minute starts again at a second), and the counter of attempts never goes below 0.
\<close>
theorem dials_conserved:
  assumes "\<forall>e \<in> set es. net_event_ok e"
  shows "\<exists>evs n. dial_run es (new_client_net p) = Some (evs, n) \<and> mset (dialled es) = mset (map fst evs) + mset (map dh_cb (cn_mPending n))
    \<and> (\<forall>h \<in> set (cn_mPending n). 1000 \<le> dh_durationMs h \<and> dh_durationMs h \<le> 32000 \<and> 0 \<le> dh_nRetry h \<and> dh_nRetry h \<le> DIAL_MAX_RETRY)"
proof -
  have "client_net_wf (new_client_net p)" by (simp add: client_net_wf_def new_client_net_def)
  from dial_run_wf [OF this assms] obtain evs n where r: "dial_run es (new_client_net p) = Some (evs, n)" "client_net_wf n"
    "mset (dialled es) = mset (map fst evs) + mset (map dh_cb (cn_mPending n))" by (auto simp: new_client_net_def)
  then have "\<forall>h \<in> set (cn_mPending n). 1000 \<le> dh_durationMs h \<and> dh_durationMs h \<le> 32000 \<and> 0 \<le> dh_nRetry h \<and> dh_nRetry h \<le> DIAL_MAX_RETRY"
    by (auto simp: client_net_wf_def dial_ok_def)
  then show ?thesis using r by blast
qed

definition sample_dest :: conn_info where
  "sample_dest = \<lparr>ci_src = 0, ci_dst = 9, ci_sp = 0, ci_dp = 10001, ci_head = None\<rparr>"

definition sample_names :: sock_names where
  "sample_names tcp = (Inr (5, 40000), Inr (9, 10001))"

definition sample_ans :: "nat \<Rightarrow> connect_ans" where
  "sample_ans k = \<lparr>ca_tcp = 70 + k, ca_bind = 0, ca_connect = 0, ca_req = 30 + k\<rparr>"

definition sample_pool :: ack_pool where
  "sample_pool = \<lparr>EXPIRE_INTERVAL_MS = 1000, mInfoPool = [((TcpInfo_of (sample_dest\<lparr>ci_src := 5, ci_sp := 40000\<rparr>))\<lparr>ti_seq := 11, ti_ack := 22\<rparr>, 5000)]\<rparr>"

lemma sample_names_ok: "names_ok sample_names"
  by (simp add: names_ok_def sample_names_def)

theorem dials_conserved_witness:
  "\<exists>evs n. dial_run [EDial sample_dest 1 100, EDial sample_dest 2 200, EFlush sample_ans 1150, EConnect sample_names [(timeout, sample_pool)] 1160 30 (-111)]
       (new_client_net sample_pool) = Some (evs, n) \<and> mset [1, 2] = mset (map fst evs) + mset (map dh_cb (cn_mPending n))
    \<and> (\<forall>h \<in> set (cn_mPending n). 1000 \<le> dh_durationMs h \<and> dh_durationMs h \<le> 32000 \<and> 0 \<le> dh_nRetry h \<and> dh_nRetry h \<le> DIAL_MAX_RETRY)"
  using dials_conserved [of "[EDial sample_dest 1 100, EDial sample_dest 2 200, EFlush sample_ans 1150, EConnect sample_names [(timeout, sample_pool)] 1160 30 (-111)]" sample_pool]
    sample_names_ok by (simp add: net_event_ok_def del: dial_run.simps)

subsection \<open>A dial that is due gets its connection\<close>

definition has_req :: "nat \<Rightarrow> dial_helper \<Rightarrow> bool" where
  "has_req req h \<longleftrightarrow> (\<exists>tcp. dh_req h = Some (req, tcp))"

lemma split_req_found:
  "(\<And>g. g \<in> set us \<Longrightarrow> \<not> has_req req g) \<Longrightarrow> dh_req h = Some (req, tcp) \<Longrightarrow> split_req req (us @ h # vs) = Some (us, h, tcp, vs)"
proof (induction us)
  case (Cons g us)
  then have "split_req req (us @ h # vs) = Some (us, h, tcp, vs)" "\<not> has_req req g" by auto
  then show ?case by (cases "dh_req g") (auto simp: has_req_def split: prod.splits)
qed simp

lemma flush_dials_starts:
  assumes "i < length hs" "0 < dh_nRetry (hs ! i)" "dh_req (hs ! i) = None" "dh_nextRetryMs (hs ! i) \<le> now"
    and "ca_bind (ans (k + i)) = 0" "ca_connect (ans (k + i)) = 0" "inj (ca_req \<circ> ans)"
    and "\<forall>g \<in> set hs. \<not> has_req (ca_req (ans (k + i))) g"
  shows "\<exists>evs us vs cl. flush_dials ans now k hs closed = (evs, us @ (hs ! i)\<lparr>dh_req := Some (ca_req (ans (k + i)), ca_tcp (ans (k + i)))\<rparr> # vs, cl)
    \<and> (\<forall>g \<in> set us. \<not> has_req (ca_req (ans (k + i))) g)"
  using assms
proof (induction hs arbitrary: i k closed)
  case (Cons h hs)
  show ?case
  proof (cases i)
    case 0
    then have "ConnectTcp (ans k) (dh_info h) closed = (Some (ca_req (ans k), ca_tcp (ans k)), closed)"
      using Cons.prems(5,6) by (simp add: ConnectTcp_def)
    moreover obtain evs1 hs1 cl1 where "flush_dials ans now (k + 1) hs closed = (evs1, hs1, cl1)"
      by (cases "flush_dials ans now (k + 1) hs closed") auto
    ultimately show ?thesis using Cons.prems 0
      by (intro exI [of _ evs1] exI [of _ "[]"] exI [of _ hs1] exI [of _ cl1]) simp
  next
    case (Suc j)
    define cl where "cl = (if \<not> dh_nRetry h \<le> 0 \<and> dh_req h = None \<and> now \<ge> dh_nextRetryMs h then snd (ConnectTcp (ans k) (dh_info h) closed) else closed)"
    define x where "x = (hs ! j)\<lparr>dh_req := Some (ca_req (ans (k + i)), ca_tcp (ans (k + i)))\<rparr>"
    obtain evs us vs cl' where IH: "flush_dials ans now (k + 1) hs cl = (evs, us @ x # vs, cl')"
      "\<forall>g \<in> set us. \<not> has_req (ca_req (ans (k + i))) g"
      using Cons.IH [of j "k + 1" cl] Cons.prems Suc by (auto simp: x_def)
    have head: "\<exists>evs' pre. flush_dials ans now k (h # hs) closed = (evs', pre @ us @ x # vs, cl') \<and> (\<forall>g \<in> set pre. \<not> has_req (ca_req (ans (k + i))) g)"
    proof (cases "dh_nRetry h \<le> 0")
      case True
      then show ?thesis using IH(1) by (intro exI [of _ "(dh_cb h, None, dh_info h) # evs"] exI [of _ "[]"]) (simp add: cl_def)
    next
      case False
      have h: "\<not> has_req (ca_req (ans (k + i))) h" using Cons.prems(8) by simp
      have "ca_req (ans k) \<noteq> ca_req (ans (k + i))" using injD [OF Cons.prems(7), of k "k + i"] Suc by auto
      then have new: "\<not> has_req (ca_req (ans (k + i))) (h\<lparr>dh_req := Some (ca_req (ans k), t)\<rparr>)" for t by (simp add: has_req_def)
      have old: "\<not> has_req (ca_req (ans (k + i))) (dialFailed now h)" using h by (simp add: has_req_def)
      show ?thesis
      proof (cases "dh_req h = None \<and> now \<ge> dh_nextRetryMs h")
        case True
        then have cl: "cl = snd (ConnectTcp (ans k) (dh_info h) closed)" using False by (simp add: cl_def)
        define h1 where "h1 = (case fst (ConnectTcp (ans k) (dh_info h) closed) of None \<Rightarrow> dialFailed now h | Some q \<Rightarrow> h\<lparr>dh_req := Some q\<rparr>)"
        have "flush_dials ans now k (h # hs) closed = (evs, h1 # us @ x # vs, cl')"
          using IH(1) cl True False by (cases "ConnectTcp (ans k) (dh_info h) closed") (auto simp: h1_def split: option.splits)
        moreover have "\<not> has_req (ca_req (ans (k + i))) h1" using new old by (simp add: h1_def ConnectTcp_def)
        ultimately show ?thesis by (intro exI [of _ evs] exI [of _ "[h1]"]) simp
      next
        case no: False
        then have "cl = closed" by (auto simp: cl_def)
        then have "flush_dials ans now k (h # hs) closed = (evs, h # us @ x # vs, cl')" using IH(1) False no by auto
        then show ?thesis using h by (intro exI [of _ evs] exI [of _ "[h]"]) simp
      qed
    qed
    then obtain evs' pre where "flush_dials ans now k (h # hs) closed = (evs', (pre @ us) @ x # vs, cl')"
      "\<forall>g \<in> set (pre @ us). \<not> has_req (ca_req (ans (k + i))) g" using IH(2) by auto
    then show ?thesis using Suc by (intro exI [of _ evs'] exI [of _ "pre @ us"] exI [of _ vs] exI [of _ cl']) (simp add: x_def)
  qed
qed simp

lemma createINetConn_captured:
  assumes "names tcp = (Inr (src, sp), Inr (dst, dp))" "sp \<noteq> 0" "dp \<noteq> 0" "cn_ackPool n = Some pool"
    and "getInfoIfExists pool (new_tcp_info\<lparr>ci_src := src, ci_sp := sp, ci_dst := dst, ci_dp := dp\<rparr>) = Some i"
  shows "\<exists>key c. KeyForTcp i = Some key \<and> createINetConn names wakes now tcp n = Some (Some c, n\<lparr>cn_ackPool := Some (snd (locklessRemove pool i))\<rparr>)
    \<and> nc_intKey c = key \<and> nc_tcp c = Some tcp \<and> nc_info c = TcpI i"
proof -
  let ?i = "new_tcp_info\<lparr>ci_src := src, ci_sp := sp, ci_dst := dst, ci_dp := dp\<rparr>"
  have g: "GetTcpInfo names new_tcp_info (Some tcp) = (0, ?i)" using assms(1) by (simp add: GetTcpInfo_def)
  have w: "Wait2TransferInfo pool ?i wakes = Some (True, i, snd (locklessRemove pool i))"
    using assms(5) by (subst Wait2TransferInfo.simps) simp
  obtain s a where i: "i = ?i\<lparr>ti_seq := s, ti_ack := a\<rparr>" using assms(5) by (auto simp: getInfoIfExists_def split: option.splits)
  then obtain key where key: "KeyForTcp i = Some key" using assms(2,3) by (simp add: KeyForTcp_def)
  have "new_FakeTcp names tcp key i now = Some (new_net_conn key (TcpI i) (Some tcp) now)"
    using g i by (simp add: new_FakeTcp_def TcpEquals_def)
  then show ?thesis using g w key assms(4) by (simp add: createINetConn_def) (simp add: new_net_conn_def)
qed


definition sample_client :: client_net where
  "sample_client = snd (DialTcpAsync sample_dest 2 200 (snd (DialTcpAsync sample_dest 1 100 (new_client_net sample_pool))))"


end
