(* ===== verification/Server_Group.thy ===== *)
theory Server_Group
  imports App_Conns Services
begin

section \<open>The server's groups (server/ServerGroup.cpp, server/SNetGroup.cpp)\<close>

text \<open>
  A server keeps one \<open>SubGroup\<close> for each group id it has seen in a header, that is for each
  client process. Packets are dispatched by the group id. A network connection of a group is created when the first
  packet with its key comes in, for TCP from the socket and the handshake the
  \<open>ServerNetManager\<close> has kept. The groups are owned by the map alone, so the map holds them by
  value. \<^const>\<open>None\<close> is a failed assertion or a wait that has not ended, as in the theories of the parts.
\<close>

subsection \<open>Closing a network group (\<open>INetGroup::Close\<close>)\<close>

definition Net_CloseConn :: "nat \<Rightarrow> net_group \<Rightarrow> net_group option" where
  "Net_CloseConn a g = do {
     c \<leftarrow> ng_heap g a;
     let key = StrForIntKey (nc_intKey c);
     if key = ng_key g \<or> ConnOfKey g key \<noteq> Some a then None
     else do {
       (_, g) \<leftarrow> Net_RemoveConn a g;
       let (c, h) = Conn_Close c;
       Some (g\<lparr>ng_heap := (ng_heap g)(a := None), ng_closed := ng_closed g @ (case h of None \<Rightarrow> [] | Some h \<Rightarrow> [h])\<rparr>) } }"

primrec net_close_all :: "nat list \<Rightarrow> net_group \<Rightarrow> net_group option" where
  "net_close_all [] g = Some g"
| "net_close_all (a # as) g = do { g \<leftarrow> Net_CloseConn a g; net_close_all as g }"

definition Net_Close :: "net_group \<Rightarrow> net_group option" where
  "Net_Close g = do {
     g \<leftarrow> net_close_all (map snd (ng_mConns g)) g;
     Some (g\<lparr>ng_mConns := [], ng_errHandler := False, ng_mHandler := Handler_Close (ng_mHandler g), ng_mConnMap := []\<rparr>) }"

definition SubGroup_Close :: "app_group \<Rightarrow> app_group option" where
  "SubGroup_Close A = do {
     A \<leftarrow> App_CloseConns A;
     g \<leftarrow> Net_Close (ag_net A);
     Some (A\<lparr>ag_net := g\<rparr>) }"

subsection \<open>Creating connections (\<open>SNetGroup\<close>)\<close>

definition CreateNetConn ::
  "sock_names \<Rightarrow> wake_ups \<Rightarrow> u64 \<Rightarrow> u64 \<Rightarrow> any_info \<Rightarrow> server_net \<Rightarrow> (net_conn option \<times> server_net) option" where
  "CreateNetConn names wakes now key info sn = do {
     (c, sn) \<leftarrow> (case info of
         UdpI u \<Rightarrow> do { c \<leftarrow> new_FakeUdp key u now; Some (Some c, sn) }
       | TcpI t \<Rightarrow> do {
           (tcp, tcpInfo, sn) \<leftarrow> GetTcp sn (TcpInfo_of (base_of t)) wakes;
           case tcp of
             Some tcp \<Rightarrow> do { c \<leftarrow> new_FakeTcp names tcp key tcpInfo now; Some (Some c, sn) }
           | None \<Rightarrow> Some (None, sn) });
     case c of
       None \<Rightarrow> Some (None, sn)
     | Some c \<Rightarrow>
         if ci_head (info_base info) = None then Some (None, closeTcp (snd (Conn_Close c)) sn)
         else do { c \<leftarrow> Conn_Init c; Some (Some c, sn) } }"

subsection \<open>The group of groups\<close>

record server_group =
  sg_key :: string
  sg_mConns :: "(string, app_group) smap"
  sg_mTarget :: sock_addr
  sg_mNetManager :: server_net
  sg_closed :: "handle list"

definition id_string :: "byte list \<Rightarrow> string" where
  "id_string i = map (\<lambda>b. char_of (unat b)) (IdBuf2Str i)"

definition ServerGroup_Init :: "nat \<Rightarrow> service \<Rightarrow> svc_err + int \<times> service" where
  "ServerGroup_Init this net = RegisterObserver this net"

text \<open>\<open>this\<close> is the address of the new handler. Both \<open>Init\<close> of the parts succeed.\<close>

definition ServerGroup_newConn :: "nat \<Rightarrow> byte list \<Rightarrow> server_group \<Rightarrow> (app_group \<times> server_group) option" where
  "ServerGroup_newConn this gid SG = do {
     let fakenet = new_net_group (id_string gid) (new_handler this True);
     conn \<leftarrow> new_app_group (id_string gid) False gid fakenet (sg_mTarget SG);
     Some (conn, SG\<lparr>sg_mConns := map_emplace (<) (id_string gid) conn (sg_mConns SG)\<rparr>) }"

text \<open>
  \<open>IAppGroup::Input\<close> asks for a new connection exactly for the data packets whose key the network
  group does not know; the answer is computed before and handed in.
\<close>

definition needs_conn :: "any_info \<Rightarrow> byte list \<Rightarrow> app_group \<Rightarrow> bool" where
  "needs_conn info b A \<longleftrightarrow> b \<noteq> [] \<and>
     (case ci_head (info_base info) of
        None \<Rightarrow> False
      | Some head \<Rightarrow> eh_cmd head = TYPE_DATA \<and> ConnOfIntKey (ag_net A) (eh_key head) = Some None)"

text \<open>What a call depends on besides the state: the environment of the group's operations, socket names, the wake-ups of the wait, and the addresses of new objects.\<close>

record 's server_env =
  se_env :: "'s env"
  se_names :: sock_names
  se_wakes :: wake_ups
  se_handler :: nat
  se_conn :: nat

definition sub_input ::
  "'s server_env \<Rightarrow> any_info \<Rightarrow> byte list \<Rightarrow> app_group \<Rightarrow> server_net \<Rightarrow> 's \<Rightarrow> (int \<times> app_group \<times> server_net \<times> 's) option" where
  "sub_input SE info b A sn s = do {
     (c, sn) \<leftarrow> (if needs_conn info b A then do {
         head \<leftarrow> ci_head (info_base info);
         CreateNetConn (se_names SE) (se_wakes SE) (en_now (se_env SE)) (eh_key head) info sn }
       else Some (None, sn));
     (n, A, s) \<leftarrow> App_Input ((se_env SE)\<lparr>en_create := (\<lambda>_ _. map_option (Pair (se_conn SE)) c)\<rparr>) info b A s;
     Some (n, A, sn, s) }"

definition ServerGroup_OnRecv ::
  "'s server_env \<Rightarrow> any_info \<Rightarrow> byte list \<Rightarrow> server_group \<Rightarrow> 's \<Rightarrow> (int \<times> server_group \<times> 's) option" where
  "ServerGroup_OnRecv SE info b SG s =
     (if b = [] then Some (0, SG, s)
      else do {
        hd \<leftarrow> ci_head (info_base info);
        let groupId = id_string (eh_id hd);
        (A, SG) \<leftarrow> (case map_find (<) groupId (sg_mConns SG) of
            Some (_, A) \<Rightarrow> Some (A, SG)
          | None \<Rightarrow> ServerGroup_newConn (se_handler SE) (eh_id hd) SG);
        (n, A, sn, s) \<leftarrow> sub_input SE info b A (sg_mNetManager SG) s;
        Some (n, SG\<lparr>sg_mConns := map_assign (<) groupId A (sg_mConns SG), sg_mNetManager := sn\<rparr>, s) })"

primrec fin_loop :: "tcp_info \<Rightarrow> (string, app_group) smap \<Rightarrow> (string, app_group) smap option" where
  "fin_loop info [] = Some []"
| "fin_loop info (e # es) = do {
     (done, A) \<leftarrow> ProcessTcpFinOrRst info (snd e);
     if done then Some ((fst e, A) # es) else do { es \<leftarrow> fin_loop info es; Some ((fst e, A) # es) } }"

definition ServerGroup_OnTcpFinOrRst :: "tcp_info \<Rightarrow> server_group \<Rightarrow> server_group option" where
  "ServerGroup_OnTcpFinOrRst info SG = do { m \<leftarrow> fin_loop info (sg_mConns SG); Some (SG\<lparr>sg_mConns := m\<rparr>) }"

text \<open>\<open>IGroup::CloseConn\<close>, \<open>IGroup::Flush\<close> and \<open>IGroup::Close\<close> for the map of groups.\<close>

definition Server_CloseConn :: "string \<Rightarrow> server_group \<Rightarrow> server_group option" where
  "Server_CloseConn key SG = do {
     (_, A) \<leftarrow> map_find (<) key (sg_mConns SG);
     if key = sg_key SG then None
     else do {
       A \<leftarrow> SubGroup_Close A;
       Some (SG\<lparr>sg_mConns := map_erase (<) key (sg_mConns SG), sg_closed := sg_closed SG @ ag_closed A @ ng_closed (ag_net A)\<rparr>) } }"

primrec server_close_all :: "string list \<Rightarrow> server_group \<Rightarrow> server_group option" where
  "server_close_all [] SG = Some SG"
| "server_close_all (k # ks) SG = do { SG \<leftarrow> Server_CloseConn k SG; server_close_all ks SG }"

primrec flush_groups :: "u64 \<Rightarrow> (string, app_group) smap \<Rightarrow> (string, app_group) smap option" where
  "flush_groups now [] = Some []"
| "flush_groups now (e # es) = do { A \<leftarrow> App_Flush now (snd e); es \<leftarrow> flush_groups now es; Some ((fst e, A) # es) }"

definition ServerGroup_Flush :: "u64 \<Rightarrow> server_group \<Rightarrow> server_group option" where
  "ServerGroup_Flush now SG = do {
     SG \<leftarrow> server_close_all (map fst (filter (\<lambda>e. \<not> App_Alive (snd e)) (sg_mConns SG))) SG;
     m \<leftarrow> flush_groups now (sg_mConns SG);
     Some (SG\<lparr>sg_mConns := m\<rparr>) }"

definition ServerGroup_Close :: "nat \<Rightarrow> server_group \<Rightarrow> service \<Rightarrow> (server_group \<times> (svc_err + int \<times> service)) option" where
  "ServerGroup_Close this SG net = do {
     SG \<leftarrow> server_close_all (map fst (sg_mConns SG)) SG;
     Some (SG\<lparr>sg_mConns := []\<rparr>, UnRegisterObserver this net) }"

subsection \<open>Dispatch by group id\<close>

lemma find_assign_string:
  "map_wf (<) m \<Longrightarrow> map_find (<) j (map_assign (<) (k :: string) v m) = (if j = k then Some (k, v) else map_find (<) j m)"
  using std_less.find_assign_same [of m k v] std_less.find_assign_other [of k j v m] map_find_SomeD [of "(<)" k m]
  by (auto split: option.splits)

lemma find_emplace_string:
  "map_find (<) k m = None \<Longrightarrow> map_wf (<) m \<Longrightarrow> map_find (<) j (map_emplace (<) (k :: string) v m) = (if j = k then Some (k, v) else map_find (<) j m)"
  using std_less.find_emplace_same [of m k v] std_less.find_emplace_other [of k j v m] by auto

definition server_group_wf :: "server_group \<Rightarrow> bool" where
  "server_group_wf SG \<longleftrightarrow> map_wf (<) (sg_mConns SG)
     \<and> (\<forall>e \<in> set (sg_mConns SG). ag_key (snd e) = fst e \<and> \<not> ag_isClient (snd e) \<and> ag_target (snd e) = sg_mTarget SG)"

lemma find_or_create_new:
  assumes "en_create E = (\<lambda>_ _. Some (a, c))" "nc_intKey c = key"
  shows "find_or_create E info key (new_net_group k h)
    = Some (Some a, (new_net_group k h)\<lparr>ng_heap := [a \<mapsto> c\<lparr>nc_outputCb := True, nc_onRecvCb := True\<rparr>],
        ng_mConns := [(StrForIntKey key, a)], ng_mConnMap := [(key, a)]\<rparr>)"
  using assms by (simp add: find_or_create_def ConnOfIntKey_def Group_Size_def new_net_group_def AddNetConn_def
      IGroup_AddConn_def set_conn_def)

text \<open>A data packet over a connection the environment creates, for a group that has nothing yet.\<close>

lemma sub_first_data:
  fixes E :: "'s env"
  assumes hd: "ci_head (info_base (UdpI u)) = Some hdr" "eh_cmd hdr = TYPE_DATA" and b: "b \<noteq> []"
    and c: "en_create E = (\<lambda>_ _. Some (a, c))" "nc_intKey c = eh_key hdr" "nc_inited c" "nc_info c = UdpI u"
    and A: "new_app_group k False idb (new_net_group k h) target = Some A"
  shows "\<exists>A'. App_Input E (UdpI u) b A s = Some (int (length b), A', en_udp E (Some (en_newUdp E)) target b s)
    \<and> App_ConnOfKey A' (BuildConvKey (ci_dst u) (eh_conv hdr)) = Some (en_fresh E)
    \<and> ConnOfIntKey (ag_net A') (eh_key hdr) = Some (Some a) \<and> ag_key A' = k \<and> \<not> ag_isClient A' \<and> ag_target A' = target"
proof -
  have net: "ag_net A = new_net_group k h" and A0: "\<not> ag_isClient A" "ag_mConns A = []" "ag_target A = target" "ag_key A = k"
    using A by (auto simp: new_app_group_def split: Option.bind_splits)
  define g where "g = (new_net_group k h)\<lparr>ng_heap := [a \<mapsto> c\<lparr>nc_outputCb := True, nc_onRecvCb := True\<rparr>],
        ng_mConns := [(StrForIntKey (eh_key hdr), a)], ng_mConnMap := [(eh_key hdr, a)]\<rparr>"
  have f: "find_or_create E (UdpI u) (eh_key hdr) (ag_net A) = Some (Some a, g)"
    unfolding net g_def by (rule find_or_create_new [OF c(1,2)])
  let ?sc = "(new_SConn (BuildConvKey (ci_dst u) (eh_conv hdr)) target (eh_conv hdr) (en_newUdp E))\<lparr>ac_outputCb := True\<rparr>"
  define A1 where "A1 = app_set (en_fresh E) (?sc\<lparr>ac_stat := afterInput (int (length b)) (ac_stat ?sc)\<rparr>)
      (A\<lparr>ag_net := g, ag_mConns := [(BuildConvKey (ci_dst u) (eh_conv hdr), en_fresh E)]\<rparr>)"
  have recv: "App_OnRecv E (UdpI u) b (A\<lparr>ag_net := g\<rparr>) s = Some (int (length b), A1, en_udp E (Some (en_newUdp E)) target b s)"
    using hd(1) b A0 by (simp add: App_OnRecv_def SubGroup_OnRecv_def App_ConnOfKey_def SubGroup_newConn_def App_AddConn_def
        app_set_def AppConn_Input_def new_SConn_def A1_def Let_def)
  have "App_NetInput E (UdpI u) b A s = Some (int (length b),
      A1\<lparr>ag_net := (set_conn a (after_recv (int (length b)) (UdpI u) (c\<lparr>nc_outputCb := True, nc_onRecvCb := True\<rparr>)) g)
        \<lparr>ng_stat := afterInput (int (length b)) (ng_stat g)\<rparr>\<rparr>, en_udp E (Some (en_newUdp E)) target b s)"
    using hd(1) b f recv c(3,4) by (simp add: App_NetInput_def) (simp add: g_def may_recv_def A1_def app_set_def set_conn_def)
  then show ?thesis using hd b A0
    by (simp add: App_Input_def) (simp add: A1_def app_set_def App_ConnOfKey_def set_conn_def ConnOfIntKey_def Group_Size_def g_def)
qed

lemma create_udp:
  assumes "KeyForUdp u = Some key" "ci_head u = Some hdr"
  shows "\<exists>c. CreateNetConn names wakes now key (UdpI u) sn = Some (Some c, sn) \<and> nc_intKey c = key \<and> nc_inited c \<and> nc_info c = UdpI u"
  using assms by (simp add: CreateNetConn_def new_FakeUdp_def Conn_Init_def INetConn_Init_def) (simp add: new_net_conn_def)

lemma ServerGroup_newConn_ok:
  assumes "length gid = ID_BUF_SIZE"
  shows "\<exists>A. new_app_group (id_string gid) False gid (new_net_group (id_string gid) (new_handler this True)) (sg_mTarget SG) = Some A
    \<and> ServerGroup_newConn this gid SG = Some (A, SG\<lparr>sg_mConns := map_emplace (<) (id_string gid) A (sg_mConns SG)\<rparr>)"
  using assms by (simp add: ServerGroup_newConn_def new_app_group_def Str2IdBuf_def Let_def)



definition sample_server :: server_group where
  "sample_server = \<lparr>sg_key = ''ServerGroup'', sg_mConns = [(id_string (replicate 8 0), (sample_app False)\<lparr>ag_key := id_string (replicate 8 0), ag_target := AfInet 3 53\<rparr>)],
     sg_mTarget = AfInet 3 53, sg_mNetManager = new_server_net new_port_list \<lparr>EXPIRE_INTERVAL_MS = 1000, mInfoPool = []\<rparr>, sg_closed = []\<rparr>"

definition sample_server_env :: "unit server_env" where
  "sample_server_env = \<lparr>se_env = sample_env, se_names = (\<lambda>_. (Inl (-1), Inl (-1))), se_wakes = [], se_handler = 20, se_conn = 21\<rparr>"

text \<open>A packet of client 1 with command \<open>cmd\<close>.\<close>

definition sample_packet :: "u8 \<Rightarrow> conn_info" where
  "sample_packet cmd = \<lparr>ci_src = 9, ci_dst = 5, ci_sp = 10001, ci_dp = 40000,
     ci_head = Some (new_head\<lparr>eh_cmd := cmd, eh_id := replicate 8 1, eh_conv := 6, eh_key := TYPE_UDP OR (push_bit 16 (ucast (40000 :: u16)) OR ucast (10001 :: u16))\<rparr>)\<rparr>"

lemma sample_ids: "id_string (replicate 8 1) \<noteq> id_string (replicate 8 0)"
proof
  assume "id_string (replicate 8 1) = id_string (replicate 8 0)"
  then have "hd (id_string (replicate 8 1)) = hd (id_string (replicate 8 0))" by simp
  then have "char_of (unat (1 :: u8)) = char_of (unat (0 :: u8))" by (simp add: id_string_def IdBuf2Str_def)
  moreover have "char_of (unat (1 :: u8)) \<noteq> char_of (unat (0 :: u8))" by code_simp
  ultimately show False by simp
qed

lemma sample_server_wf: "server_group_wf sample_server"
  by (simp add: server_group_wf_def sample_server_def sample_app_def)



subsection \<open>Closing a network group\<close>

text \<open>Closing the first connection of a consistent group takes it out of both maps and frees it.\<close>

lemma CloseConn_first:
  assumes wf: "net_wf g" and m: "ng_mConns g = (x, a) # m" and x: "x \<noteq> ng_key g"
  shows "\<exists>g' c. ng_heap g a = Some c \<and> Net_CloseConn a g = Some g' \<and> net_wf g' \<and> ng_mConns g' = m \<and> ng_key g' = ng_key g
    \<and> ng_mHandler g' = ng_mHandler g \<and> ng_heap g' = (ng_heap g)(a := None)
    \<and> ng_closed g' = ng_closed g @ (case nc_tcp c of None \<Rightarrow> [] | Some h \<Rightarrow> [h])"
proof -
  obtain k where k: "x = StrForIntKey k" "(k, a) \<in> set (ng_mConnMap g)" using net_wf_member [OF wf, of x a] m by auto
  obtain c where c: "ng_heap g a = Some c" "nc_intKey c = k" using net_wf_conn [OF wf k(2)] by blast
  define g' where "g' = g\<lparr>ng_mConns := m, ng_mConnMap := map_erase (<) k (ng_mConnMap g), ng_heap := (ng_heap g)(a := None),
      ng_closed := ng_closed g @ (case nc_tcp c of None \<Rightarrow> [] | Some h \<Rightarrow> [h])\<rparr>"
  have mwf: "map_wf (<) ((x, a) # m)" using wf m by (simp add: net_wf_def)
  have em: "map_erase (<) x ((x, a) # m) = m" using mwf by (auto simp: map_erase_def filter_id_conv)
  have "Net_CloseConn a g = Some g'"
    using c k(1) x m em Net_RemoveConn_ok [OF wf k(2) c(1)]
    by (simp add: Net_CloseConn_def ConnOfKey_def Conn_Close_def Let_def set_conn_def g'_def)
  moreover have other: "b \<noteq> a" if "(j, b) \<in> set (map_erase (<) k (ng_mConnMap g))" for j b
  proof
    assume "b = a"
    with that have "(j, a) \<in> set (ng_mConnMap g)" "j \<noteq> k" by (auto simp: set_map_erase)
    with net_wf_conn [OF wf this(1)] c show False by (metis option.inject)
  qed
  have dead: "a \<notin> set (pending_dead g)" by (rule net_wf_disjoint [OF wf k(2)])
  have sm: "set m = (\<lambda>(k, a). (StrForIntKey k, a)) ` set (map_erase (<) k (ng_mConnMap g))"
  proof -
    have "set m = set (map_erase (<) x (ng_mConns g))" unfolding m em ..
    then show ?thesis using wf k(1) by (auto simp: net_wf_def set_map_erase)
  qed
  have pd: "pending_dead g' = pending_dead g" by (simp add: pending_dead_def g'_def)
  have "net_wf g'"
    unfolding net_wf_def pd
  proof (intro conjI)
    show "set (ng_mConns g') = (\<lambda>(k, a). (StrForIntKey k, a)) ` set (ng_mConnMap g')" using sm by (simp add: g'_def)
    show "\<forall>(k, a) \<in> set (ng_mConnMap g'). \<exists>c. ng_heap g' a = Some c \<and> nc_intKey c = k \<and> nc_inited c \<and> nc_outputCb c"
    proof (intro ballI, clarify)
      fix j b assume jb: "(j, b) \<in> set (ng_mConnMap g')"
      then have "b \<noteq> a" "(j, b) \<in> set (ng_mConnMap g)" using other by (auto simp: g'_def set_map_erase)
      then show "\<exists>c. ng_heap g' b = Some c \<and> nc_intKey c = j \<and> nc_inited c \<and> nc_outputCb c"
        using net_wf_conn [OF wf, of j b] by (auto simp: g'_def)
    qed
    show "\<forall>a \<in> set (pending_dead g). ng_heap g' a \<noteq> None" using wf dead by (auto simp: g'_def net_wf_def)
    show "set (pending_dead g) \<inter> snd ` set (ng_mConnMap g') = {}" using wf by (auto simp: g'_def net_wf_def set_map_erase)
  qed (use wf mwf in \<open>simp_all add: net_wf_def g'_def map_wf_erase\<close>)
  ultimately show ?thesis using c(1) by (intro exI [of _ g'] exI [of _ c]) (simp add: g'_def)
qed

definition handle_of :: "net_group \<Rightarrow> nat \<Rightarrow> handle list" where
  "handle_of g a = (case ng_heap g a of None \<Rightarrow> [] | Some c \<Rightarrow> (case nc_tcp c of None \<Rightarrow> [] | Some h \<Rightarrow> [h]))"

lemma net_close_all_ok:
  assumes "net_wf g" "\<forall>e \<in> set (ng_mConns g). fst e \<noteq> ng_key g"
  shows "\<exists>g'. net_close_all (map snd (ng_mConns g)) g = Some g' \<and> net_wf g' \<and> ng_mConns g' = [] \<and> ng_mHandler g' = ng_mHandler g
    \<and> (\<forall>a. ng_heap g' a = (if a \<in> snd ` set (ng_mConns g) then None else ng_heap g a))
    \<and> ng_closed g' = ng_closed g @ concat (map (handle_of g \<circ> snd) (ng_mConns g))"
  using assms
proof (induction "ng_mConns g" arbitrary: g)
  case Nil
  then show ?case by (simp add: Nil(1) [symmetric])
next
  case (Cons e m)
  obtain x a where e: "e = (x, a)" by (cases e)
  then have m: "ng_mConns g = (x, a) # m" using Cons.hyps(2) by simp
  obtain g1 c where g1: "ng_heap g a = Some c" "Net_CloseConn a g = Some g1" "net_wf g1" "ng_mConns g1 = m" "ng_key g1 = ng_key g"
    "ng_mHandler g1 = ng_mHandler g" "ng_heap g1 = (ng_heap g)(a := None)"
    "ng_closed g1 = ng_closed g @ (case nc_tcp c of None \<Rightarrow> [] | Some h \<Rightarrow> [h])"
    using CloseConn_first [OF Cons.prems(1) m] Cons.prems(2) m by auto
  have live: "ng_heap g1 (snd y) \<noteq> None" if y: "y \<in> set m" for y
  proof -
    have "(fst y, snd y) \<in> set (ng_mConns g1)" using y g1(4) by simp
    then obtain k where "(k, snd y) \<in> set (ng_mConnMap g1)" by (rule net_wf_member [OF g1(3)])
    then show ?thesis using net_wf_conn [OF g1(3)] by blast
  qed
  then have na: "a \<notin> snd ` set m" unfolding g1(7) by (metis fun_upd_same imageE)
  then have h: "concat (map (handle_of g1 \<circ> snd) m) = concat (map (handle_of g \<circ> snd) m)"
    using g1(7) by (intro arg_cong [where f = concat] map_cong) (auto simp: handle_of_def)
  obtain g' where "net_close_all (map snd m) g1 = Some g'" "net_wf g'" "ng_mConns g' = []" "ng_mHandler g' = ng_mHandler g1"
    "\<forall>b. ng_heap g' b = (if b \<in> snd ` set m then None else ng_heap g1 b)"
    "ng_closed g' = ng_closed g1 @ concat (map (handle_of g1 \<circ> snd) m)"
    using Cons.hyps(1) [OF g1(4) [symmetric] g1(3)] Cons.prems(2) m g1(4,5) by auto
  then show ?case using m g1 h by (simp add: handle_of_def)
qed

text \<open>
  Closing a network group never fails: every connection that is still in it is closed and freed
  once, and the handler forgets its messages. A connection that had died and was waiting for its message is
  neither closed nor freed.
\<close>
theorem net_close_leaks_pending:
  assumes "net_wf g" "\<forall>e \<in> set (ng_mConns g). fst e \<noteq> ng_key g"
  shows "\<exists>g'. Net_Close g = Some g' \<and> ng_mConns g' = [] \<and> ng_mConnMap g' = [] \<and> pending_dead g' = []
    \<and> (\<forall>e \<in> set (ng_mConns g). ng_heap g' (snd e) = None)
    \<and> ng_closed g' = ng_closed g @ concat (map (handle_of g \<circ> snd) (ng_mConns g))
    \<and> (\<forall>a \<in> set (pending_dead g). ng_heap g' a = ng_heap g a \<and> ng_heap g' a \<noteq> None)"
proof -
  obtain g1 where g1: "net_close_all (map snd (ng_mConns g)) g = Some g1" "net_wf g1" "ng_mConns g1 = []" "ng_mHandler g1 = ng_mHandler g"
    "\<forall>a. ng_heap g1 a = (if a \<in> snd ` set (ng_mConns g) then None else ng_heap g a)"
    "ng_closed g1 = ng_closed g @ concat (map (handle_of g \<circ> snd) (ng_mConns g))"
    using net_close_all_ok [OF assms] by blast
  have "a \<notin> snd ` set (ng_mConns g) \<and> ng_heap g a \<noteq> None" if "a \<in> set (pending_dead g)" for a
    using that assms(1) net_wf_disjoint [OF assms(1)] net_wf_member [OF assms(1)] by (auto simp: net_wf_def)
  then show ?thesis using g1 by (simp add: Net_Close_def pending_dead_def Handler_Close_def RemoveAll_def destroyTimer_def)
qed

end
