(* ===== verification/Json11.thy ===== *)
theory Json11
  imports Dec_String Std_Map "HOL-Library.List_Lexorder" "HOL-Library.Char_ord"
begin

unbundle bit_operations_syntax

section \<open>JSON (thirdparty/json11.cpp)\<close>

text \<open>
  The JSON library the configuration is read and dumped with: values, printing and the parser with
  its error messages, with or without comments. An object is a \<open>std::map\<close> and therefore an
  association list that is sorted by key. The position \<open>i\<close> of the parser in \<open>str\<close> is represented by
  the text that is left, \<open>str[i]\<close> at the end being the NUL that terminates a \<open>std::string\<close>; the flag
  \<open>failed\<close> and the first message are the left side of a sum. A double is its bit pattern, and what
  the C library and the processor do with it (\<open>strtod\<close>, the format \<open>%.17g\<close>, the cut to \<open>int\<close>) is a parameter.
\<close>

subsection \<open>Values\<close>

type_synonym double = "64 word"

record dbl_ops =
  dbl_strtod :: "string \<Rightarrow> double"
  dbl_print :: "double \<Rightarrow> string"
  dbl_trunc :: "double \<Rightarrow> int"

datatype json = JNull | JDouble double | JInt int | JBool bool | JString string | JArray "json list" | JObject "(string \<times> json) list"

datatype json_type = NUL | NUMBER | BOOL | STRING | ARRAY | OBJECT

fun json_type_of :: "json \<Rightarrow> json_type" where
  "json_type_of JNull = NUL"
| "json_type_of (JDouble _) = NUMBER"
| "json_type_of (JInt _) = NUMBER"
| "json_type_of (JBool _) = BOOL"
| "json_type_of (JString _) = STRING"
| "json_type_of (JArray _) = ARRAY"
| "json_type_of (JObject _) = OBJECT"

text \<open>The accessors: a value of another type gives 0, false, the empty string or the null value.\<close>

fun int_value :: "dbl_ops \<Rightarrow> json \<Rightarrow> int" where
  "int_value D (JInt n) = n"
| "int_value D (JDouble d) = dbl_trunc D d"
| "int_value D _ = 0"

fun bool_value :: "json \<Rightarrow> bool" where
  "bool_value (JBool b) = b"
| "bool_value _ = False"

fun string_value :: "json \<Rightarrow> string" where
  "string_value (JString s) = s"
| "string_value _ = []"

fun object_items :: "json \<Rightarrow> (string, json) smap" where
  "object_items (JObject m) = m"
| "object_items _ = []"

fun json_get :: "json \<Rightarrow> string \<Rightarrow> json" where
  "json_get (JObject m) k = (case map_find (<) k m of Some (_, v) \<Rightarrow> v | None \<Rightarrow> JNull)"
| "json_get _ k = JNull"

fun json_at :: "json \<Rightarrow> nat \<Rightarrow> json" where
  "json_at (JArray vs) i = (if i \<ge> length vs then JNull else vs ! i)"
| "json_at _ i = JNull"

text \<open>A \<open>std::map\<close> made from an initialiser list: the first of two equal keys stays.\<close>

definition json_object :: "(string \<times> json) list \<Rightarrow> json" where
  "json_object kvs = JObject (fold (\<lambda>(k, v). map_emplace (<) k v) kvs [])"

subsection \<open>Printing\<close>

definition QUOTE :: char where "QUOTE = CHR 0x22"
definition BSLASH :: char where "BSLASH = CHR 0x5C"

definition hex_digit :: "nat \<Rightarrow> char" where
  "hex_digit n = (if n < 10 then char_of (48 + n) else char_of (87 + n))"

text \<open>The format \<open>%04x\<close>, of a number below \<open>0x10000\<close>.\<close>

definition hex4 :: "nat \<Rightarrow> string" where
  "hex4 n = [hex_digit (n div 4096 mod 16), hex_digit (n div 256 mod 16), hex_digit (n div 16 mod 16), hex_digit (n mod 16)]"

fun dump_chars :: "string \<Rightarrow> string" where
  "dump_chars [] = []"
| "dump_chars (ch # s) =
     (if ch = BSLASH then [BSLASH, BSLASH] @ dump_chars s
      else if ch = QUOTE then [BSLASH, QUOTE] @ dump_chars s
      else if ch = CHR 0x08 then BSLASH # ''b'' @ dump_chars s
      else if ch = CHR 0x0C then BSLASH # ''f'' @ dump_chars s
      else if ch = CHR 0x0A then BSLASH # ''n'' @ dump_chars s
      else if ch = CHR 0x0D then BSLASH # ''r'' @ dump_chars s
      else if ch = CHR 0x09 then BSLASH # ''t'' @ dump_chars s
      else if of_char ch \<le> (0x1f :: nat) then BSLASH # ''u'' @ hex4 (of_char ch) @ dump_chars s
      else if ch = CHR 0xE2 \<and> take 2 s = [CHR 0x80, CHR 0xA8] then BSLASH # ''u2028'' @ dump_chars (drop 2 s)
      else if ch = CHR 0xE2 \<and> take 2 s = [CHR 0x80, CHR 0xA9] then BSLASH # ''u2029'' @ dump_chars (drop 2 s)
      else ch # dump_chars s)"

definition dump_string :: "string \<Rightarrow> string" where
  "dump_string s = QUOTE # dump_chars s @ [QUOTE]"

definition dump_int :: "int \<Rightarrow> string" where
  "dump_int n = (if n < 0 then ''-'' @ to_string (nat (- n)) else to_string (nat n))"

definition dbl_isfinite :: "double \<Rightarrow> bool" where
  "dbl_isfinite d \<longleftrightarrow> drop_bit 52 d AND 0x7ff \<noteq> 0x7ff"

fun json_dump :: "dbl_ops \<Rightarrow> json \<Rightarrow> string"
  and dump_array :: "dbl_ops \<Rightarrow> bool \<Rightarrow> json list \<Rightarrow> string"
  and dump_object :: "dbl_ops \<Rightarrow> bool \<Rightarrow> (string \<times> json) list \<Rightarrow> string" where
  "json_dump D JNull = ''null''"
| "json_dump D (JDouble d) = (if dbl_isfinite d then dbl_print D d else ''null'')"
| "json_dump D (JInt n) = dump_int n"
| "json_dump D (JBool b) = (if b then ''true'' else ''false'')"
| "json_dump D (JString s) = dump_string s"
| "json_dump D (JArray vs) = ''['' @ dump_array D True vs @ '']''"
| "json_dump D (JObject m) = ''{'' @ dump_object D True m @ ''}''"
| "dump_array D first [] = []"
| "dump_array D first (v # vs) = (if first then [] else '', '') @ json_dump D v @ dump_array D False vs"
| "dump_object D first [] = []"
| "dump_object D first ((k, v) # m) = (if first then [] else '', '') @ dump_string k @ '': '' @ json_dump D v @ dump_object D False m"

subsection \<open>The parser: blanks, comments and tokens\<close>

datatype json_strategy = STANDARD | COMMENTS

definition peek :: "string \<Rightarrow> char" where
  "peek s = (case s of [] \<Rightarrow> CHR 0x00 | c # _ \<Rightarrow> c)"

text \<open>\<open>char\<close> is signed, so \<open>%d\<close> prints the codes from 128 on as negative numbers.\<close>

definition esc :: "char \<Rightarrow> string" where
  "esc c = (let n = of_char c :: nat; d = dump_int (if n < 128 then int n else int n - 256) in
     if 0x20 \<le> n \<and> n \<le> 0x7f then [CHR 0x27, c, CHR 0x27] @ '' ('' @ d @ '')'' else ''('' @ d @ '')'')"

definition is_blank :: "char \<Rightarrow> bool" where
  "is_blank c \<longleftrightarrow> c = CHR '' '' \<or> c = CHR 0x0D \<or> c = CHR 0x0A \<or> c = CHR 0x09"

definition consume_whitespace :: "string \<Rightarrow> string" where
  "consume_whitespace s = dropWhile is_blank s"

fun skip_multiline :: "string \<Rightarrow> string + string" where
  "skip_multiline s =
     (if length s < 2 then Inl ''unexpected end of input inside multi-line comment''
      else if take 2 s = ''*/'' then Inr (drop 2 s) else skip_multiline (tl s))"

declare skip_multiline.simps [simp del]

definition consume_comment :: "string \<Rightarrow> string + bool \<times> string" where
  "consume_comment s =
     (case s of
        c # t \<Rightarrow>
          if c \<noteq> CHR ''/'' then Inr (False, s)
          else if t = [] then Inl ''unexpected end of input after start of comment''
          else if hd t = CHR ''/'' then Inr (True, dropWhile (\<lambda>c. c \<noteq> CHR 0x0A) (tl t))
          else if hd t = CHR ''*'' then map_sum id (Pair True) (skip_multiline (tl t))
          else Inl ''malformed comment''
      | [] \<Rightarrow> Inr (False, s))"

lemma skip_multiline_length: "skip_multiline s = Inr r \<Longrightarrow> length r \<le> length s"
proof (induction s rule: skip_multiline.induct)
  case (1 s)
  then show ?case by (subst (asm) (2) skip_multiline.simps) (auto split: if_splits)
qed

lemma consume_comment_shorter: "consume_comment s = Inr (True, r) \<Longrightarrow> length r < length s"
proof (cases s)
  case (Cons c t)
  assume "consume_comment s = Inr (True, r)"
  then show ?thesis using Cons length_dropWhile_le [of "\<lambda>c. c \<noteq> CHR 0x0A" "tl t"]
    by (cases t; cases "skip_multiline (tl t)") (auto simp: consume_comment_def split: if_splits dest: skip_multiline_length)
qed (simp add: consume_comment_def)

function consume_comments :: "string \<Rightarrow> string + string" where
  "consume_comments s =
     (case consume_comment s of
        Inl e \<Rightarrow> Inl e
      | Inr (found, r) \<Rightarrow> if found then consume_comments (consume_whitespace r) else Inr (consume_whitespace r))"
  by pat_completeness auto
termination
  by (relation "measure length") (auto simp: consume_whitespace_def intro: le_less_trans [OF length_dropWhile_le] dest!: consume_comment_shorter)

declare consume_comments.simps [simp del]

definition consume_garbage :: "json_strategy \<Rightarrow> string \<Rightarrow> string + string" where
  "consume_garbage st s = (let s = consume_whitespace s in if st = COMMENTS then consume_comments s else Inr s)"

definition get_next_token :: "json_strategy \<Rightarrow> string \<Rightarrow> string + char \<times> string" where
  "get_next_token st s =
     (case consume_garbage st s of
        Inl e \<Rightarrow> Inl e
      | Inr [] \<Rightarrow> Inl ''unexpected end of input''
      | Inr (c # r) \<Rightarrow> Inr (c, r))"

subsection \<open>Strings and numbers\<close>

definition utf8_char :: "int \<Rightarrow> char" where
  "utf8_char n = char_of (nat n)"

definition encode_utf8 :: "int \<Rightarrow> string" where
  "encode_utf8 pt =
     (if pt < 0 then []
      else if pt < 0x80 then [utf8_char pt]
      else if pt < 0x800 then [utf8_char (drop_bit 6 pt OR 0xC0), utf8_char (pt AND 0x3F OR 0x80)]
      else if pt < 0x10000 then
        [utf8_char (drop_bit 12 pt OR 0xE0), utf8_char (drop_bit 6 pt AND 0x3F OR 0x80), utf8_char (pt AND 0x3F OR 0x80)]
      else [utf8_char (drop_bit 18 pt OR 0xF0), utf8_char (drop_bit 12 pt AND 0x3F OR 0x80),
            utf8_char (drop_bit 6 pt AND 0x3F OR 0x80), utf8_char (pt AND 0x3F OR 0x80)])"

definition is_hex :: "char \<Rightarrow> bool" where
  "is_hex c \<longleftrightarrow> (let n = of_char c :: nat in 97 \<le> n \<and> n \<le> 102 \<or> 65 \<le> n \<and> n \<le> 70 \<or> 48 \<le> n \<and> n \<le> 57)"

definition hex_val :: "char \<Rightarrow> nat" where
  "hex_val c = (let n = of_char c in if 97 \<le> n then n - 87 else if 65 \<le> n then n - 55 else n - 48)"

text \<open>\<open>strtol\<close> with base 16 on four hexadecimal digits.\<close>

definition hex_num :: "string \<Rightarrow> int" where
  "hex_num s = int (foldl (\<lambda>a c. 16 * a + hex_val c) 0 s)"

definition unescape :: "char \<Rightarrow> char option" where
  "unescape c =
     (if c = CHR ''b'' then Some (CHR 0x08) else if c = CHR ''f'' then Some (CHR 0x0C) else if c = CHR ''n'' then Some (CHR 0x0A)
      else if c = CHR ''r'' then Some (CHR 0x0D) else if c = CHR ''t'' then Some (CHR 0x09)
      else if c = QUOTE \<or> c = BSLASH \<or> c = CHR ''/'' then Some c else None)"

text \<open>The loop of \<open>parse_string\<close>, with \<open>out\<close> and \<open>last_escaped_codepoint\<close>.\<close>

fun parse_chars :: "string \<Rightarrow> int \<Rightarrow> string \<Rightarrow> string + string \<times> string" where
  "parse_chars out lst [] = Inl ''unexpected end of input in string''"
| "parse_chars out lst (ch # s) =
     (if ch = QUOTE then Inr (out @ encode_utf8 lst, s)
      else if of_char ch \<le> (0x1f :: nat) then Inl (''unescaped '' @ esc ch @ '' in string'')
      else if ch \<noteq> BSLASH then parse_chars (out @ encode_utf8 lst @ [ch]) (-1) s
      else (case s of
          [] \<Rightarrow> Inl ''unexpected end of input in string''
        | e # s \<Rightarrow>
            if e = CHR ''u'' then
              (let h = take 4 s in
               if length h < 4 \<or> \<not> list_all is_hex h then Inl (''bad '' @ [BSLASH] @ ''u escape: '' @ h)
               else (let codepoint = hex_num h in
                 if 0xD800 \<le> lst \<and> lst \<le> 0xDBFF \<and> 0xDC00 \<le> codepoint \<and> codepoint \<le> 0xDFFF
                 then parse_chars (out @ encode_utf8 ((push_bit 10 (lst - 0xD800) OR (codepoint - 0xDC00)) + 0x10000)) (-1) (drop 4 s)
                 else parse_chars (out @ encode_utf8 lst) codepoint (drop 4 s)))
            else (case unescape e of
                Some c \<Rightarrow> parse_chars (out @ encode_utf8 lst @ [c]) (-1) s
              | None \<Rightarrow> Inl (''invalid escape character '' @ esc e))))"

definition parse_string :: "string \<Rightarrow> string + string \<times> string" where
  "parse_string s = parse_chars [] (-1) s"

definition atoi :: "string \<Rightarrow> int" where
  "atoi s = (if peek s = CHR ''-'' then - int (dec_val (takeWhile is_digit (tl s))) else int (dec_val (takeWhile is_digit s)))"

text \<open>The end of the integer part is at \<open>r\<close>; \<open>digits10\<close> of \<open>int\<close> is 9.\<close>

definition number_exponent :: "dbl_ops \<Rightarrow> string \<Rightarrow> string \<Rightarrow> string + json \<times> string" where
  "number_exponent D s r =
     (if peek r = CHR ''e'' \<or> peek r = CHR ''E'' then
        (let r = tl r; r = (if peek r = CHR ''+'' \<or> peek r = CHR ''-'' then tl r else r) in
         if \<not> is_digit (peek r) then Inl ''at least one digit required in exponent''
         else Inr (JDouble (dbl_strtod D s), dropWhile is_digit r))
      else Inr (JDouble (dbl_strtod D s), r))"

definition number_fraction :: "dbl_ops \<Rightarrow> string \<Rightarrow> string \<Rightarrow> string + json \<times> string" where
  "number_fraction D s r =
     (if peek r \<noteq> CHR ''.'' \<and> peek r \<noteq> CHR ''e'' \<and> peek r \<noteq> CHR ''E'' \<and> length s - length r \<le> 9 then Inr (JInt (atoi s), r)
      else if peek r = CHR ''.'' then
        (if \<not> is_digit (peek (tl r)) then Inl ''at least one digit required in fractional part''
         else number_exponent D s (dropWhile is_digit (tl r)))
      else number_exponent D s r)"

definition parse_number :: "dbl_ops \<Rightarrow> string \<Rightarrow> string + json \<times> string" where
  "parse_number D s =
     (let r = (if peek s = CHR ''-'' then tl s else s) in
      if peek r = CHR ''0'' then
        (if is_digit (peek (tl r)) then Inl ''leading 0s not permitted in numbers'' else number_fraction D s (tl r))
      else if is_digit (peek r) then number_fraction D s (dropWhile is_digit r)
      else Inl (''invalid '' @ esc (peek r) @ '' in number''))"

definition expect :: "string \<Rightarrow> json \<Rightarrow> string \<Rightarrow> string + json \<times> string" where
  "expect expected res s =
     (if take (length expected) s = expected then Inr (res, drop (length expected) s)
      else Inl (''parse error: expected '' @ expected @ '', got '' @ take (length expected) s))"

subsection \<open>Values\<close>

definition max_depth :: nat where "max_depth = 200"

text \<open>
  The recursion of \<open>parse_json\<close> and its two loops are bounded by fuel; \<open>None\<close> means that it ran
  out, which never happens with the fuel \<open>json_parse\<close> starts with (lemma \<open>fuel_enough\<close>). \<open>ch # s\<close> stands for \<open>i--\<close>.
\<close>

type_synonym 'a parsed = "(string + 'a \<times> string) option"

definition pbind :: "'a parsed \<Rightarrow> ('a \<Rightarrow> string \<Rightarrow> 'b parsed) \<Rightarrow> 'b parsed" where
  "pbind m f = (case m of None \<Rightarrow> None | Some (Inl e) \<Rightarrow> Some (Inl e) | Some (Inr (x, s)) \<Rightarrow> f x s)"

definition pfail :: "string \<Rightarrow> 'a parsed" where
  "pfail e = Some (Inl e)"

definition pok :: "'a \<Rightarrow> string \<Rightarrow> 'a parsed" where
  "pok x s = Some (Inr (x, s))"

function (sequential) parse_json :: "dbl_ops \<Rightarrow> json_strategy \<Rightarrow> nat \<Rightarrow> nat \<Rightarrow> string \<Rightarrow> json parsed"
  and object_loop :: "dbl_ops \<Rightarrow> json_strategy \<Rightarrow> nat \<Rightarrow> nat \<Rightarrow> (string, json) smap \<Rightarrow> char \<Rightarrow> string \<Rightarrow> json parsed"
  and array_loop :: "dbl_ops \<Rightarrow> json_strategy \<Rightarrow> nat \<Rightarrow> nat \<Rightarrow> json list \<Rightarrow> string \<Rightarrow> json parsed" where
  "parse_json D st 0 depth s = None"
| "parse_json D st (Suc fuel) depth s =
     (if depth > max_depth then pfail ''exceeded maximum nesting depth''
      else pbind (Some (get_next_token st s)) (\<lambda>ch s.
        if ch = CHR ''-'' \<or> is_digit ch then Some (parse_number D (ch # s))
        else if ch = CHR ''t'' then Some (expect ''true'' (JBool True) (ch # s))
        else if ch = CHR ''f'' then Some (expect ''false'' (JBool False) (ch # s))
        else if ch = CHR ''n'' then Some (expect ''null'' JNull (ch # s))
        else if ch = QUOTE then Some (map_sum id (apfst JString) (parse_string s))
        else if ch = CHR ''{'' then
          pbind (Some (get_next_token st s)) (\<lambda>ch s. if ch = CHR ''}'' then pok (JObject []) s else object_loop D st fuel depth [] ch s)
        else if ch = CHR ''['' then
          pbind (Some (get_next_token st s)) (\<lambda>ch s. if ch = CHR '']'' then pok (JArray []) s else array_loop D st fuel depth [] (ch # s))
        else pfail (''expected value, got '' @ esc ch)))"
| "object_loop D st 0 depth d ch s = None"
| "object_loop D st (Suc fuel) depth d ch s =
     (if ch \<noteq> QUOTE then pfail (''expected '' @ [CHR 0x27, QUOTE, CHR 0x27] @ '' in object, got '' @ esc ch)
      else pbind (Some (parse_string s)) (\<lambda>key s.
        pbind (Some (get_next_token st s)) (\<lambda>ch s.
          if ch \<noteq> CHR '':'' then pfail (''expected '' @ [CHR 0x27, CHR '':'', CHR 0x27] @ '' in object, got '' @ esc ch)
          else pbind (parse_json D st fuel (depth + 1) s) (\<lambda>v s.
            let d = map_assign (<) key v d in
            pbind (Some (get_next_token st s)) (\<lambda>ch s.
              if ch = CHR ''}'' then pok (JObject d) s
              else if ch \<noteq> CHR '','' then pfail (''expected '' @ [CHR 0x27, CHR '','', CHR 0x27] @ '' in object, got '' @ esc ch)
              else pbind (Some (get_next_token st s)) (object_loop D st fuel depth d))))))"
| "array_loop D st 0 depth d s = None"
| "array_loop D st (Suc fuel) depth d s =
     pbind (parse_json D st fuel (depth + 1) s) (\<lambda>v s.
       let d = d @ [v] in
       pbind (Some (get_next_token st s)) (\<lambda>ch s.
         if ch = CHR '']'' then pok (JArray d) s
         else if ch \<noteq> CHR '','' then pfail (''expected '' @ [CHR 0x27, CHR '','', CHR 0x27] @ '' in list, got '' @ esc ch)
         else pbind (Some (get_next_token st s)) (\<lambda>ch s. array_loop D st fuel depth d (ch # s))))"
  by pat_completeness auto
termination
  by (relation "measure (case_sum (\<lambda>x. fst (snd (snd x))) (case_sum (\<lambda>x. fst (snd (snd x))) (\<lambda>x. fst (snd (snd x)))))") simp_all

definition json_parse :: "dbl_ops \<Rightarrow> json_strategy \<Rightarrow> string \<Rightarrow> (string + json) option" where
  "json_parse D st s =
     (case parse_json D st (2 * length s + 1) 0 s of
        None \<Rightarrow> None
      | Some (Inl e) \<Rightarrow> Some (Inl e)
      | Some (Inr (j, r)) \<Rightarrow>
          (case consume_garbage st r of
             Inl e \<Rightarrow> Some (Inl e)
           | Inr r \<Rightarrow> if r \<noteq> [] then Some (Inl (''unexpected trailing '' @ esc (hd r))) else Some (Inr j)))"

subsection \<open>Printed strings are read back\<close>

lemma hex_digit_back: "n < 16 \<Longrightarrow> is_hex (hex_digit n) \<and> hex_val (hex_digit n) = n"
  by (simp add: is_hex_def hex_val_def hex_digit_def Let_def)

lemma hex4_back:
  assumes "n < 256"
  shows "list_all is_hex (hex4 n)" "hex_num (hex4 n) = int n" "length (hex4 n) = 4"
proof -
  have "n div 16 < 16" "n div 4096 = 0" "n div 256 = 0" using assms by simp_all
  then show "list_all is_hex (hex4 n)" "hex_num (hex4 n) = int n" "length (hex4 n) = 4"
    by (simp_all add: hex4_def hex_num_def hex_digit_back)
qed

lemma encode_utf8_ascii: "of_char ch \<le> (0x1f :: nat) \<Longrightarrow> encode_utf8 (int (of_char ch)) = [ch]"
  by (simp add: encode_utf8_def utf8_char_def)

lemma encode_utf8_none [simp]: "encode_utf8 (-1) = []"
  by (simp add: encode_utf8_def)

lemma encode_utf8_separators:
  "encode_utf8 0x2028 = [CHR 0xE2, CHR 0x80, CHR 0xA8]" "encode_utf8 0x2029 = [CHR 0xE2, CHR 0x80, CHR 0xA9]"
  by code_simp+

lemma hex_separators [simp]:
  "list_all is_hex ''2028'' \<and> hex_num ''2028'' = 0x2028" "list_all is_hex ''2029'' \<and> hex_num ''2029'' = 0x2029"
  by (simp_all add: is_hex_def hex_num_def hex_val_def)

lemma parse_chars_u:
  assumes "length h = 4" "list_all is_hex h" "lst < 0xD800"
  shows "parse_chars out lst (BSLASH # CHR ''u'' # h @ s) = parse_chars (out @ encode_utf8 lst) (hex_num h) s"
  using assms by (simp add: BSLASH_def QUOTE_def)

lemma parse_chars_escape:
  "unescape e = Some c \<Longrightarrow> parse_chars out lst (BSLASH # e # s) = parse_chars (out @ encode_utf8 lst @ [c]) (-1) s"
  by (auto simp: BSLASH_def QUOTE_def unescape_def)

lemma parse_chars_plain:
  "ch \<noteq> QUOTE \<Longrightarrow> ch \<noteq> BSLASH \<Longrightarrow> \<not> of_char ch \<le> (0x1f :: nat) \<Longrightarrow> parse_chars out lst (ch # s) = parse_chars (out @ encode_utf8 lst @ [ch]) (-1) s"
  by simp

lemma unescape_simps [simp]:
  "unescape BSLASH = Some BSLASH" "unescape QUOTE = Some QUOTE" "unescape CHR ''b'' = Some (CHR 0x08)" "unescape CHR ''f'' = Some (CHR 0x0C)"
  "unescape CHR ''n'' = Some (CHR 0x0A)" "unescape CHR ''r'' = Some (CHR 0x0D)" "unescape CHR ''t'' = Some (CHR 0x09)"
  by (simp_all add: unescape_def BSLASH_def QUOTE_def)

lemma take2_split: "take 2 s = [a, b] \<Longrightarrow> s = a # b # drop 2 s"
  by (metis append_Cons append_Nil append_take_drop_id)

lemma dump_special:
  assumes "ch = BSLASH \<or> ch = QUOTE \<or> ch = CHR 0x08 \<or> ch = CHR 0x0C \<or> ch = CHR 0x0A \<or> ch = CHR 0x0D \<or> ch = CHR 0x09"
  shows "\<exists>e. unescape e = Some ch \<and> dump_chars (ch # s) = BSLASH # e # dump_chars s"
  using assms
proof (elim disjE)
  assume "ch = BSLASH" then show ?thesis by (intro exI [of _ "BSLASH"]) (simp add: BSLASH_def QUOTE_def unescape_def)
next
  assume "ch = QUOTE" then show ?thesis by (intro exI [of _ "QUOTE"]) (simp add: BSLASH_def QUOTE_def unescape_def)
next
  assume "ch = CHR 0x08" then show ?thesis by (intro exI [of _ "CHR ''b''"]) (simp add: BSLASH_def QUOTE_def unescape_def)
next
  assume "ch = CHR 0x0C" then show ?thesis by (intro exI [of _ "CHR ''f''"]) (simp add: BSLASH_def QUOTE_def unescape_def)
next
  assume "ch = CHR 0x0A" then show ?thesis by (intro exI [of _ "CHR ''n''"]) (simp add: BSLASH_def QUOTE_def unescape_def)
next
  assume "ch = CHR 0x0D" then show ?thesis by (intro exI [of _ "CHR ''r''"]) (simp add: BSLASH_def QUOTE_def unescape_def)
next
  assume "ch = CHR 0x09" then show ?thesis by (intro exI [of _ "CHR ''t''"]) (simp add: BSLASH_def QUOTE_def unescape_def)
qed

lemma dump_chars_cases:
  obtains (escape) e where "unescape e = Some ch" "dump_chars (ch # s) = BSLASH # e # dump_chars s"
  | (control) "of_char ch \<le> (0x1f :: nat)" "dump_chars (ch # s) = BSLASH # CHR ''u'' # hex4 (of_char ch) @ dump_chars s"
  | (separator) h where "h = ''2028'' \<or> h = ''2029''" "dump_chars (ch # s) = BSLASH # CHR ''u'' # h @ dump_chars (drop 2 s)"
      "ch # s = encode_utf8 (hex_num h) @ drop 2 s" "length (drop 2 s) < length (ch # s)"
  | (plain) "ch \<noteq> QUOTE" "ch \<noteq> BSLASH" "\<not> of_char ch \<le> (0x1f :: nat)" "dump_chars (ch # s) = ch # dump_chars s"
proof -
  consider (e) e where "unescape e = Some ch" "dump_chars (ch # s) = BSLASH # e # dump_chars s"
    | (c) "\<not> (ch = BSLASH \<or> ch = QUOTE \<or> ch = CHR 0x08 \<or> ch = CHR 0x0C \<or> ch = CHR 0x0A \<or> ch = CHR 0x0D \<or> ch = CHR 0x09)"
    using dump_special [of ch s] by blast
  then show ?thesis
  proof cases
    case (e e) then show ?thesis by (rule escape)
  next
    case c
    consider "of_char ch \<le> (0x1f :: nat)" | "\<not> of_char ch \<le> (0x1f :: nat)" "ch = CHR 0xE2" "take 2 s = [CHR 0x80, CHR 0xA8]"
      | "\<not> of_char ch \<le> (0x1f :: nat)" "ch = CHR 0xE2" "take 2 s = [CHR 0x80, CHR 0xA9]"
      | "\<not> of_char ch \<le> (0x1f :: nat)" "\<not> (ch = CHR 0xE2 \<and> take 2 s = [CHR 0x80, CHR 0xA8])" "\<not> (ch = CHR 0xE2 \<and> take 2 s = [CHR 0x80, CHR 0xA9])"
      by blast
    then show ?thesis
    proof cases
      case 1 then show ?thesis using c by (intro control) simp_all
    next
      case 2 then show ?thesis using c take2_split [OF 2(3)] by (intro separator [of "''2028''"]) (simp_all add: encode_utf8_separators)
    next
      case 3 then show ?thesis using c take2_split [OF 3(3)] by (intro separator [of "''2029''"]) (simp_all add: encode_utf8_separators)
    next
      case 4 then show ?thesis using c by (intro plain) auto
    qed
  qed
qed

lemma parse_chars_dump:
  "lst < 0xD800 \<Longrightarrow> parse_chars out lst (dump_chars s @ QUOTE # r) = Inr (out @ encode_utf8 lst @ s, r)"
proof (induction s arbitrary: out lst rule: length_induct)
  case (1 s)
  show ?case
  proof (cases s)
    case (Cons ch t)
    have ih: "\<And>u out lst. length u < length (ch # t) \<Longrightarrow> lst < 0xD800 \<Longrightarrow>
        parse_chars out lst (dump_chars u @ QUOTE # r) = Inr (out @ encode_utf8 lst @ u, r)" using 1(1) Cons by blast
    have t: "length t < length (ch # t)" by simp
    show ?thesis
    proof (cases rule: dump_chars_cases [of ch t])
      case (escape e) then show ?thesis by (simp add: Cons parse_chars_escape ih [OF t] del: parse_chars.simps dump_chars.simps)
    next
      case control
      then show ?thesis using 1(2) hex4_back [of "of_char ch"]
        by (simp add: Cons parse_chars_u ih [OF t] encode_utf8_ascii del: parse_chars.simps dump_chars.simps)
    next
      case (separator h)
      then have "list_all is_hex h" "length h = 4" "hex_num h < 0xD800" by (auto simp: is_hex_def)
      then show ?thesis using separator 1(2) by (simp add: Cons parse_chars_u ih [OF separator(4)] del: parse_chars.simps dump_chars.simps)
    next
      case plain then show ?thesis by (simp add: Cons parse_chars_plain ih [OF t] del: parse_chars.simps dump_chars.simps)
    qed
  qed simp
qed

subsection \<open>Printed numbers and tokens are read back\<close>

lemma length_to_string: "n < 10 ^ k \<Longrightarrow> 0 < k \<Longrightarrow> length (to_string n) \<le> k"
proof (induction k arbitrary: n)
  case (Suc k)
  show ?case
  proof (cases "n < 10")
    case False
    then have "n div 10 < 10 ^ k" "0 < k" using Suc(2) by (auto simp: less_mult_imp_div_less mult.commute intro: Nat.gr0I)
    then show ?thesis using Suc(1) False by (subst to_string.simps) simp
  qed (subst to_string.simps, simp)
qed simp

lemma to_string_leading: "0 < n \<Longrightarrow> hd (to_string n) \<noteq> CHR ''0''"
proof (induction n rule: to_string.induct)
  case (1 n)
  have d: "digit_char m \<noteq> CHR ''0''" if "0 < m" "m < 10" for m
  proof -
    have "digit_val (digit_char m) \<noteq> digit_val (CHR ''0'')" using that by (subst digit_char_val) (simp_all add: digit_val_def)
    then show ?thesis by auto
  qed
  show ?case using 1 d by (cases "n < 10") (subst to_string.simps, simp)+
qed

lemma to_string_0: "to_string 0 = ''0''"
  by code_simp

definition number_end :: "string \<Rightarrow> bool" where
  "number_end r \<longleftrightarrow> \<not> is_digit (peek r) \<and> peek r \<noteq> CHR ''.'' \<and> peek r \<noteq> CHR ''e'' \<and> peek r \<noteq> CHR ''E''"

definition short_int :: "int \<Rightarrow> bool" where
  "short_int n \<longleftrightarrow> - (10 ^ 8) < n \<and> n < 10 ^ 9"

lemma peek_simps [simp]: "peek [] = CHR 0x00" "peek (c # s) = c"
  by (simp_all add: peek_def)

lemma peek_append: "s \<noteq> [] \<Longrightarrow> peek (s @ r) = hd s"
  by (cases s) simp_all

lemma digits_end:
  assumes "\<not> is_digit (peek r)"
  shows "takeWhile is_digit (to_string n @ r) = to_string n" "dropWhile is_digit (to_string n @ r) = r"
proof -
  have "takeWhile is_digit r = [] \<and> dropWhile is_digit r = r" using assms by (cases r) simp_all
  then show "takeWhile is_digit (to_string n @ r) = to_string n" "dropWhile is_digit (to_string n @ r) = r"
    by (simp_all add: takeWhile_append2 dropWhile_append2 to_string_digits)
qed

lemma digit_hd: "is_digit (hd (to_string n))" "hd (to_string n) \<noteq> CHR ''-''"
proof -
  show d: "is_digit (hd (to_string n))" by (rule to_string_digits [of _ n]) simp
  then show "hd (to_string n) \<noteq> CHR ''-''" by (auto simp: is_digit_def)
qed

lemma number_fraction_int:
  "number_end r \<Longrightarrow> length s \<le> 9 \<Longrightarrow> number_fraction D (s @ r) r = Inr (JInt (atoi (s @ r)), r)"
  by (simp add: number_fraction_def number_end_def)

lemma parse_digits:
  assumes "number_end r" "length (p @ to_string n) \<le> 9" "p = [] \<or> p = ''-''"
  shows "parse_number D (p @ to_string n @ r) = Inr (JInt (atoi (p @ to_string n @ r)), r)"
proof -
  have e: "\<not> is_digit (peek r)" using assms(1) by (simp add: number_end_def)
  note f = number_fraction_int [OF assms(1,2), of D, simplified]
  have t: "(if peek (p @ to_string n @ r) = CHR ''-'' then tl (p @ to_string n @ r) else p @ to_string n @ r) = to_string n @ r"
    using assms(3) digit_hd [of n] by (auto simp: peek_append)
  show ?thesis
  proof (cases "n = 0")
    case True
    then show ?thesis using e f unfolding parse_number_def t by (simp add: to_string_0)
  next
    case False
    then show ?thesis using f to_string_leading [of n] digit_hd [of n] unfolding parse_number_def t
      by (simp add: peek_append digits_end [OF e])
  qed
qed

lemma parse_number_dump:
  assumes "number_end r" "short_int n"
  shows "parse_number D (dump_int n @ r) = Inr (JInt n, r)"
proof -
  have e: "\<not> is_digit (peek r)" using assms(1) by (simp add: number_end_def)
  show ?thesis
  proof (cases "n < 0")
    case True
    then have "length (to_string (nat (- n))) \<le> 8" using assms(2) by (intro length_to_string) (simp_all add: short_int_def nat_less_iff)
    then show ?thesis using True parse_digits [OF assms(1), of "''-''" "nat (- n)" D] by (simp add: dump_int_def atoi_def digits_end [OF e])
  next
    case False
    then have "length (to_string (nat n)) \<le> 9" using assms(2) by (intro length_to_string) (simp_all add: short_int_def nat_less_iff)
    then show ?thesis using False parse_digits [OF assms(1), of "[]" "nat n" D] digit_hd [of "nat n"]
      by (simp add: dump_int_def atoi_def digits_end [OF e] peek_append)
  qed
qed

lemma token_first: "\<not> is_blank c \<Longrightarrow> c \<noteq> CHR ''/'' \<Longrightarrow> get_next_token st (c # r) = Inr (c, r)"
  by (simp add: get_next_token_def consume_garbage_def consume_whitespace_def consume_comments.simps consume_comment_def Let_def)

lemma token_blank: "get_next_token st (CHR '' '' # r) = get_next_token st r"
  by (simp add: get_next_token_def consume_garbage_def consume_whitespace_def is_blank_def)

lemma garbage_end: "consume_garbage st [] = Inr []"
  by (simp add: consume_garbage_def consume_whitespace_def consume_comments.simps consume_comment_def)

lemma not_blank [simp]:
  "\<not> is_blank QUOTE" "\<not> is_blank CHR ''{''" "\<not> is_blank CHR ''}''" "\<not> is_blank CHR ''[''" "\<not> is_blank CHR '']''"
  "\<not> is_blank CHR '':''" "\<not> is_blank CHR '',''" "\<not> is_blank CHR ''n''" "\<not> is_blank CHR ''t''" "\<not> is_blank CHR ''f''" "\<not> is_blank CHR ''-''"
  "is_digit c \<Longrightarrow> \<not> is_blank c"
  by (auto simp: is_blank_def QUOTE_def is_digit_def)

subsection \<open>Printed values are read back\<close>

text \<open>
  What the parser can build at a nesting depth: numbers that fit the nine characters of
  \<open>parse_number\<close>, objects sorted by key, and no value deeper than \<open>max_depth\<close>.
\<close>

fun json_ok :: "nat \<Rightarrow> json \<Rightarrow> bool" where
  "json_ok d (JInt n) \<longleftrightarrow> d \<le> max_depth \<and> short_int n"
| "json_ok d (JArray vs) \<longleftrightarrow> d \<le> max_depth \<and> (\<forall>v \<in> set vs. json_ok (Suc d) v)"
| "json_ok d (JObject m) \<longleftrightarrow> d \<le> max_depth \<and> map_wf (<) m \<and> (\<forall>e \<in> set m. json_ok (Suc d) (snd e))"
| "json_ok d j \<longleftrightarrow> d \<le> max_depth"

fun no_double :: "json \<Rightarrow> bool" where
  "no_double (JDouble _) = False"
| "no_double (JArray vs) = (\<forall>v \<in> set vs. no_double v)"
| "no_double (JObject m) = (\<forall>e \<in> set m. no_double (snd e))"
| "no_double j = True"

lemma pbind_simps [simp]:
  "pbind (Some (Inr (x, s))) f = f x s" "pbind (Some (Inl e)) f = Some (Inl e)" "pbind None f = None" "pbind (pok x s) f = f x s"
  by (simp_all add: pbind_def pok_def)

lemma QUOTE_simps [simp]:
  "QUOTE \<noteq> CHR ''/''" "QUOTE \<noteq> CHR ''-''" "\<not> is_digit QUOTE" "QUOTE \<noteq> CHR ''t''" "QUOTE \<noteq> CHR ''f''" "QUOTE \<noteq> CHR ''n''" "QUOTE \<noteq> CHR ''}''"
  "CHR ''{'' \<noteq> QUOTE" "CHR ''['' \<noteq> QUOTE"
  by (simp_all add: QUOTE_def is_digit_def)

lemma number_end_simps [simp]: "number_end (CHR '']'' # r)" "number_end (CHR ''}'' # r)" "number_end (CHR '','' # r)" "number_end []"
  by (simp_all add: number_end_def is_digit_def)

lemma dump_starts:
  assumes "no_double j"
  shows "\<exists>c s. json_dump D j = c # s \<and> \<not> is_blank c \<and> c \<noteq> CHR ''/'' \<and> c \<noteq> CHR '']''"
proof (cases j)
  case (JInt n)
  show ?thesis
  proof (cases "n < 0")
    case False
    have "is_digit (hd (to_string (nat n)))" by (rule digit_hd)
    then show ?thesis using False JInt to_string_nonempty [of "nat n"]
      by (cases "to_string (nat n)") (auto simp: dump_int_def is_digit_def is_blank_def)
  qed (simp add: JInt dump_int_def)
qed (use assms in \<open>simp_all add: dump_string_def QUOTE_def is_blank_def\<close>)

lemma parse_json_blank: "parse_json D st fuel d (CHR '' '' # s) = parse_json D st fuel d s"
  by (cases fuel) (simp_all add: token_blank)

lemma dump_array_False: "vs \<noteq> [] \<Longrightarrow> dump_array D False vs = '', '' @ dump_array D True vs"
  by (cases vs) simp_all

lemma dump_object_False: "m \<noteq> [] \<Longrightarrow> dump_object D False m = '', '' @ dump_object D True m"
  by (cases m) auto

lemma array_loop_dump:
  assumes "\<And>v r fuel. v \<in> set vs \<Longrightarrow> number_end r \<Longrightarrow> 2 * length (json_dump D v) \<le> fuel \<Longrightarrow> parse_json D st fuel (d + 1) (json_dump D v @ r) = pok v r"
    and "\<forall>v \<in> set vs. no_double v" "vs \<noteq> []" "2 * length (dump_array D True vs) + 1 \<le> fuel"
  shows "array_loop D st fuel d acc (dump_array D True vs @ CHR '']'' # r) = pok (JArray (acc @ vs)) r"
  using assms
proof (induction vs arbitrary: fuel acc)
  case (Cons v vs)
  obtain f where f: "fuel = Suc f" "2 * length (dump_array D True (v # vs)) \<le> f" using Cons.prems(4) by (cases fuel) simp_all
  show ?case
  proof (cases "vs = []")
    case True
    then show ?thesis using f Cons.prems(1) [of v "CHR '']'' # r" f] by (simp add: token_first)
  next
    case False
    let ?r = "dump_array D True vs @ CHR '']'' # r"
    obtain c s where c: "dump_array D True vs @ CHR '']'' # r = c # s" "\<not> is_blank c" "c \<noteq> CHR ''/''"
      using dump_starts [of "hd vs" D] False Cons.prems(2) by (cases vs) auto
    have "parse_json D st f (Suc d) (json_dump D v @ CHR '','' # CHR '' '' # ?r) = pok v (CHR '','' # CHR '' '' # ?r)"
      using Cons.prems(1) [of v "CHR '','' # CHR '' '' # ?r" f] f by simp
    moreover have "array_loop D st f d (acc @ [v]) ?r = pok (JArray ((acc @ [v]) @ vs)) r"
      using Cons.prems False f dump_array_False [OF False, of D] by (intro Cons.IH) simp_all
    ultimately show ?thesis using f(1) dump_array_False [OF False, of D] c by (simp add: token_first token_blank)
  qed
qed simp

lemma assign_last: "\<forall>e \<in> set m. fst e < k \<Longrightarrow> map_assign (<) k v m = m @ [(k, v)]" for k :: string
  by (induction m) (auto simp: less_not_sym)

lemma parse_string_dump: "parse_string (dump_chars s @ QUOTE # r) = Inr (s, r)"
  using parse_chars_dump [of "-1" "[]" s r] by (simp add: parse_string_def)

lemma object_loop_dump:
  assumes "\<And>e r fuel. e \<in> set m \<Longrightarrow> number_end r \<Longrightarrow> 2 * length (json_dump D (snd e)) \<le> fuel \<Longrightarrow>
      parse_json D st fuel (d + 1) (json_dump D (snd e) @ r) = pok (snd e) r"
    and "map_wf (<) (acc @ m)" "m \<noteq> []" "2 * length (dump_object D True m) + 1 \<le> fuel"
  shows "object_loop D st fuel d acc QUOTE (tl (dump_object D True m) @ CHR ''}'' # r) = pok (JObject (acc @ m)) r"
  using assms
proof (induction m arbitrary: fuel acc)
  case (Cons e m)
  obtain k v where e: "e = (k, v)" by (cases e)
  obtain f where f: "fuel = Suc f" "2 * length (dump_object D True (e # m)) \<le> f" using Cons.prems(4) by (cases fuel) simp_all
  have k: "map_assign (<) k v acc = acc @ [(k, v)]"
    using Cons.prems(2) by (intro assign_last) (auto simp: map_wf_def sorted_wrt_append e)
  show ?case
  proof (cases "m = []")
    case True
    then show ?thesis using f Cons.prems(1) [of e "CHR ''}'' # r" f]
      by (simp add: e dump_string_def parse_string_dump token_first parse_json_blank k)
  next
    case False
    let ?r = "dump_object D True m @ CHR ''}'' # r"
    have q: "?r = QUOTE # tl (dump_object D True m) @ CHR ''}'' # r" using False by (cases m) (auto simp: dump_string_def)
    have "parse_json D st f (Suc d) (json_dump D v @ CHR '','' # CHR '' '' # ?r) = pok v (CHR '','' # CHR '' '' # ?r)"
      using Cons.prems(1) [of e "CHR '','' # CHR '' '' # ?r" f] f by (simp add: e)
    moreover have "object_loop D st f d (acc @ [e]) QUOTE (tl (dump_object D True m) @ CHR ''}'' # r) = pok (JObject ((acc @ [e]) @ m)) r"
      using Cons.prems False f dump_object_False [OF False, of D] by (intro Cons.IH) (simp_all add: e)
    ultimately show ?thesis using f(1) dump_object_False [OF False, of D]
      by (simp add: e dump_string_def parse_string_dump token_first token_blank parse_json_blank k q)
  qed
qed simp

lemma parse_json_int:
  assumes "json_ok d (JInt n)" "number_end r" "2 * length (json_dump D (JInt n)) \<le> fuel"
  shows "parse_json D st fuel d (json_dump D (JInt n) @ r) = pok (JInt n) r"
proof -
  obtain f where f: "fuel = Suc f" using assms(3) by (cases fuel) (auto simp: dump_int_def split: if_splits)
  have "\<exists>c s. dump_int n @ r = c # s \<and> (c = CHR ''-'' \<or> is_digit c) \<and> \<not> is_blank c \<and> c \<noteq> CHR ''/''"
  proof (cases "n < 0")
    case False
    then show ?thesis using digit_hd [of "nat n"] to_string_nonempty [of "nat n"]
      by (cases "to_string (nat n)") (auto simp: dump_int_def is_digit_def is_blank_def)
  qed (simp add: dump_int_def)
  then obtain c s where c: "dump_int n @ r = c # s" "c = CHR ''-'' \<or> is_digit c" "\<not> is_blank c" "c \<noteq> CHR ''/''" by blast
  have "parse_number D (c # s) = Inr (JInt n, r)" using parse_number_dump [of r n D] assms c(1) by simp
  then show ?thesis using assms(1) c by (simp add: f token_first pok_def)
qed

lemma parse_json_dump:
  "json_ok d j \<Longrightarrow> no_double j \<Longrightarrow> number_end r \<Longrightarrow> 2 * length (json_dump D j) \<le> fuel \<Longrightarrow> parse_json D st fuel d (json_dump D j @ r) = pok j r"
proof (induction j arbitrary: d r fuel)
  case (JInt n)
  then show ?case by (intro parse_json_int) simp_all
next
  case (JString s)
  then show ?case by (cases fuel) (simp_all add: dump_string_def token_first parse_string_dump pok_def)
next
  case (JArray vs)
  obtain f where f: "fuel = Suc f" "2 * length (dump_array D True vs) + 1 \<le> f" using JArray.prems(4) by (cases fuel) simp_all
  show ?case
  proof (cases "vs = []")
    case True
    then show ?thesis using JArray.prems(1) f(1) by (simp add: token_first is_digit_def QUOTE_def)
  next
    case False
    let ?s = "dump_array D True vs @ CHR '']'' # r"
    have "array_loop D st f d [] ?s = pok (JArray ([] @ vs)) r"
      using JArray f False by (intro array_loop_dump) auto
    moreover obtain c s where "?s = c # s" "\<not> is_blank c" "c \<noteq> CHR ''/''" "c \<noteq> CHR '']''"
      using dump_starts [of "hd vs" D] False JArray.prems(2) by (cases vs) auto
    ultimately show ?thesis using JArray.prems(1) f(1) by (simp add: token_first is_digit_def QUOTE_def)
  qed
next
  case (JObject m)
  obtain f where f: "fuel = Suc f" "2 * length (dump_object D True m) + 1 \<le> f" using JObject.prems(4) by (cases fuel) simp_all
  show ?case
  proof (cases "m = []")
    case True
    then show ?thesis using JObject.prems(1) f(1) by (simp add: token_first is_digit_def QUOTE_def)
  next
    case False
    obtain t where t: "dump_object D True m = QUOTE # t" using False by (cases m) (auto simp: dump_string_def)
    have "object_loop D st f d [] QUOTE (tl (dump_object D True m) @ CHR ''}'' # r) = pok (JObject ([] @ m)) r"
    proof (rule object_loop_dump)
      fix e r fuel
      assume "e \<in> set m" "number_end r" "2 * length (json_dump D (snd e)) \<le> fuel"
      then show "parse_json D st fuel (d + 1) (json_dump D (snd e) @ r) = pok (snd e) r"
        using JObject.IH [of e "snd e"] JObject.prems(1,2) by (simp add: snds.simps)
    qed (use JObject.prems f False in simp_all)
    then show ?thesis using JObject.prems(1) f(1) by (simp add: t token_first is_digit_def)
  qed
next
  case JNull
  obtain f where "fuel = Suc f" using JNull.prems(4) by (cases fuel) simp_all
  then show ?case using JNull.prems(1) by (simp add: token_first expect_def pok_def is_digit_def)
next
  case (JBool b)
  obtain f where "fuel = Suc f" using JBool.prems(4) by (cases fuel) (simp_all split: if_splits)
  then show ?case using JBool.prems(1) by (cases b) (simp_all add: token_first expect_def pok_def is_digit_def)
qed simp

lemma parse_of_dump:
  assumes "json_ok 0 j" "no_double j"
  shows "json_parse D st (json_dump D j) = Some (Inr j)"
  using parse_json_dump [OF assms, of "[]" D "2 * length (json_dump D j) + 1" st] by (simp add: json_parse_def garbage_end pok_def)

text \<open>
  C26: What is printed is read back: for a value that has no floating point number, whose numbers
  have at most nine characters and whose nesting is at most 200 levels, the parser gives the same value
  for the printed text, whatever bytes its strings and keys hold and whether comments are allowed or not.
\<close>
theorem json_dump_parse:
  assumes "json_ok 0 j" "no_double j"
  shows "json_parse D st (json_dump D j) = Some (Inr j)"
  using assms by (rule parse_of_dump)

subsection \<open>The parser returns, and what it returns is well-formed\<close>

text \<open>A result of the parser with less than \<open>n\<close> characters left, and one whose value satisfies \<open>P\<close>.\<close>

definition returns :: "nat \<Rightarrow> 'a parsed \<Rightarrow> bool" where
  "returns n x \<longleftrightarrow> (\<exists>y. x = Some y \<and> (\<forall>v r. y = Inr (v, r) \<longrightarrow> length r < n))"

definition yields :: "('a \<Rightarrow> bool) \<Rightarrow> 'a parsed \<Rightarrow> bool" where
  "yields P x \<longleftrightarrow> (\<forall>v r. x = Some (Inr (v, r)) \<longrightarrow> P v)"

lemma returns_bind: "returns n m \<Longrightarrow> (\<And>x s. length s < n \<Longrightarrow> returns k (f x s)) \<Longrightarrow> returns k (pbind m f)"
  by (auto simp: returns_def pbind_def split: sum.splits)

lemma returns_simps [simp]: "returns n (pfail e)" "returns n (pok v s) \<longleftrightarrow> length s < n"
  by (simp_all add: returns_def pfail_def pok_def)

lemma returns_mono: "returns n x \<Longrightarrow> n \<le> k \<Longrightarrow> returns k x"
  by (fastforce simp: returns_def)

lemma yields_bind: "yields Q m \<Longrightarrow> (\<And>x s. Q x \<Longrightarrow> yields P (f x s)) \<Longrightarrow> yields P (pbind m f)"
  by (fastforce simp: yields_def pbind_def split: option.splits sum.splits)

lemma yields_simps [simp]: "yields P (pfail e)" "yields P (pok v s) \<longleftrightarrow> P v" "yields P None"
  by (simp_all add: yields_def pfail_def pok_def)

lemma consume_comment_le: "consume_comment s = Inr (b, r) \<Longrightarrow> length r \<le> length s"
  using consume_comment_shorter [of s r]
  by (cases b; cases "skip_multiline (tl (tl s))") (auto simp: consume_comment_def split: list.splits if_splits)

lemma consume_whitespace_le: "length (consume_whitespace s) \<le> length s"
  by (simp add: consume_whitespace_def length_dropWhile_le)

lemma consume_comments_le: "consume_comments s = Inr r \<Longrightarrow> length r \<le> length s"
proof (induction s arbitrary: r rule: consume_comments.induct)
  case (1 s)
  obtain b t where t: "consume_comment s = Inr (b, t)" using 1(2) by (subst (asm) consume_comments.simps) (auto split: sum.splits)
  note le = order_trans [OF consume_whitespace_le consume_comment_le [OF t]]
  show ?case
  proof (cases b)
    case True
    then have "length r \<le> length (consume_whitespace t)" using 1 t by (subst (asm) (2) consume_comments.simps) simp
    then show ?thesis using le by (rule order_trans)
  next
    case False
    then show ?thesis using 1(2) t le by (subst (asm) consume_comments.simps) simp
  qed
qed

lemma token_returns: "returns (length s) (Some (get_next_token st s))"
  using consume_whitespace_le [of s] consume_comments_le [of "consume_whitespace s"]
  by (fastforce simp: returns_def get_next_token_def consume_garbage_def Let_def split: sum.splits list.splits if_splits)

lemma parse_chars_step:
  assumes "parse_chars out lst (ch # s) = Inr (x, r)"
  shows "r = s \<or> (\<exists>out' lst' t. length t \<le> length s \<and> parse_chars out' lst' t = Inr (x, r))"
proof (cases "ch = BSLASH")
  case True
  then obtain e t where s: "s = e # t" using assms by (cases s) (simp_all add: BSLASH_def QUOTE_def)
  show ?thesis
  proof (cases "e = CHR ''u''")
    case u: True
    have "\<exists>out' lst'. parse_chars out' lst' (drop 4 t) = Inr (x, r)"
      using assms unfolding True s u by (auto simp: BSLASH_def QUOTE_def Let_def split: if_splits)
    then show ?thesis using s by (metis diff_le_self le_Suc_eq length_Cons length_drop order_trans)
  next
    case False
    have "\<exists>out' lst'. parse_chars out' lst' t = Inr (x, r)"
      using assms False unfolding True s by (auto simp: BSLASH_def QUOTE_def split: if_splits option.splits)
    then show ?thesis using s by (metis le_Suc_eq length_Cons order_refl)
  qed
next
  case False
  then have "r = s \<or> parse_chars (out @ encode_utf8 lst @ [ch]) (-1) s = Inr (x, r)" using assms by (simp split: if_splits)
  then show ?thesis by blast
qed

lemma parse_chars_shorter: "parse_chars out lst s = Inr (x, r) \<Longrightarrow> length r < length s"
proof (induction s arbitrary: out lst rule: length_induct)
  case (1 s)
  then obtain ch u where s: "s = ch # u" by (cases s) simp_all
  then have "r = u \<or> (\<exists>out' lst' t. length t \<le> length u \<and> parse_chars out' lst' t = Inr (x, r))" using 1(2) parse_chars_step by blast
  then show ?case
  proof (elim disjE exE conjE)
    fix out' lst' t
    assume "length t \<le> length u" "parse_chars out' lst' t = Inr (x, r)"
    then show ?thesis using 1(1) [rule_format, of t] s by fastforce
  qed (simp add: s)
qed

lemma string_returns: "returns (length s) (Some (parse_string s))"
  using parse_chars_shorter by (auto simp: returns_def parse_string_def)

lemma peek_Cons: "peek s = c \<Longrightarrow> c \<noteq> CHR 0x00 \<Longrightarrow> \<exists>t. s = c # t"
  by (cases s) auto

lemma number_exponent_le: "number_exponent D s r = Inr (j, r') \<Longrightarrow> length r' \<le> length r \<and> (\<exists>d. j = JDouble d)"
  using length_dropWhile_le [of is_digit "tl r"] length_dropWhile_le [of is_digit "tl (tl r)"]
  by (auto simp: number_exponent_def Let_def split: if_splits)

lemma number_fraction_le:
  assumes "number_fraction D s r = Inr (j, r')"
  shows "length r' \<le> length r \<and> ((\<exists>d. j = JDouble d) \<or> j = JInt (atoi s) \<and> length s - length r \<le> 9)"
  using assms number_exponent_le [of D s r j r'] number_exponent_le [of D s "dropWhile is_digit (tl r)" j r'] length_dropWhile_le [of is_digit "tl r"]
  by (auto simp: number_fraction_def split: if_splits)

lemma dec_val_bound: "list_all is_digit ds \<Longrightarrow> dec_val ds < 10 ^ length ds"
proof (induction ds rule: rev_induct)
  case (snoc c ds)
  then have "digit_val c < 10" "dec_val ds + 1 \<le> 10 ^ length ds" by (auto simp: digit_val_def is_digit_def)
  then show ?case by simp
qed (simp add: dec_val_def)

lemma digits_bound: "length (takeWhile is_digit s) \<le> k \<Longrightarrow> dec_val (takeWhile is_digit s) < 10 ^ k"
  by (rule less_le_trans [OF dec_val_bound power_increasing]) (auto simp: list_all_iff dest: set_takeWhileD)

lemma take_drop_length: "length (takeWhile P s) = length s - length (dropWhile P s)"
  by (metis add_diff_cancel_right' length_append takeWhile_dropWhile_id)

text \<open>The integer part of a number: the sign, and then 0 or all digits up to the first other character.\<close>

lemma parse_number_parts:
  assumes "parse_number D s = Inr (j, r)"
  obtains b where "b = (if peek s = CHR ''-'' then tl s else s)" "is_digit (peek b)" "number_fraction D s (dropWhile is_digit b) = Inr (j, r)"
proof -
  let ?b = "if peek s = CHR ''-'' then tl s else s"
  have 0: "is_digit CHR ''0''" "\<not> is_digit CHR 0x00" by (simp_all add: is_digit_def)
  have "dropWhile is_digit ?b = tl ?b" if "peek ?b = CHR ''0''" "\<not> is_digit (peek (tl ?b))"
    using that 0 by (cases ?b; cases "tl ?b") (simp_all split: if_splits)
  then show ?thesis using assms 0(1) by (intro that [of ?b]) (auto simp: parse_number_def Let_def split: if_splits)
qed

lemma parse_number_ok:
  assumes "parse_number D s = Inr (j, r)"
  shows "length r < length s" "(\<exists>d. j = JDouble d) \<or> (\<exists>n. j = JInt n \<and> short_int n)"
proof -
  obtain b where b: "b = (if peek s = CHR ''-'' then tl s else s)" "is_digit (peek b)" "number_fraction D s (dropWhile is_digit b) = Inr (j, r)"
    using parse_number_parts [OF assms] by blast
  have ne: "b \<noteq> []" using b(2) by (auto simp: is_digit_def)
  note f = number_fraction_le [OF b(3)]
  have l: "length (dropWhile is_digit b) < length b" using b(2) ne length_dropWhile_le [of is_digit "tl b"] by (cases b) simp_all
  then show "length r < length s" using f b(1) by (cases s) (auto split: if_splits)
  have "short_int (atoi s)" if "length s - length (dropWhile is_digit b) \<le> 9"
  proof (cases "peek s = CHR ''-''")
    case True
    then have "length (takeWhile is_digit b) \<le> 8" using that b(1) ne l by (cases s) (simp_all add: take_drop_length)
    then show ?thesis using digits_bound [of b 8] True b(1) by (simp add: atoi_def short_int_def)
  next
    case False
    then have "length (takeWhile is_digit b) \<le> 9" using that b(1) by (simp add: take_drop_length)
    then show ?thesis using digits_bound [of b 9] False b(1) by (simp add: atoi_def short_int_def)
  qed
  then show "(\<exists>d. j = JDouble d) \<or> (\<exists>n. j = JInt n \<and> short_int n)" using f by blast
qed

lemma number_returns: "returns (length s) (Some (parse_number D s))"
  using parse_number_ok(1) by (auto simp: returns_def)

lemma expect_returns: "expected \<noteq> [] \<Longrightarrow> returns (length s) (Some (expect expected j s))"
  by (cases s) (auto simp: returns_def expect_def)

lemma fuel_enough:
  "(\<forall>s d. 2 * length s + 1 \<le> fuel \<longrightarrow> returns (length s) (parse_json D st fuel d s))
   \<and> (\<forall>s d m ch. 2 * length s + 2 \<le> fuel \<longrightarrow> returns (length s) (object_loop D st fuel d m ch s))
   \<and> (\<forall>s d vs. 2 * length s + 2 \<le> fuel \<longrightarrow> returns (length s) (array_loop D st fuel d vs s))"
proof (induction fuel)
  case (Suc f)
  have j: "returns n (parse_json D st f d s)" if "2 * length s + 1 \<le> f" "length s \<le> n" for s d n using Suc that returns_mono by blast
  have ob: "returns n (object_loop D st f d m ch s)" if "2 * length s + 2 \<le> f" "length s \<le> n" for s d m ch n using Suc that returns_mono by blast
  have ar: "returns n (array_loop D st f d vs s)" if "2 * length s + 2 \<le> f" "length s \<le> n" for s d vs n using Suc that returns_mono by blast
  note token = returns_bind [OF token_returns]
  have "returns (length s) (parse_json D st (Suc f) d s)" if "2 * length s + 1 \<le> Suc f" for s d
  proof -
    have "returns (length s) (Some (parse_number D (ch # t)))" "returns (length s) (Some (expect ''true'' (JBool True) (ch # t)))"
      "returns (length s) (Some (expect ''false'' (JBool False) (ch # t)))" "returns (length s) (Some (expect ''null'' JNull (ch # t)))"
      "returns (length s) (Some (map_sum id (apfst JString) (parse_string t)))" if "length t < length s" for ch t
    proof -
      have "length (ch # t) \<le> length s" using that by simp
      note le = returns_mono [OF _ this]
      show "returns (length s) (Some (parse_number D (ch # t)))" "returns (length s) (Some (expect ''true'' (JBool True) (ch # t)))"
        "returns (length s) (Some (expect ''false'' (JBool False) (ch # t)))" "returns (length s) (Some (expect ''null'' JNull (ch # t)))"
        by (rule le, rule number_returns, (rule le, rule expect_returns, simp)+)
      show "returns (length s) (Some (map_sum id (apfst JString) (parse_string t)))"
        using string_returns [of t] that by (cases "parse_string t") (auto simp: returns_def)
    qed
    moreover have "returns (length s) (pbind (Some (get_next_token st t)) (\<lambda>ch s. if ch = CHR ''}'' then pok (JObject []) s else object_loop D st f d [] ch s))"
      "returns (length s) (pbind (Some (get_next_token st t)) (\<lambda>ch s. if ch = CHR '']'' then pok (JArray []) s else array_loop D st f d [] (ch # s)))"
      if "length t < length s" for t
      using \<open>2 * length s + 1 \<le> Suc f\<close> that by (auto intro!: token ob ar)
    ultimately show ?thesis by (simp del: length_0_conv) (intro impI token, simp)
  qed
  moreover have "returns (length s) (object_loop D st (Suc f) d m ch s)" if "2 * length s + 2 \<le> Suc f" for s d m ch
    using that by (auto simp: Let_def intro!: returns_bind [OF string_returns] token returns_bind [OF j [OF _ order_refl]] ob)
  moreover have "returns (length s) (array_loop D st (Suc f) d vs s)" if "2 * length s + 2 \<le> Suc f" for s d vs
    using that by (auto simp: Let_def intro!: returns_bind [OF j [OF _ order_refl]] token ar)
  ultimately show ?case by blast
qed simp

text \<open>
  C27: The parser returns for every text: the recursion over values, objects and lists comes to
  an end, with a value or with a message, within the number of steps that twice the length of the text allows.
\<close>
theorem json_parse_total: "\<exists>r. json_parse D st s = Some r"
proof -
  have "returns (length s) (parse_json D st (2 * length s + 1) 0 s)" using fuel_enough [of "2 * length s + 1" D st] by blast
  then show ?thesis by (auto simp: returns_def json_parse_def split: sum.splits)
qed

lemma yields_token: "(\<And>ch s. yields P (f ch s)) \<Longrightarrow> yields P (pbind (Some x) f)"
  by (rule yields_bind [where Q = "\<lambda>_. True"]) (simp_all add: yields_def)

lemma json_ok_assign:
  fixes k :: string
  assumes "map_wf (<) m" "\<forall>e \<in> set m. json_ok d (snd e)" "json_ok d v"
  shows "map_wf (<) (map_assign (<) k v m)" "\<forall>e \<in> set (map_assign (<) k v m). json_ok d (snd e)"
proof -
  show "map_wf (<) (map_assign (<) k v m)" by (rule std_less.wf_assign [OF assms(1)])
  have "set (map_assign (<) k v m) \<subseteq> insert (k, v) (set m)" by (induction m) auto
  then show "\<forall>e \<in> set (map_assign (<) k v m). json_ok d (snd e)" using assms(2,3) by auto
qed

lemma parse_yields_ok:
  "(\<forall>d s. yields (json_ok d) (parse_json D st fuel d s))
   \<and> (\<forall>d m ch s. d \<le> max_depth \<and> map_wf (<) m \<and> (\<forall>e \<in> set m. json_ok (Suc d) (snd e)) \<longrightarrow> yields (json_ok d) (object_loop D st fuel d m ch s))
   \<and> (\<forall>d vs s. d \<le> max_depth \<and> (\<forall>v \<in> set vs. json_ok (Suc d) v) \<longrightarrow> yields (json_ok d) (array_loop D st fuel d vs s))"
proof (induction fuel)
  case (Suc f)
  have "yields (json_ok d) (parse_json D st (Suc f) d s)" for d s
  proof (cases "d > max_depth")
    case False
    then have "d \<le> max_depth" by simp
    moreover have "yields (json_ok d) (Some (parse_number D t))" "yields (json_ok d) (Some (map_sum id (apfst JString) (parse_string t)))"
      "yields (json_ok d) (Some (expect x JNull t))" "yields (json_ok d) (Some (expect x (JBool b) t))" for x b t
      using parse_number_ok(2) [of D t] False by (cases "parse_string t"; fastforce simp: yields_def expect_def split: if_splits)+
    moreover have "yields (json_ok d) (object_loop D st f d [] ch t)" "yields (json_ok d) (array_loop D st f d [] t)" for ch t
      using Suc \<open>d \<le> max_depth\<close> by simp_all
    ultimately show ?thesis using False by (auto intro!: yields_token split: if_splits)
  qed simp
  moreover have "yields (json_ok d) (object_loop D st (Suc f) d m ch s)"
    if "d \<le> max_depth" "map_wf (<) m" "\<forall>e \<in> set m. json_ok (Suc d) (snd e)" for d m ch s
    using that Suc json_ok_assign [OF that(2,3)]
    by (auto simp: Let_def intro!: yields_token yields_bind [where Q = "json_ok (Suc d)"])
  moreover have "yields (json_ok d) (array_loop D st (Suc f) d vs s)" if "d \<le> max_depth" "\<forall>v \<in> set vs. json_ok (Suc d) v" for d vs s
    using that Suc by (auto simp: Let_def intro!: yields_token yields_bind [where Q = "json_ok (Suc d)"])
  ultimately show ?case by blast
qed simp

text \<open>
  C28: The parser gives well-formed values only: nothing is nested deeper than 200 levels,
  every number that is not floating point fits nine characters, and every object is sorted by its keys, each key once,
  as the look-up needs it.
\<close>
theorem json_parse_ok:
  assumes "json_parse D st s = Some (Inr j)"
  shows "json_ok 0 j"
proof -
  obtain r where "parse_json D st (2 * length s + 1) 0 s = Some (Inr (j, r))"
    using assms by (auto simp: json_parse_def split: option.splits sum.splits if_splits)
  moreover have "yields (json_ok 0) (parse_json D st (2 * length s + 1) 0 s)" using parse_yields_ok by blast
  ultimately show ?thesis unfolding yields_def by blast
qed

subsection \<open>Objects from an initialiser list\<close>

lemma fold_emplace_wf: "map_wf (<) m \<Longrightarrow> map_wf (<) (fold (\<lambda>(k, v). map_emplace (<) k v) kvs m)" for m :: "(string, json) smap"
  by (induction kvs arbitrary: m) (auto intro: std_less.wf_emplace)

lemma fold_emplace_set: "set (fold (\<lambda>(k, v). map_emplace (<) k v) kvs m) \<subseteq> set m \<union> set kvs" for m :: "(string, json) smap"
proof (induction kvs arbitrary: m)
  case (Cons e kvs)
  then show ?case using set_map_emplace [of "(<)" "fst e" "snd e" m] by (cases e) fastforce
qed simp

lemma fold_emplace_find:
  fixes m :: "(string, json) smap"
  assumes "map_wf (<) m"
  shows "map_find (<) k (fold (\<lambda>(k, v). map_emplace (<) k v) kvs m)
    = (case map_find (<) k m of Some e \<Rightarrow> Some e | None \<Rightarrow> map_option (Pair k) (map_of kvs k))"
  using assms
proof (induction kvs arbitrary: m)
  case (Cons e kvs)
  obtain j v where e: "e = (j, v)" by (cases e)
  have "map_find (<) k (map_emplace (<) j v m) = (case map_find (<) k m of Some e \<Rightarrow> Some e | None \<Rightarrow> if k = j then Some (j, v) else None)"
    using std_less.find_emplace_same [OF Cons.prems, of j v] std_less.find_emplace_other [of j k v m]
    by (cases "k = j") (auto split: option.splits)
  then show ?case using Cons.IH [OF std_less.wf_emplace [OF Cons.prems, of j v]] by (auto simp: e split: option.splits)
qed (auto split: option.splits)

lemma json_get_object [simp]: "json_get (json_object kvs) k = (case map_of kvs k of Some v \<Rightarrow> v | None \<Rightarrow> JNull)"
  using fold_emplace_find [of "[]" k kvs] by (auto simp: json_object_def split: option.splits)

lemma json_object_simps [simp]: "json_type_of (json_object kvs) = OBJECT"
  by (simp add: json_object_def)

lemma json_ok_object: "d \<le> max_depth \<Longrightarrow> \<forall>e \<in> set kvs. json_ok (Suc d) (snd e) \<Longrightarrow> json_ok d (json_object kvs)"
  using fold_emplace_wf [of "[]" kvs] fold_emplace_set [of kvs "[]"] by (auto simp: json_object_def)

lemma no_double_object: "\<forall>e \<in> set kvs. no_double (snd e) \<Longrightarrow> no_double (json_object kvs)"
  using fold_emplace_set [of kvs "[]"] by (auto simp: json_object_def)

subsection \<open>Samples\<close>

definition sample_dbl :: dbl_ops where
  "sample_dbl = \<lparr>dbl_strtod = \<lambda>s. if take 3 s = ''1.5'' then 0x3FF8000000000000 else 0, dbl_print = \<lambda>_. ''1.5'',
     dbl_trunc = \<lambda>d. if d = 0x3FF8000000000000 then 1 else 0\<rparr>"

definition sample_json :: json where
  "sample_json = JObject [(''a'', JArray [JInt (-12345678), JNull, JBool True]),
     (''b'', JString [CHR ''x'', QUOTE, CHR 0x01, CHR 0xE2, CHR 0x80, CHR 0xA8])]"

theorem json_dump_parse_witness:
  "json_ok 0 sample_json \<and> no_double sample_json \<and> json_parse sample_dbl COMMENTS (json_dump sample_dbl sample_json) = Some (Inr sample_json)"
proof -
  have "json_ok 0 sample_json" "no_double sample_json" by code_simp+
  then show ?thesis using json_dump_parse [of sample_json sample_dbl COMMENTS] by blast
qed

definition sample_text :: string where
  "sample_text = [CHR ''{'', QUOTE, CHR ''k'', QUOTE, CHR '':'', CHR ''['', CHR ''1'', CHR ''.'', CHR ''5'', CHR '']'', CHR '','', QUOTE, CHR ''a'', QUOTE,
     CHR '':'', CHR '' '', CHR ''7'', CHR ''}'']"

theorem json_parse_ok_witness:
  "\<exists>j. json_parse sample_dbl STANDARD sample_text = Some (Inr j) \<and> j = JObject [(''a'', JInt 7), (''k'', JArray [JDouble 0x3FF8000000000000])] \<and> json_ok 0 j"
proof -
  have "json_parse sample_dbl STANDARD sample_text = Some (Inr (JObject [(''a'', JInt 7), (''k'', JArray [JDouble 0x3FF8000000000000])]))"
    by code_simp
  then show ?thesis using json_parse_ok by blast
qed

end
