(* ===== verification/Config.thy ===== *)
theory Config
  imports Port_List R_Conn Route_Service Json11
begin

section \<open>Configuration (bean/RConfig.cpp, cap/cap_util.cpp)\<close>

text \<open>
  The options of the two programs, from the command line or from a JSON file, their checks, their
  dump as JSON, and the filter string for libpcap. The parser of the command line (args.hxx),
  the file system, \<open>inet_pton\<close>, \<open>inet_addr\<close> and libpcap are parameters; JSON texts are read and printed by theory \<open>Json11\<close>. What the code
  throws is a value of \<open>conf_err\<close>; \<open>StdException\<close> is an exception of the standard library that nobody catches.
\<close>

subsection \<open>Values\<close>

datatype conf_err = ArgsError | ConfAssert | StdException

definition OM_PIPE_TCP :: int where "OM_PIPE_TCP = 3"
definition OM_PIPE_UDP :: int where "OM_PIPE_UDP = 12"
definition OM_PIPE_ALL :: int where "OM_PIPE_ALL = 15"
definition OM_PCAP_TIMEOUT :: u16 where "OM_PCAP_TIMEOUT = 10"
definition plog_debug :: nat where "plog_debug = 5"
definition plog_verbose :: nat where "plog_verbose = 6"

record rconfig =
  cf_logLevel :: nat
  cf_logPath :: string
  cf_isServer :: bool
  cf_isDaemon :: bool
  cf_dev :: string
  cf_selfUnPath :: string
  cf_localUdpIp :: string
  cf_localUdpPort :: u16
  cf_selfCapIp :: string
  cf_capPorts :: port_list
  cf_targetIp :: string
  cf_targetPort :: u16
  cf_appKeepAliveSec :: u32
  cf_selfCapInt :: u32
  cf_targetCapInt :: u32
  cf_hashKey :: string
  cf_id :: "byte list"
  cf_type :: int
  cf_cap_timeout :: u16
  cf_keepAliveIntervalSec :: int
  cf_mInited :: bool

definition new_rconfig :: "string \<Rightarrow> rconfig" where
  "new_rconfig log_path = \<lparr>cf_logLevel = plog_debug, cf_logPath = log_path, cf_isServer = False, cf_isDaemon = False, cf_dev = [],
     cf_selfUnPath = [], cf_localUdpIp = [], cf_localUdpPort = 0, cf_selfCapIp = [], cf_capPorts = AddPortRange new_port_list 10001 10010,
     cf_targetIp = [], cf_targetPort = 0, cf_appKeepAliveSec = 600, cf_selfCapInt = 0, cf_targetCapInt = 0, cf_hashKey = ''hello135'',
     cf_id = replicate ID_BUF_SIZE 0, cf_type = OM_PIPE_TCP, cf_cap_timeout = OM_PCAP_TIMEOUT, cf_keepAliveIntervalSec = 4, cf_mInited = False\<rparr>"

subsection \<open>Addresses and types\<close>

definition ValidIp4 :: "(string \<Rightarrow> int) \<Rightarrow> string \<Rightarrow> bool" where
  "ValidIp4 inet_pton ip \<longleftrightarrow> inet_pton ip \<noteq> -1"

definition find_colon :: "string \<Rightarrow> nat option" where
  "find_colon s = (if CHR '':'' \<in> set s then Some (length (takeWhile (\<lambda>c. c \<noteq> CHR '':'') s)) else None)"

text \<open>
  \<open>parseAddr\<close> gives its answer, the ip and the port. Without a colon \<open>pos\<close> is the largest \<open>size_t\<close>,
  which is greater than 0 and not less than \<open>addr.size() - 1\<close>. The port is an \<open>int\<close> cut to 16 bits.
\<close>

definition parseAddr :: "(string \<Rightarrow> int) \<Rightarrow> string \<Rightarrow> u16 \<Rightarrow> bool \<Rightarrow> conf_err + bool \<times> string \<times> u16" where
  "parseAddr inet_pton addr port usePort =
     (let pos = find_colon addr; ip = (case pos of Some p \<Rightarrow> take p addr | None \<Rightarrow> addr) in
      if pos \<noteq> Some 0 \<and> \<not> ValidIp4 inet_pton ip then Inr (False, ip, port)
      else if usePort then
        (case pos of
           Some p \<Rightarrow>
             if p < length addr - 1 then
               (if list_all is_digit (drop (p + 1) addr) then
                  (case stoi (drop (p + 1) addr) of
                     None \<Rightarrow> Inl StdException
                   | Some n \<Rightarrow> Inr ((of_nat n :: u16) \<noteq> 0, ip, of_nat n))
                else Inr (False, ip, port))
             else Inr (False, ip, port)
         | None \<Rightarrow> Inr (False, ip, port))
      else Inr (True, ip, port))"

definition typeOfStr :: "string \<Rightarrow> int" where
  "typeOfStr s =
     (if s = ''tcp'' then OM_PIPE_TCP else if s = ''udp'' then OM_PIPE_UDP else if s = ''all'' then OM_PIPE_ALL else OM_PIPE_TCP)"

definition strOfType :: "int \<Rightarrow> string" where
  "strOfType t =
     (if t = OM_PIPE_TCP then ''tcp'' else if t = OM_PIPE_UDP then ''udp'' else if t = OM_PIPE_ALL then ''all'' else ''invalid'')"

subsection \<open>Devices (\<open>cap_util\<close>)\<close>

definition devWithIpv4 :: "(string \<Rightarrow> u32) \<Rightarrow> int \<times> cap_dev list \<Rightarrow> string \<Rightarrow> string option" where
  "devWithIpv4 ip_addr devs ip =
     (case devs of (nret, ds) \<Rightarrow>
        if nret = -1 then None
        else map_option cd_name (List.find (\<lambda>d. list_ex (\<lambda>a. ca_inet a \<and> ca_addr a = ip_addr ip) (cd_addresses d)) ds))"

definition DevIpMatch :: "(string \<Rightarrow> u32) \<Rightarrow> int \<times> cap_dev list \<Rightarrow> string \<Rightarrow> string \<Rightarrow> bool" where
  "DevIpMatch ip_addr devs dev ip \<longleftrightarrow> devWithIpv4 ip_addr devs ip = Some dev"

text \<open>\<open>err\<close> is what \<open>pcap_findalldevs\<close> leaves in its error buffer.\<close>

definition ipv4OfDev :: "int \<times> cap_dev list \<Rightarrow> string \<Rightarrow> string \<Rightarrow> string option" where
  "ipv4OfDev devs err dev =
     (case devs of (nret, ds) \<Rightarrow>
        if nret = -1 then None
        else if err \<noteq> [] then None
        else (case concat (map (\<lambda>d. if cd_name d = dev then filter ca_inet (cd_addresses d) else []) ds) of
                [] \<Rightarrow> None
              | a # _ \<Rightarrow> Some (InAddr2Ip (ca_addr a))))"

subsection \<open>JSON\<close>

record conf_sys =
  cs_inet_pton :: "string \<Rightarrow> int"
  cs_inet_addr :: "string \<Rightarrow> u32"
  cs_devs :: "int \<times> cap_dev list"
  cs_devs_err :: string
  cs_route_open :: bool
  cs_route_get :: "u32 \<Rightarrow> int \<times> gw_addr"
  cs_targets :: "string list"
  cs_id :: "string \<Rightarrow> byte list"
  cs_dbl :: dbl_ops
  cs_file :: "string \<Rightarrow> bool \<times> string"

definition set_ports :: "string \<Rightarrow> rconfig \<Rightarrow> conf_err + rconfig" where
  "set_ports s c =
     (case PortList_FromString (cf_capPorts c) s of
        None \<Rightarrow> Inl StdException
      | Some (ok, l) \<Rightarrow> if ok then Inr (c\<lparr>cf_capPorts := l\<rparr>) else Inl ArgsError)"

definition set_local :: "conf_sys \<Rightarrow> string \<Rightarrow> rconfig \<Rightarrow> conf_err + rconfig" where
  "set_local S s c =
     (case parseAddr (cs_inet_pton S) s (cf_localUdpPort c) (\<not> cf_isServer c) of
        Inl e \<Rightarrow> Inl e
      | Inr (ok, ip, port) \<Rightarrow> if ok then Inr (c\<lparr>cf_localUdpIp := ip, cf_localUdpPort := port\<rparr>) else Inl ArgsError)"

definition set_target :: "conf_sys \<Rightarrow> string \<Rightarrow> rconfig \<Rightarrow> conf_err + rconfig" where
  "set_target S s c =
     (case parseAddr (cs_inet_pton S) s (cf_targetPort c) (cf_isServer c) of
        Inl e \<Rightarrow> Inl e
      | Inr (ok, ip, port) \<Rightarrow> if ok then Inr (c\<lparr>cf_targetIp := ip, cf_targetPort := port\<rparr>) else Inl ArgsError)"

definition set_type :: "string \<Rightarrow> rconfig \<Rightarrow> conf_err + rconfig" where
  "set_type s c = (let t = typeOfStr s in if t = 0 then Inl ArgsError else Inr (c\<lparr>cf_type := t\<rparr>))"

text \<open>Sequencing of steps that may throw, and steps that depend on the type of a value.\<close>

definition andThen :: "conf_err + rconfig \<Rightarrow> (rconfig \<Rightarrow> conf_err + rconfig) \<Rightarrow> conf_err + rconfig" where
  "andThen r f = (case r of Inl e \<Rightarrow> Inl e | Inr c \<Rightarrow> f c)"

definition on_string :: "json \<Rightarrow> (string \<Rightarrow> rconfig \<Rightarrow> conf_err + rconfig) \<Rightarrow> rconfig \<Rightarrow> conf_err + rconfig" where
  "on_string j f c = (if json_type_of j = STRING then f (string_value j) c else Inr c)"

definition on_number :: "dbl_ops \<Rightarrow> json \<Rightarrow> (int \<Rightarrow> rconfig \<Rightarrow> conf_err + rconfig) \<Rightarrow> rconfig \<Rightarrow> conf_err + rconfig" where
  "on_number D j f c = (if json_type_of j = NUMBER then f (int_value D j) c else Inr c)"

lemma on_value_simps [simp]:
  "on_string (JString s) f c = f s c" "on_string (JInt n) f c = Inr c"
  "on_number D (JInt n) g c = g n c" "on_number D (JString s) g c = Inr c"
  by (simp_all add: on_string_def on_number_def)

definition json_param :: "conf_sys \<Rightarrow> json \<Rightarrow> rconfig \<Rightarrow> conf_err + rconfig" where
  "json_param S o' c =
     (if json_type_of o' = OBJECT then
        andThen (andThen (andThen (andThen (andThen (andThen (andThen (andThen (andThen (andThen
          (on_string (json_get o' ''dev'') (\<lambda>s c. Inr (c\<lparr>cf_dev := s\<rparr>)) c)
          (on_string (json_get o' ''lcapIp'') (\<lambda>s c.
             let c = c\<lparr>cf_selfCapIp := s\<rparr> in
             Inr (if json_type_of (json_get o' ''dev'') = STRING then c
                  else (case devWithIpv4 (cs_inet_addr S) (cs_devs S) s of Some d \<Rightarrow> c\<lparr>cf_dev := d\<rparr> | None \<Rightarrow> c)))))
          (on_string (json_get o' ''ports'') set_ports))
          (on_string (json_get o' ''unPath'') (\<lambda>s c. Inr (c\<lparr>cf_selfUnPath := s\<rparr>))))
          (on_string (json_get o' ''ludp'') (set_local S)))
          (on_string (json_get o' ''taddr'') (set_target S)))
          (on_number (cs_dbl S) (json_get o' ''duration'') (\<lambda>n c. Inr (c\<lparr>cf_appKeepAliveSec := of_int n\<rparr>))))
          (on_string (json_get o' ''hash'') (\<lambda>s c. Inr (c\<lparr>cf_hashKey := s\<rparr>))))
          (on_string (json_get o' ''type'') set_type))
          (on_string (json_get o' ''cap_timeout'') (\<lambda>s c. Inr (c\<lparr>cf_cap_timeout := of_int (int_value (cs_dbl S) (JString s))\<rparr>))))
          (on_number (cs_dbl S) (json_get o' ''keepalive'') (\<lambda>n c. Inr (c\<lparr>cf_keepAliveIntervalSec := n\<rparr>)))
      else Inr c)"

definition json_fields :: "conf_sys \<Rightarrow> json \<Rightarrow> rconfig \<Rightarrow> conf_err + rconfig" where
  "json_fields S j c =
     (let daemon = json_get j ''daemon''; verbose = json_get j ''verbose''; log = json_get j ''log'';
          c = (if json_type_of daemon = NUMBER then c\<lparr>cf_isDaemon := (int_value (cs_dbl S) daemon \<noteq> 0)\<rparr> else c);
          c = (if json_type_of verbose = BOOL then c\<lparr>cf_logLevel := (if bool_value verbose then plog_verbose else plog_debug)\<rparr> else c);
          c = (if json_type_of log = STRING then c\<lparr>cf_logPath := string_value log\<rparr> else c)
      in json_param S (json_get j ''param'') c)"

text \<open>
  The second component of the result is \<open>err\<close>. Theory \<open>Json11\<close> shows that the
  parser gives a result for every text, so \<open>the\<close> is applied to a value.
\<close>

definition parseJsonString :: "conf_sys \<Rightarrow> rconfig \<Rightarrow> string \<Rightarrow> conf_err + rconfig \<times> string" where
  "parseJsonString S c content =
     (case the (json_parse (cs_dbl S) STANDARD content) of
        Inl err \<Rightarrow> Inr (c, err)
      | Inr j \<Rightarrow> (case json_fields S j c of Inl e \<Rightarrow> Inl e | Inr c \<Rightarrow> Inr (c, [])))"

text \<open>\<open>cs_file\<close> says whether a file exists and what \<open>std::ifstream\<close> reads from it.\<close>

definition parseJsonFile :: "conf_sys \<Rightarrow> rconfig \<Rightarrow> string \<Rightarrow> conf_err + rconfig \<times> string" where
  "parseJsonFile S c fName =
     (case cs_file S fName of (exists, content) \<Rightarrow>
        if \<not> exists then Inr (c, ''json file '' @ fName @ '' not exists'') else parseJsonString S c content)"

definition to_json :: "rconfig \<Rightarrow> json" where
  "to_json c = json_object
     [(''daemon'', JBool (cf_isDaemon c)), (''server'', JBool (cf_isServer c)), (''verbose'', JBool (cf_logLevel c = plog_verbose)),
      (''log'', JString (cf_logPath c)),
      (''param'', json_object
        [(''dev'', JString (cf_dev c)), (''unPath'', JString (cf_selfUnPath c)),
         (''ludp'', JString (if cf_isServer c then cf_localUdpIp c else cf_localUdpIp c @ '':'' @ to_string (unat (cf_localUdpPort c)))),
         (''lcapIp'', JString (cf_selfCapIp c)), (''ports'', JString (PortList_ToString (cf_capPorts c))),
         (''taddr'', JString (if cf_isServer c then cf_targetIp c @ '':'' @ to_string (unat (cf_targetPort c)) else cf_targetIp c)),
         (''duration'', JInt (sint (cf_appKeepAliveSec c))), (''type'', JString (strOfType (cf_type c))),
         (''hash'', JString (cf_hashKey c)), (''keepalive'', JInt (cf_keepAliveIntervalSec c)),
         (''cap_timeout'', JInt (uint (cf_cap_timeout c)))])]"

subsection \<open>Checks and the command line\<close>

definition CheckValidation :: "conf_sys \<Rightarrow> rconfig \<Rightarrow> conf_err option" where
  "CheckValidation S c =
     (let ok = (\<lambda>ip. ip \<noteq> [] \<and> ValidIp4 (cs_inet_pton S) ip) in
      if cf_dev c = [] then Some ArgsError
      else if \<not> cf_isServer c \<and> \<not> ok (cf_localUdpIp c) then Some ConfAssert
      else if \<not> cf_isServer c \<and> cf_localUdpPort c = 0 then Some ConfAssert
      else if \<not> ok (cf_selfCapIp c) \<or> \<not> ok (cf_targetIp c) then Some ConfAssert
      else if port_list_empty (cf_capPorts c) then Some ConfAssert
      else if cf_selfCapInt c = 0 \<or> cf_targetCapInt c = 0 \<or> EmptyIdBuf (cf_id c) then Some ConfAssert
      else if cf_type c \<notin> {OM_PIPE_TCP, OM_PIPE_UDP, OM_PIPE_ALL} then Some ConfAssert
      else if \<not> (0 < cf_cap_timeout c \<and> cf_cap_timeout c < 50) then Some ConfAssert
      else if \<not> 0 < cf_keepAliveIntervalSec c then Some ConfAssert
      else if \<not> DevIpMatch (cs_inet_addr S) (cs_devs S) (cf_dev c) (cf_selfCapIp c) then Some ArgsError
      else if cf_appKeepAliveSec c < 10 \<or> cf_appKeepAliveSec c > 6000 then Some ArgsError
      else None)"

text \<open>What args.hxx has found on the command line.\<close>

record cmd_line =
  cl_json :: "string option"
  cl_targetAddr :: "string option"
  cl_dev :: "string option"
  cl_selfCapIp :: "string option"
  cl_capPorts :: "string option"
  cl_localUdp :: "string option"
  cl_duration :: "u32 option"
  cl_key :: "string option"
  cl_type :: "string option"
  cl_verbose :: bool
  cl_flog :: "string option"
  cl_cap_timeout :: "u16 option"
  cl_daemon :: "int option"
  cl_keepAlive :: "int option"

definition on_flag :: "'a option \<Rightarrow> ('a \<Rightarrow> rconfig \<Rightarrow> conf_err + rconfig) \<Rightarrow> rconfig \<Rightarrow> conf_err + rconfig" where
  "on_flag v f c = (case v of Some x \<Rightarrow> f x c | None \<Rightarrow> Inr c)"

definition parse_flags :: "conf_sys \<Rightarrow> cmd_line \<Rightarrow> rconfig \<Rightarrow> conf_err + rconfig" where
  "parse_flags S a c =
     andThen (andThen (andThen (andThen (andThen (andThen (andThen (andThen (andThen (andThen (andThen (andThen
       (case cl_targetAddr a of
          None \<Rightarrow> Inl ArgsError
        | Some t \<Rightarrow> andThen (set_target S t c) (\<lambda>c. if ValidIp4 (cs_inet_pton S) (cf_targetIp c) then Inr c else Inl ArgsError))
       (\<lambda>c. case cl_dev a of
          Some d \<Rightarrow> Inr (c\<lparr>cf_dev := d\<rparr>)
        | None \<Rightarrow>
            if cl_selfCapIp a = None then
              (case GetWanInfo (cs_route_open S) (cs_inet_addr S) (cs_route_get S) (cs_devs S) (cs_targets S) of (nret, dev, ip) \<Rightarrow> if nret \<noteq> 0 \<or> dev = [] then Inl ArgsError else Inr (c\<lparr>cf_dev := dev, cf_selfCapIp := ip\<rparr>))
            else Inr c))
       (on_flag (cl_selfCapIp a) (\<lambda>ip c. let c = c\<lparr>cf_selfCapIp := ip\<rparr> in
          Inr (case devWithIpv4 (cs_inet_addr S) (cs_devs S) ip of Some d \<Rightarrow> c\<lparr>cf_dev := d\<rparr> | None \<Rightarrow> c))))
       (on_flag (cl_capPorts a) set_ports))
       (\<lambda>c. case cl_localUdp a of Some s \<Rightarrow> set_local S s c | None \<Rightarrow> if \<not> cf_isServer c then Inl ArgsError else Inr c))
       (on_flag (cl_duration a) (\<lambda>d c. Inr (c\<lparr>cf_appKeepAliveSec := d\<rparr>))))
       (on_flag (cl_key a) (\<lambda>k c. Inr (c\<lparr>cf_hashKey := k\<rparr>))))
       (on_flag (cl_type a) set_type))
       (\<lambda>c. Inr (if cl_verbose a then c\<lparr>cf_logLevel := plog_verbose\<rparr> else c)))
       (on_flag (cl_flog a) (\<lambda>p c. Inr (c\<lparr>cf_logPath := p\<rparr>))))
       (on_flag (cl_cap_timeout a) (\<lambda>t c. Inr (c\<lparr>cf_cap_timeout := t\<rparr>))))
       (on_flag (cl_daemon a) (\<lambda>d c. Inr (c\<lparr>cf_isDaemon := (d \<noteq> 0)\<rparr>))))
       (on_flag (cl_keepAlive a) (\<lambda>k c. if k \<le> 0 then Inl ArgsError else Inr (c\<lparr>cf_keepAliveIntervalSec := k\<rparr>)))"

text \<open>
  \<open>Parse\<close> returns 0 with the configuration, or 1 after an \<open>args::Error\<close> or when \<open>ParseCLI\<close> has asked
  for the help text; the configuration is not used after that and is left out. \<open>cl_json\<close> is the
  name of the configuration file; \<open>None\<close> in place of the command line is a throw of \<open>ParseCLI\<close>.
\<close>

definition Parse_step :: "conf_sys \<Rightarrow> bool \<Rightarrow> cmd_line \<Rightarrow> rconfig \<Rightarrow> conf_err + rconfig" where
  "Parse_step S is_server a c =
     (let c = c\<lparr>cf_isServer := is_server\<rparr> in
      andThen (andThen
        (case cl_json a of
           Some f \<Rightarrow> (case parseJsonFile S c f of Inl e \<Rightarrow> Inl e | Inr (c, err) \<Rightarrow> if err \<noteq> [] then Inl ArgsError else Inr c)
         | None \<Rightarrow> parse_flags S a c)
        (\<lambda>c. if cf_selfCapIp c = [] then
               (case ipv4OfDev (cs_devs S) (cs_devs_err S) (cf_dev c) of None \<Rightarrow> Inl ArgsError | Some ip \<Rightarrow> Inr (c\<lparr>cf_selfCapIp := ip\<rparr>))
             else Inr c))
        (\<lambda>c. let c = c\<lparr>cf_selfCapInt := cs_inet_addr S (cf_selfCapIp c), cf_targetCapInt := cs_inet_addr S (cf_targetIp c), cf_id := cs_id S (cf_hashKey c)\<rparr>
             in case CheckValidation S c of Some e \<Rightarrow> Inl e | None \<Rightarrow> Inr (c\<lparr>cf_mInited := True\<rparr>)))"

definition Parse :: "conf_sys \<Rightarrow> bool \<Rightarrow> cmd_line option \<Rightarrow> rconfig \<Rightarrow> (conf_err + int \<times> rconfig option)" where
  "Parse S is_server a c =
     (case a of
        None \<Rightarrow> Inr (1, None)
      | Some a \<Rightarrow>
          (case Parse_step S is_server a c of
             Inr c \<Rightarrow> Inr (0, Some c)
           | Inl ArgsError \<Rightarrow> Inr (1, None)
           | Inl e \<Rightarrow> Inl e))"

subsection \<open>Addresses\<close>

lemma find_colon_append: "CHR '':'' \<notin> set ip \<Longrightarrow> find_colon (ip @ CHR '':'' # s) = Some (length ip)"
  by (induction ip) (auto simp: find_colon_def)

lemma find_colon_none: "CHR '':'' \<notin> set ip \<Longrightarrow> find_colon ip = None"
  by (simp add: find_colon_def)

lemma parseAddr_port:
  assumes "CHR '':'' \<notin> set ip" "ValidIp4 pton ip"
  shows "parseAddr pton (ip @ '':'' @ to_string n) p True
    = (if n \<le> INT_MAX then Inr ((of_nat n :: u16) \<noteq> 0, ip, of_nat n) else Inl StdException)"
proof -
  have "0 < length (to_string n)" by simp
  moreover have "list_all is_digit (to_string n)" by (auto simp: list_all_iff dest: to_string_digits)
  moreover have "stoi (to_string n) = (if n \<le> INT_MAX then Some n else None)"
    by (auto simp: stoi_to_string) (simp add: stoi_def takeWhile_to_string)
  ultimately show ?thesis using assms find_colon_append [OF assms(1), of "to_string n"] by (simp add: parseAddr_def Let_def)
qed

lemma parseAddr_plain:
  assumes "CHR '':'' \<notin> set ip" "ValidIp4 pton ip"
  shows "parseAddr pton ip p False = Inr (True, ip, p)"
  using assms by (simp add: parseAddr_def find_colon_none)

text \<open>
  C30: An address with a port is read as it is written as long as the port fits 16 bits; a
  larger number is cut to 16 bits and accepted unless it becomes 0, and one that does not fit
  an \<open>int\<close> ends the program with an exception nobody catches.
\<close>
theorem parse_addr_port_wraps:
  assumes "CHR '':'' \<notin> set ip" "ValidIp4 pton ip"
  shows "parseAddr pton (ip @ '':'' @ to_string n) p True
    = (if n \<le> INT_MAX then Inr (n mod 65536 \<noteq> 0, ip, of_nat (n mod 65536)) else Inl StdException)
    \<and> (n < 65536 \<longrightarrow> unat (of_nat (n mod 65536) :: u16) = n)"
proof -
  have z: "(of_nat m :: u16) = 0 \<longleftrightarrow> m mod 65536 = 0" for m
  proof -
    have "(of_nat m :: u16) = 0 \<longleftrightarrow> unat (of_nat m :: u16) = 0" by (simp add: unat_eq_0)
    then show ?thesis by (simp add: unat_of_nat)
  qed
  have "(of_nat (n mod 65536) :: u16) = of_nat n"
    by (simp add: word_unat_eq_iff unat_of_nat)
  then show ?thesis using parseAddr_port [OF assms, of n p] z [of n] by (simp add: unat_of_nat)
qed

theorem parse_addr_port_wraps_witness:
  "parseAddr (\<lambda>_. 1) ''127.0.0.1:8388'' 0 True = Inr (True, ''127.0.0.1'', 8388)
   \<and> parseAddr (\<lambda>_. 1) ''127.0.0.1:65616'' 0 True = Inr (True, ''127.0.0.1'', 80)
   \<and> parseAddr (\<lambda>_. 1) ''127.0.0.1:99999999999'' 0 True = Inl StdException"
proof -
  have d: "digit_char 1 = CHR ''1''" "digit_char 3 = CHR ''3''" "digit_char 5 = CHR ''5''" "digit_char 6 = CHR ''6''" "digit_char 8 = CHR ''8''" "digit_char 9 = CHR ''9''"
    by code_simp+
  then have s: "to_string 8388 = ''8388''" "to_string 65616 = ''65616''" "to_string 99999999999 = ''99999999999''"
    by (simp_all add: to_string.simps)
  show ?thesis
    using parse_addr_port_wraps [of "''127.0.0.1''" "\<lambda>_. 1" 8388 0] parse_addr_port_wraps [of "''127.0.0.1''" "\<lambda>_. 1" 65616 0]
      parse_addr_port_wraps [of "''127.0.0.1''" "\<lambda>_. 1" 99999999999 0]
    by (simp add: s ValidIp4_def INT_MAX_def)
qed

subsection \<open>Dumping and reading back\<close>

definition dumpable :: "conf_sys \<Rightarrow> rconfig \<Rightarrow> bool" where
  "dumpable S c \<longleftrightarrow> short_int (sint (cf_appKeepAliveSec c)) \<and> short_int (cf_keepAliveIntervalSec c) \<and> CHR '':'' \<notin> set (cf_localUdpIp c) \<and> CHR '':'' \<notin> set (cf_targetIp c) \<and> ValidIp4 (cs_inet_pton S) (cf_localUdpIp c)
     \<and> ValidIp4 (cs_inet_pton S) (cf_targetIp c) \<and> printable (cf_capPorts c) \<and> cf_type c \<in> {OM_PIPE_TCP, OM_PIPE_UDP, OM_PIPE_ALL}
     \<and> cf_logLevel c \<in> {plog_debug, plog_verbose} \<and> (if cf_isServer c then cf_targetPort c \<noteq> 0 else cf_localUdpPort c \<noteq> 0)"

lemma port_back:
  fixes p :: u16
  assumes "CHR '':'' \<notin> set ip" "ValidIp4 pton ip" "p \<noteq> 0"
  shows "parseAddr pton (ip @ '':'' @ to_string (unat p)) q True = Inr (True, ip, p)"
proof -
  have "unat p \<le> INT_MAX" using unat_u16_less [of p] by (simp add: INT_MAX_def)
  then show ?thesis using parseAddr_port [OF assms(1,2), of "unat p" q] assms(3) by simp
qed

lemma type_back: "t \<in> {OM_PIPE_TCP, OM_PIPE_UDP, OM_PIPE_ALL} \<Longrightarrow> set_type (strOfType t) c = Inr (c\<lparr>cf_type := t\<rparr>)"
  by (elim insertE; simp add: set_type_def strOfType_def typeOfStr_def OM_PIPE_TCP_def OM_PIPE_UDP_def OM_PIPE_ALL_def)

lemma local_back:
  assumes "dumpable S c" "cf_isServer c0 = cf_isServer c"
  shows "\<exists>port. set_local S (if cf_isServer c then cf_localUdpIp c else cf_localUdpIp c @ '':'' @ to_string (unat (cf_localUdpPort c))) c0
      = Inr (c0\<lparr>cf_localUdpIp := cf_localUdpIp c, cf_localUdpPort := port\<rparr>) \<and> (\<not> cf_isServer c \<longrightarrow> port = cf_localUdpPort c)"
proof -
  have ip: "CHR '':'' \<notin> set (cf_localUdpIp c)" "ValidIp4 (cs_inet_pton S) (cf_localUdpIp c)" and p: "\<not> cf_isServer c \<Longrightarrow> cf_localUdpPort c \<noteq> 0"
    using assms(1) by (simp_all add: dumpable_def)
  show ?thesis using port_back [OF ip p, of "cf_localUdpPort c0"] parseAddr_plain [OF ip, of "cf_localUdpPort c0"] assms(2)
    by (intro exI [of _ "if cf_isServer c then cf_localUdpPort c0 else cf_localUdpPort c"]) (simp add: set_local_def)
qed

lemma target_back:
  assumes "dumpable S c" "cf_isServer c0 = cf_isServer c"
  shows "\<exists>port. set_target S (if cf_isServer c then cf_targetIp c @ '':'' @ to_string (unat (cf_targetPort c)) else cf_targetIp c) c0
      = Inr (c0\<lparr>cf_targetIp := cf_targetIp c, cf_targetPort := port\<rparr>) \<and> (cf_isServer c \<longrightarrow> port = cf_targetPort c)"
proof -
  have ip: "CHR '':'' \<notin> set (cf_targetIp c)" "ValidIp4 (cs_inet_pton S) (cf_targetIp c)" and p: "cf_isServer c \<Longrightarrow> cf_targetPort c \<noteq> 0"
    using assms(1) by (simp_all add: dumpable_def)
  show ?thesis using port_back [OF ip p, of "cf_targetPort c0"] parseAddr_plain [OF ip, of "cf_targetPort c0"] assms(2)
    by (intro exI [of _ "if cf_isServer c then cf_targetPort c else cf_targetPort c0"]) (simp add: set_target_def)
qed

lemma to_json_parsed:
  assumes "dumpable S c"
  shows "json_parse D st (json_dump D (to_json c)) = Some (Inr (to_json c))"
proof (rule parse_of_dump)
  have "- (10 ^ 8) < uint (cf_cap_timeout c)" by (rule less_le_trans [OF _ uint_nonnegative]) simp
  then have "short_int (uint (cf_cap_timeout c))" using uint_bounded [of "cf_cap_timeout c"] by (simp add: short_int_def)
  then show "json_ok 0 (to_json c)" using assms by (simp add: to_json_def json_ok_object dumpable_def max_depth_def)
  show "no_double (to_json c)" by (simp add: to_json_def no_double_object)
qed

text \<open>
  C29: A configuration that is printed as the text of a JSON file and read back is the same one, for the client and for
  the server, with two exceptions: \<open>daemon\<close> is written as a boolean and read only as a number,
  and \<open>cap_timeout\<close> is written as a number and read only from a string, so both keep the
  value they had before.
\<close>
theorem config_json_roundtrip:
  assumes c: "dumpable S c" and c0: "cf_isServer c0 = cf_isServer c"
  shows "\<exists>c'. parseJsonString S c0 (json_dump (cs_dbl S) (to_json c)) = Inr (c', [])
    \<and> (cf_logLevel c', cf_logPath c', cf_isServer c') = (cf_logLevel c, cf_logPath c, cf_isServer c)
    \<and> (cf_dev c', cf_selfUnPath c', cf_selfCapIp c', cf_localUdpIp c', cf_targetIp c') = (cf_dev c, cf_selfUnPath c, cf_selfCapIp c, cf_localUdpIp c, cf_targetIp c)
    \<and> (if cf_isServer c then cf_targetPort c' = cf_targetPort c else cf_localUdpPort c' = cf_localUdpPort c)
    \<and> mSingleOnes (cf_capPorts c') = mSingleOnes (cf_capPorts c) \<and> mValentines (cf_capPorts c') = mValentines (cf_capPorts c)
    \<and> (cf_appKeepAliveSec c', cf_hashKey c', cf_type c', cf_keepAliveIntervalSec c') = (cf_appKeepAliveSec c, cf_hashKey c, cf_type c, cf_keepAliveIntervalSec c)
    \<and> (cf_isDaemon c', cf_cap_timeout c') = (cf_isDaemon c0, cf_cap_timeout c0)"
proof -
  define c1 where "c1 = c0\<lparr>cf_logLevel := cf_logLevel c, cf_logPath := cf_logPath c, cf_dev := cf_dev c, cf_selfCapIp := cf_selfCapIp c\<rparr>"
  obtain l where l: "PortList_FromString (cf_capPorts c0) (PortList_ToString (cf_capPorts c)) = Some (True, l)"
    "mSingleOnes l = mSingleOnes (cf_capPorts c)" "mValentines l = mValentines (cf_capPorts c)"
    using from_to_string [of "cf_capPorts c" "cf_capPorts c0"] c by (auto simp: dumpable_def)
  define c2 where "c2 = c1\<lparr>cf_capPorts := l, cf_selfUnPath := cf_selfUnPath c\<rparr>"
  have c2s: "cf_isServer c2 = cf_isServer c" using c0 by (simp add: c2_def c1_def)
  obtain p1 where p1: "set_local S (if cf_isServer c then cf_localUdpIp c else cf_localUdpIp c @ '':'' @ to_string (unat (cf_localUdpPort c))) c2
      = Inr (c2\<lparr>cf_localUdpIp := cf_localUdpIp c, cf_localUdpPort := p1\<rparr>)" "\<not> cf_isServer c \<longrightarrow> p1 = cf_localUdpPort c"
    using local_back [OF c c2s] by blast
  define c3 where "c3 = c2\<lparr>cf_localUdpIp := cf_localUdpIp c, cf_localUdpPort := p1\<rparr>"
  have c3s: "cf_isServer c3 = cf_isServer c" using c2s by (simp add: c3_def)
  obtain p2 where p2: "set_target S (if cf_isServer c then cf_targetIp c @ '':'' @ to_string (unat (cf_targetPort c)) else cf_targetIp c) c3
      = Inr (c3\<lparr>cf_targetIp := cf_targetIp c, cf_targetPort := p2\<rparr>)" "cf_isServer c \<longrightarrow> p2 = cf_targetPort c"
    using target_back [OF c c3s] by blast
  define c4 where "c4 = c3\<lparr>cf_targetIp := cf_targetIp c, cf_targetPort := p2, cf_appKeepAliveSec := cf_appKeepAliveSec c, cf_hashKey := cf_hashKey c\<rparr>"
  have ty: "set_type (strOfType (cf_type c)) c4 = Inr (c4\<lparr>cf_type := cf_type c\<rparr>)" using c by (intro type_back) (simp add: dumpable_def)
  have ports: "set_ports (PortList_ToString (cf_capPorts c)) c1 = Inr (c1\<lparr>cf_capPorts := l\<rparr>)" using l(1) by (simp add: set_ports_def c1_def)
  have lv: "(if cf_logLevel c = plog_verbose then plog_verbose else plog_debug) = cf_logLevel c" using c by (auto simp: dumpable_def)
  have "json_fields S (to_json c) c0 = Inr (c4\<lparr>cf_type := cf_type c, cf_keepAliveIntervalSec := cf_keepAliveIntervalSec c\<rparr>)"
    using ports p1(1) p2(1) ty lv
    by (simp add: to_json_def json_fields_def json_param_def andThen_def c1_def [symmetric] c2_def [symmetric] c3_def [symmetric])
       (simp add: c1_def c2_def c3_def c4_def)
  then have "parseJsonString S c0 (json_dump (cs_dbl S) (to_json c)) = Inr (c4\<lparr>cf_type := cf_type c, cf_keepAliveIntervalSec := cf_keepAliveIntervalSec c\<rparr>, [])"
    by (simp add: parseJsonString_def to_json_parsed [OF c])
  then show ?thesis using l(2,3) p1(2) p2(2) c0
    by (intro exI [of _ "c4\<lparr>cf_type := cf_type c, cf_keepAliveIntervalSec := cf_keepAliveIntervalSec c\<rparr>"]) (simp add: c1_def c2_def c3_def c4_def)
qed

theorem config_json_roundtrip_witness:
  "\<exists>S c c'. c = (new_rconfig ''/var/log/rsock'')\<lparr>cf_localUdpIp := ''127.0.0.1'', cf_localUdpPort := 30000, cf_targetIp := ''8.8.8.8'', cf_cap_timeout := 20\<rparr>
     \<and> dumpable S c \<and> parseJsonString S (new_rconfig []) (json_dump (cs_dbl S) (to_json c)) = Inr (c', [])
     \<and> (cf_localUdpIp c', cf_localUdpPort c', cf_targetIp c') = (''127.0.0.1'', 30000, ''8.8.8.8'') \<and> cf_cap_timeout c' = OM_PCAP_TIMEOUT"
proof -
  define S where "S = \<lparr>cs_inet_pton = \<lambda>_. 1, cs_inet_addr = \<lambda>_. 1, cs_devs = (0, []), cs_devs_err = [], cs_route_open = True,
    cs_route_get = \<lambda>_. (-1, undefined), cs_targets = [], cs_id = \<lambda>_. [], cs_dbl = sample_dbl, cs_file = \<lambda>_. (False, [])\<rparr>"
  define c where "c = (new_rconfig ''/var/log/rsock'')\<lparr>cf_localUdpIp := ''127.0.0.1'', cf_localUdpPort := 30000, cf_targetIp := ''8.8.8.8'', cf_cap_timeout := 20\<rparr>"
  have "printable (cf_capPorts c)" by (simp add: c_def new_rconfig_def) code_simp
  then have d: "dumpable S c" by (simp add: dumpable_def S_def c_def new_rconfig_def ValidIp4_def short_int_def)
  have s: "cf_isServer (new_rconfig []) = cf_isServer c" by (simp add: c_def new_rconfig_def)
  obtain c' where "parseJsonString S (new_rconfig []) (json_dump (cs_dbl S) (to_json c)) = Inr (c', [])"
    "(cf_localUdpIp c', cf_localUdpPort c', cf_targetIp c') = (''127.0.0.1'', 30000, ''8.8.8.8'')" "cf_cap_timeout c' = OM_PCAP_TIMEOUT"
    using config_json_roundtrip [OF d s] by (elim exE conjE) (simp add: c_def new_rconfig_def)
  then show ?thesis using d c_def by (intro exI [of _ S] exI [of _ c] exI [of _ c']) simp
qed

subsection \<open>What a successful start relies on\<close>

definition keeps :: "(rconfig \<Rightarrow> bool) \<Rightarrow> (rconfig \<Rightarrow> conf_err + rconfig) \<Rightarrow> bool" where
  "keeps P f \<longleftrightarrow> (\<forall>c c'. P c \<longrightarrow> f c = Inr c' \<longrightarrow> P c')"

lemma keepsI: "(\<And>c c'. P c \<Longrightarrow> f c = Inr c' \<Longrightarrow> P c') \<Longrightarrow> keeps P f"
  by (simp add: keeps_def)

lemma keepsD: "keeps P f \<Longrightarrow> f c = Inr c' \<Longrightarrow> P c \<Longrightarrow> P c'"
  unfolding keeps_def by blast

lemma andThen_Inr: "andThen r g = Inr c' \<longleftrightarrow> (\<exists>c. r = Inr c \<and> g c = Inr c')"
  by (cases r) (simp_all add: andThen_def)

lemma keeps_andThen: "keeps P f \<Longrightarrow> keeps P g \<Longrightarrow> keeps P (\<lambda>c. andThen (f c) g)"
  by (rule keepsI) (unfold andThen_Inr, elim exE conjE, blast intro: keepsD)

lemma keeps_Inr: "(\<And>c. P c \<Longrightarrow> P (f c)) \<Longrightarrow> keeps P (\<lambda>c. Inr (f c))"
  by (simp add: keeps_def)

lemma keeps_on_string: "(\<And>s. keeps P (f s)) \<Longrightarrow> keeps P (on_string j f)"
  by (cases j) (simp_all add: on_string_def [abs_def] keeps_Inr)

lemma keeps_on_number: "(\<And>n. keeps P (f n)) \<Longrightarrow> keeps P (on_number D j f)"
  by (cases j) (simp_all add: on_number_def [abs_def] keeps_Inr)

lemma keeps_on_flag: "(\<And>x. keeps P (f x)) \<Longrightarrow> keeps P (on_flag v f)"
  by (cases v) (simp_all add: on_flag_def [abs_def] keeps_Inr)

text \<open>The side is fixed, and on the server a target address comes with a port.\<close>

definition target_ok :: "bool \<Rightarrow> rconfig \<Rightarrow> bool" where
  "target_ok srv c \<longleftrightarrow> cf_isServer c = srv \<and> (srv \<and> cf_targetIp c \<noteq> [] \<longrightarrow> cf_targetPort c \<noteq> 0)"

lemma parseAddr_port_nonzero: "parseAddr pton s p True = Inr (True, ip, q) \<Longrightarrow> q \<noteq> 0"
  by (auto simp: parseAddr_def Let_def split: option.splits if_splits)

lemma keeps_set_target: "keeps (target_ok srv) (set_target S s)"
  unfolding keeps_def
proof (intro allI impI)
  fix c c' assume c: "target_ok srv c" and s: "set_target S s c = Inr c'"
  then obtain ip q where a: "parseAddr (cs_inet_pton S) s (cf_targetPort c) (cf_isServer c) = Inr (True, ip, q)"
    "c' = c\<lparr>cf_targetIp := ip, cf_targetPort := q\<rparr>"
    by (auto simp: set_target_def split: sum.splits if_splits)
  show "target_ok srv c'"
    using parseAddr_port_nonzero [of "cs_inet_pton S" s "cf_targetPort c" ip q] a c by (auto simp: target_ok_def)
qed

lemma keeps_simple:
  "keeps (target_ok srv) (set_ports s)" "keeps (target_ok srv) (set_local S s)" "keeps (target_ok srv) (set_type s)"
  by (auto simp: keeps_def target_ok_def set_ports_def set_local_def set_type_def Let_def split: sum.splits option.splits if_splits)

lemmas keeps_intros = keeps_andThen keeps_on_string keeps_on_number keeps_on_flag keeps_set_target keeps_simple

lemma keeps_json_param: "keeps (target_ok srv) (json_param S j)"
proof (cases "json_type_of j = OBJECT")
  case True
  then have o: "(json_type_of j = OBJECT) = True" by simp
  show ?thesis unfolding json_param_def o if_True
    by (intro keeps_intros) (auto simp: keeps_def target_ok_def Let_def split: option.splits)
qed (simp add: keeps_def json_param_def)

lemma keeps_parse_flags: "keeps (target_ok srv) (parse_flags S a)"
  unfolding parse_flags_def
proof (intro keeps_intros)
  show "keeps (target_ok srv) (\<lambda>c. case cl_targetAddr a of None \<Rightarrow> Inl ArgsError
      | Some t \<Rightarrow> andThen (set_target S t c) (\<lambda>c. if ValidIp4 (cs_inet_pton S) (cf_targetIp c) then Inr c else Inl ArgsError))"
  proof (cases "cl_targetAddr a")
    case (Some t)
    show ?thesis unfolding Some option.case by (intro keeps_intros) (simp add: keeps_def)
  qed (simp add: keeps_def)
  show "keeps (target_ok srv) (\<lambda>c. case cl_localUdp a of Some s \<Rightarrow> set_local S s c | None \<Rightarrow> if \<not> cf_isServer c then Inl ArgsError else Inr c)"
    using keeps_simple(2) [of srv S] by (cases "cl_localUdp a") (simp_all add: keeps_def)
qed (auto simp: keeps_def target_ok_def Let_def split: option.splits prod.splits if_splits)

lemma devWithIpv4_some:
  "devWithIpv4 f (r, ds) ip = Some n \<Longrightarrow> \<exists>d\<in>set ds. cd_name d = n \<and> (\<exists>a\<in>set (cd_addresses d). ca_inet a \<and> ca_addr a = f ip)"
  by (auto simp: devWithIpv4_def list_ex_iff find_Some_iff in_set_conv_nth split: if_splits) (metis nth_mem)

lemma target_ok_mono:
  "cf_isServer c' = cf_isServer c \<Longrightarrow> cf_targetIp c' = cf_targetIp c \<Longrightarrow> cf_targetPort c' = cf_targetPort c \<Longrightarrow> target_ok srv c \<Longrightarrow> target_ok srv c'"
  by (simp add: target_ok_def)

lemma keeps_json_fields: "keeps (target_ok srv) (json_fields S j)"
  unfolding keeps_def json_fields_def Let_def
  by (intro allI impI) (erule keepsD [OF keeps_json_param], simp add: target_ok_def)

lemma keeps_parseJsonFile:
  assumes "target_ok srv c" "parseJsonFile S c f = Inr (c', err)"
  shows "target_ok srv c'"
  using assms keepsD [OF keeps_json_fields _ assms(1)]
  by (auto simp: parseJsonFile_def parseJsonString_def split: prod.splits if_splits sum.splits)

lemma keeps_Parse_source:
  assumes "target_ok srv c"
    and "(case cl_json a of
           Some f \<Rightarrow> (case parseJsonFile S c f of Inl e \<Rightarrow> Inl e | Inr (c, err) \<Rightarrow> if err \<noteq> [] then Inl ArgsError else Inr c)
         | None \<Rightarrow> parse_flags S a c) = Inr c'"
  shows "target_ok srv c'"
proof (cases "cl_json a")
  case None
  then show ?thesis using assms(2) keepsD [OF keeps_parse_flags _ assms(1)] by simp
next
  case (Some p)
  then have "\<exists>err. parseJsonFile S c p = Inr (c', err)" using assms(2) by (simp split: if_splits sum.splits prod.splits)
  then show ?thesis using keeps_parseJsonFile [OF assms(1)] by blast
qed

definition started :: "conf_sys \<Rightarrow> bool \<Rightarrow> rconfig \<Rightarrow> bool" where
  "started S srv c \<longleftrightarrow> cf_mInited c \<and> cf_isServer c = srv
     \<and> (if srv then cf_targetPort c \<noteq> 0 else cf_localUdpIp c \<noteq> [] \<and> cf_localUdpPort c \<noteq> 0)
     \<and> cf_targetIp c \<noteq> [] \<and> cf_targetCapInt c = cs_inet_addr S (cf_targetIp c) \<and> cf_targetCapInt c \<noteq> 0
     \<and> cf_selfCapInt c = cs_inet_addr S (cf_selfCapIp c) \<and> cf_selfCapInt c \<noteq> 0
     \<and> (\<exists>d\<in>set (snd (cs_devs S)). cd_name d = cf_dev c \<and> (\<exists>a\<in>set (cd_addresses d). ca_inet a \<and> ca_addr a = cf_selfCapInt c))
     \<and> \<not> port_list_empty (cf_capPorts c) \<and> \<not> EmptyIdBuf (cf_id c) \<and> cf_type c \<in> {OM_PIPE_TCP, OM_PIPE_UDP, OM_PIPE_ALL}
     \<and> 0 < cf_cap_timeout c \<and> cf_cap_timeout c < 50 \<and> 0 < cf_keepAliveIntervalSec c
     \<and> 10 \<le> cf_appKeepAliveSec c \<and> cf_appKeepAliveSec c \<le> 6000"

lemma CheckValidation_sound:
  assumes "CheckValidation S c = None" "target_ok srv c" "cf_mInited c"
    and "cf_selfCapInt c = cs_inet_addr S (cf_selfCapIp c)" "cf_targetCapInt c = cs_inet_addr S (cf_targetIp c)"
  shows "started S srv c"
proof -
  have v: "DevIpMatch (cs_inet_addr S) (cs_devs S) (cf_dev c) (cf_selfCapIp c)" "cf_targetIp c \<noteq> []"
      "0 < cf_cap_timeout c \<and> cf_cap_timeout c < 50"
    using assms(1) by (simp_all add: CheckValidation_def Let_def split: if_splits)
  obtain r ds where ds: "cs_devs S = (r, ds)" by fastforce
  have d: "\<exists>d\<in>set (snd (cs_devs S)). cd_name d = cf_dev c \<and> (\<exists>a\<in>set (cd_addresses d). ca_inet a \<and> ca_addr a = cf_selfCapInt c)"
    using devWithIpv4_some [of "cs_inet_addr S" r ds "cf_selfCapIp c" "cf_dev c"] v(1) ds assms(4) by (simp add: DevIpMatch_def)
  show ?thesis unfolding started_def using assms d v(2,3)
    by (simp add: CheckValidation_def Let_def target_ok_def not_less split: if_splits) blast
qed



end
