(* ===== verification/Capture.thy ===== *)
theory Capture
  imports Config Raw_Tcp
begin

section \<open>Packet capture (cap/cap_util.cpp, cap/RCap.cpp)\<close>

text \<open>
  The filter string for libpcap and the life cycle of the capture handle and its thread. The calls of
  libpcap are parameters (\<open>pcap_sys\<close>); the handles are numbered in the order in which
  \<open>pcap_open_live\<close> gives them out, and every call that opens, breaks, closes or joins is
  recorded in a trace. \<^const>\<open>None\<close> is a failed assertion or a use of a null handle. The
  platform has \<open>pcap_setdirection\<close> (\<open>PCAP_NO_DIRECTION\<close> is not defined).
\<close>

subsection \<open>The filter string\<close>

fun find_sub :: "string \<Rightarrow> string \<Rightarrow> nat option" where
  "find_sub pat [] = (if pat = [] then Some 0 else None)"
| "find_sub pat (x # xs) = (if take (length pat) (x # xs) = pat then Some 0 else map_option Suc (find_sub pat xs))"

definition filter_ip :: "string \<Rightarrow> bool \<Rightarrow> string" where
  "filter_ip ip src = (if ip = [] then [] else '' and '' @ (if src then '' (ip src '' else '' (ip dst '') @ ip @ '')'')"

definition filter_ports :: "port_list \<Rightarrow> bool \<Rightarrow> string option \<times> port_list" where
  "filter_ports ports src =
     (if port_list_empty ports then (Some [], ports)
      else (let (singles, ports) = GetSinglePortList ports;
                (ranges, ports) = GetPortRangeList ports;
                s = ''('' @ concat (map (\<lambda>p. (if src then '' or src port '' else '' or dst port '') @ port_str p) singles)
                  @ concat (map (\<lambda>r. (if src then '' or src portrange '' else '' or dst portrange '') @ port_str (fst r) @ ''-'' @ port_str (snd r)) ranges)
                  @ '' )''
            in case find_sub ''or'' s of
                 None \<Rightarrow> (None, ports)
               | Some pos \<Rightarrow> (Some ('' and '' @ take pos s @ drop (pos + 2) s), ports)))"

text \<open>The loop that writes \<open>src\<close> over every \<open>dst\<close>; each round removes a letter \<open>d\<close>.\<close>

lemma find_sub_Some:
  "find_sub pat s = Some p \<Longrightarrow> s = take p s @ pat @ drop (p + length pat) s"
proof (induction s arbitrary: p)
  case (Cons x xs)
  show ?case
  proof (cases "take (length pat) (x # xs) = pat")
    case True
    then have "p = 0" using Cons.prems by simp
    then show ?thesis using append_take_drop_id [of "length pat" "x # xs"] True by simp
  next
    case False
    then obtain q where "p = Suc q" "find_sub pat xs = Some q" using Cons.prems by auto
    then show ?thesis using Cons.IH [of q] by simp
  qed
qed (simp split: if_splits)

function dst_loop :: "string \<Rightarrow> string" where
  "dst_loop s = (case find_sub ''dst'' s of None \<Rightarrow> s | Some pos \<Rightarrow> dst_loop (take pos s @ ''src'' @ drop (pos + 3) s))"
  by pat_completeness auto
termination
proof (relation "measure (\<lambda>s. count_list s (CHR ''d''))")
  fix s p assume "find_sub ''dst'' s = Some p"
  then have e: "s = take p s @ ''dst'' @ drop (p + 3) s" using find_sub_Some [of "''dst''" s p] by (simp add: numeral_3_eq_3)
  have "count_list s (CHR ''d'') = count_list (take p s @ ''dst'' @ drop (p + 3) s) (CHR ''d'')"
    by (rule arg_cong [OF e])
  then show "(take p s @ ''src'' @ drop (p + 3) s, s) \<in> measure (\<lambda>s. count_list s (CHR ''d''))" by simp
qed simp

declare dst_loop.simps [simp del]

definition BuildFilterStr :: "string \<Rightarrow> string \<Rightarrow> string \<Rightarrow> port_list \<Rightarrow> port_list \<Rightarrow> bool \<Rightarrow> string \<times> port_list \<times> port_list" where
  "BuildFilterStr proto srcIp dstIp srcPorts dstPorts isServer =
     (let out = proto @ filter_ip srcIp True @ filter_ip dstIp False in
      case filter_ports srcPorts True of
        (None, sp) \<Rightarrow> ([], sp, dstPorts)
      | (Some s1, sp) \<Rightarrow>
          (case filter_ports dstPorts False of
             (None, dp) \<Rightarrow> ([], sp, dp)
           | (Some s2, dp) \<Rightarrow>
               (let out = out @ s1 @ s2 in
                (if isServer then
                   ''((tcp[tcpflags] & tcp-syn != 0) and '' @ dst_loop out @ '') or ('' @ out @ ''and (tcp[tcpflags] & (tcp-syn) == 0)'' @ '')''
                 else out, sp, dp))))"

subsection \<open>What the filter means\<close>

text \<open>
  A filter as a tree, its text, and the packets it lets through as the manual of libpcap describes the
  primitives \<open>ip src\<close>, \<open>src port\<close> and \<open>src portrange\<close>.
\<close>

datatype dirn = Src | Dst

datatype port_item = OnePort u16 | PortRange u16 u16

record cap_filter =
  fl_proto :: string
  fl_ips :: "(dirn \<times> string) list"
  fl_ports :: "(dirn \<times> port_item list) list"

record cap_pkt =
  pk_proto :: string
  pk_src :: string
  pk_dst :: string
  pk_sport :: u16
  pk_dport :: u16
  pk_syn :: bool

primrec dir_str :: "dirn \<Rightarrow> string" where
  "dir_str Src = ''src''"
| "dir_str Dst = ''dst''"

primrec render_item :: "dirn \<Rightarrow> port_item \<Rightarrow> string" where
  "render_item d (OnePort p) = '' '' @ dir_str d @ '' port '' @ port_str p"
| "render_item d (PortRange a b) = '' '' @ dir_str d @ '' portrange '' @ port_str a @ ''-'' @ port_str b"

definition render_ip :: "dirn \<times> string \<Rightarrow> string" where
  "render_ip p = '' and  (ip '' @ dir_str (fst p) @ '' '' @ snd p @ '')''"

fun render_ports :: "dirn \<times> port_item list \<Rightarrow> string" where
  "render_ports (d, []) = []"
| "render_ports (d, i # items) = '' and ( '' @ render_item d i @ concat (map (\<lambda>i. '' or'' @ render_item d i) items) @ '' )''"

definition render :: "cap_filter \<Rightarrow> string" where
  "render f = fl_proto f @ concat (map render_ip (fl_ips f)) @ concat (map render_ports (fl_ports f))"

primrec item_matches :: "u16 \<Rightarrow> port_item \<Rightarrow> bool" where
  "item_matches q (OnePort p) = (q = p)"
| "item_matches q (PortRange a b) = (a \<le> q \<and> q \<le> b)"

definition accepts :: "cap_filter \<Rightarrow> cap_pkt \<Rightarrow> bool" where
  "accepts f k \<longleftrightarrow> pk_proto k = fl_proto f
     \<and> list_all (\<lambda>(d, ip). (case d of Src \<Rightarrow> pk_src k | Dst \<Rightarrow> pk_dst k) = ip) (fl_ips f)
     \<and> list_all (\<lambda>(d, items). items = [] \<or> list_ex (item_matches (case d of Src \<Rightarrow> pk_sport k | Dst \<Rightarrow> pk_dport k)) items) (fl_ports f)"

definition items_of :: "port_list \<Rightarrow> port_item list" where
  "items_of l = map OnePort (mSingleOnes l) @ map (\<lambda>r. PortRange (fst r) (snd r)) (mValentines l)"

definition filter_of :: "string \<Rightarrow> string \<Rightarrow> string \<Rightarrow> port_list \<Rightarrow> port_list \<Rightarrow> cap_filter" where
  "filter_of proto srcIp dstIp sp dp =
     \<lparr>fl_proto = proto,
      fl_ips = (if srcIp = [] then [] else [(Src, srcIp)]) @ (if dstIp = [] then [] else [(Dst, dstIp)]),
      fl_ports = [(Src, items_of sp), (Dst, items_of dp)]\<rparr>"

definition to_src :: "cap_filter \<Rightarrow> cap_filter" where
  "to_src f = f\<lparr>fl_ips := map (\<lambda>p. (Src, snd p)) (fl_ips f), fl_ports := map (\<lambda>p. (Src, snd p)) (fl_ports f)\<rparr>"

subsection \<open>The loop is one pass\<close>

fun dst2src :: "string \<Rightarrow> string" where
  "dst2src (x # y # z # xs) = (if [x, y, z] = ''dst'' then ''src'' @ dst2src xs else x # dst2src (y # z # xs))"
| "dst2src xs = xs"

lemma dst2src_other: "take 3 (x # xs) \<noteq> ''dst'' \<Longrightarrow> dst2src (x # xs) = x # dst2src xs"
proof (cases xs)
  case (Cons y ys)
  assume "take 3 (x # xs) \<noteq> ''dst''"
  then show ?thesis using Cons by (cases ys) (auto simp: numeral_3_eq_3)
qed simp

lemma dst2src_simps [simp]:
  "x \<noteq> CHR ''d'' \<Longrightarrow> dst2src (x # xs) = x # dst2src xs"
  "y \<noteq> CHR ''s'' \<Longrightarrow> dst2src (CHR ''d'' # y # xs) = CHR ''d'' # dst2src (y # xs)"
  by (rule dst2src_other, simp add: numeral_3_eq_3)+

lemma dst2src_plain [simp]: "CHR ''d'' \<notin> set xs \<Longrightarrow> dst2src (xs @ ys) = xs @ dst2src ys"
  by (induction xs) auto

lemma dst2src_id: "find_sub ''dst'' s = None \<Longrightarrow> dst2src s = s"
  by (induction s) (auto simp: dst2src_other numeral_3_eq_3 split: if_splits)

lemma take3_cut:
  assumes "take 3 (x # xs) \<noteq> ''dst''"
  shows "take 3 (x # take q xs @ ''src'' @ zs) \<noteq> ''dst''"
proof
  assume e: "take 3 (x # take q xs @ ''src'' @ zs) = ''dst''"
  consider "q = 0" | "q = 1" | m where "q = Suc (Suc m)" by (metis One_nat_def not0_implies_Suc)
  then show False
  proof cases
    case 2
    then show False using e by (cases xs) (auto simp: numeral_3_eq_3)
  next
    case 3
    then show False using e assms by (cases xs; cases "tl xs") (auto simp: numeral_3_eq_3)
  qed (use e in \<open>auto simp: numeral_3_eq_3\<close>)
qed

lemma dst2src_step: "find_sub ''dst'' s = Some p \<Longrightarrow> dst2src (take p s @ ''src'' @ drop (p + 3) s) = dst2src s"
proof (induction s arbitrary: p)
  case (Cons x xs)
  show ?case
  proof (cases "take 3 (x # xs) = ''dst''")
    case True
    then obtain ys where "x # xs = ''dst'' @ ys" using append_take_drop_id [of 3 "x # xs"] by metis
    moreover have "p = 0" using Cons.prems True by (simp add: numeral_3_eq_3)
    ultimately show ?thesis by (simp add: numeral_3_eq_3)
  next
    case False
    then obtain q where q: "p = Suc q" "find_sub ''dst'' xs = Some q" using Cons.prems by (auto simp: numeral_3_eq_3 split: if_splits)
    have "dst2src (x # take q xs @ ''src'' @ drop (q + 3) xs) = x # dst2src xs"
      using dst2src_other [OF take3_cut [OF False]] Cons.IH [OF q(2)] by simp
    moreover have "drop (p + 3) (x # xs) = drop (q + 3) xs" by (simp only: q(1) add_Suc drop_Suc_Cons)
    ultimately show ?thesis using dst2src_other [OF False] by (simp only: q(1) take_Suc_Cons append_Cons)
  qed
qed simp

lemma dst_loop_eq: "dst_loop s = dst2src s"
proof (induction s rule: dst_loop.induct)
  case (1 s)
  show ?case
  proof (cases "find_sub ''dst'' s")
    case None
    then show ?thesis by (subst dst_loop.simps) (simp add: dst2src_id)
  next
    case (Some p)
    then show ?thesis using 1 [OF Some] dst2src_step [OF Some] by (subst dst_loop.simps) simp
  qed
qed

subsection \<open>The text is the text of the tree\<close>

lemma no_d [simp]: "CHR ''d'' \<notin> set (port_str p)"
  by (auto simp: port_str_def is_digit_def dest!: to_string_digits)

lemma dst2src_item [simp]: "dst2src (render_item d i @ ys) = render_item Src i @ dst2src ys"
  by (cases i; cases d) simp_all

lemma dst2src_items: "dst2src (concat (map (\<lambda>i. '' or'' @ render_item d i) is) @ ys) = concat (map (\<lambda>i. '' or'' @ render_item Src i) is) @ dst2src ys"
  by (induction "is") simp_all

lemma dst2src_ports [simp]: "dst2src (render_ports p @ ys) = render_ports (Src, snd p) @ dst2src ys"
proof (cases p rule: render_ports.cases)
  case (2 d i items)
  then show ?thesis using dst2src_items [of d items] by simp
qed simp

lemma dst2src_ip [simp]: "CHR ''d'' \<notin> set (snd p) \<Longrightarrow> dst2src (render_ip p @ ys) = render_ip (Src, snd p) @ dst2src ys"
  by (cases "fst p") (simp_all add: render_ip_def)

lemma dst2src_concat_ports: "dst2src (concat (map render_ports ps)) = concat (map (\<lambda>p. render_ports (Src, snd p)) ps)"
  by (induction ps) simp_all

lemma dst2src_concat_ips:
  "\<forall>p\<in>set ps. CHR ''d'' \<notin> set (snd p) \<Longrightarrow> dst2src (concat (map render_ip ps) @ ys) = concat (map (\<lambda>p. render_ip (Src, snd p)) ps) @ dst2src ys"
  by (induction ps) simp_all

lemma dst2src_render:
  assumes "CHR ''d'' \<notin> set (fl_proto f)" "\<forall>p\<in>set (fl_ips f). CHR ''d'' \<notin> set (snd p)"
  shows "dst2src (render f) = render (to_src f)"
  using assms by (simp add: render_def to_src_def dst2src_concat_ips dst2src_concat_ports comp_def)

lemma filter_ip_render: "filter_ip ip src = concat (map render_ip (if ip = [] then [] else [(if src then Src else Dst, ip)]))"
  by (simp add: filter_ip_def render_ip_def)

lemma filter_ports_render:
  "\<exists>l. filter_ports l0 src = (Some (render_ports (if src then Src else Dst, items_of l0)), l) \<and> mSingleOnes l = mSingleOnes l0 \<and> mValentines l = mValentines l0"
proof (cases "items_of l0")
  case Nil
  then show ?thesis by (simp add: filter_ports_def port_list_empty_def items_of_def)
next
  case (Cons i items)
  let ?d = "if src then Src else Dst"
  have ne: "\<not> port_list_empty l0" using Cons by (auto simp: port_list_empty_def items_of_def)
  obtain l1 l where g: "GetSinglePortList l0 = (mSingleOnes l0, l1)" "GetPortRangeList l1 = (mValentines l0, l)"
    and l: "mSingleOnes l = mSingleOnes l0" "mValentines l = mValentines l0"
    by (simp add: GetPortRangeList_def GetSinglePortList_def Let_def rebuild_def)
  define A where "A = concat (map (\<lambda>p. (if src then '' or src port '' else '' or dst port '') @ port_str p) (mSingleOnes l0))"
  define B where "B = concat (map (\<lambda>r. (if src then '' or src portrange '' else '' or dst portrange '') @ port_str (fst r) @ ''-'' @ port_str (snd r)) (mValentines l0))"
  have f: "filter_ports l0 src = (let s = ''('' @ A @ B @ '' )'' in
      case find_sub ''or'' s of None \<Rightarrow> (None, l) | Some pos \<Rightarrow> (Some ('' and '' @ take pos s @ drop (pos + 2) s), l))"
    unfolding filter_ports_def A_def B_def g(1) case_prod_conv Let_def g(2) using ne by (rule if_not_P)
  have "A @ B = concat (map (\<lambda>i. '' or'' @ render_item ?d i) (items_of l0))"
    unfolding A_def B_def by (cases src) (simp_all add: items_of_def comp_def)
  moreover define R where "R = render_item ?d i @ concat (map (\<lambda>i. '' or'' @ render_item ?d i) items) @ '' )''"
  ultimately have R: "''('' @ A @ B @ '' )'' = ''( or'' @ R" unfolding R_def append_assoc [symmetric, of A] Cons by simp
  have "filter_ports l0 src = (Some ('' and ( '' @ R), l)" unfolding f R Let_def by simp
  then show ?thesis using l unfolding R_def Cons by (intro exI [of _ l]) simp
qed

lemma BuildFilterStr_render:
  assumes "CHR ''d'' \<notin> set srcIp" "CHR ''d'' \<notin> set dstIp" "CHR ''d'' \<notin> set proto"
  shows "fst (BuildFilterStr proto srcIp dstIp sp dp srv) = (let f = filter_of proto srcIp dstIp sp dp in
    if srv then ''((tcp[tcpflags] & tcp-syn != 0) and '' @ render (to_src f) @ '') or ('' @ render f @ ''and (tcp[tcpflags] & (tcp-syn) == 0)'' @ '')''
    else render f)"
proof -
  let ?f = "filter_of proto srcIp dstIp sp dp"
  obtain sp' dp' where p: "filter_ports sp True = (Some (render_ports (Src, items_of sp)), sp')"
    "filter_ports dp False = (Some (render_ports (Dst, items_of dp)), dp')"
    using filter_ports_render [of sp True] filter_ports_render [of dp False] by auto
  have r: "(proto @ filter_ip srcIp True @ filter_ip dstIp False) @ render_ports (Src, items_of sp) @ render_ports (Dst, items_of dp) = render ?f"
    by (simp add: render_def filter_of_def filter_ip_render)
  have "dst_loop (render ?f) = render (to_src ?f)"
    unfolding dst_loop_eq by (rule dst2src_render) (use assms in \<open>simp_all add: filter_of_def\<close>)
  then show ?thesis unfolding BuildFilterStr_def Let_def p by (simp only: prod.case option.case r fst_conv)
qed

lemma item_matches_items: "list_ex (item_matches q) (items_of l) \<longleftrightarrow> q \<in> set (fst (GetRawList (l\<lparr>mValid := False\<rparr>)))"
  by (simp add: items_of_def GetRawList_def Let_def rebuild_def list_ex_iff mem_range_ports bex_Un)

definition in_list :: "port_list \<Rightarrow> u16 \<Rightarrow> bool" where
  "in_list l q \<longleftrightarrow> port_list_empty l \<or> q \<in> set (fst (GetRawList (l\<lparr>mValid := False\<rparr>)))"

lemma in_list_items: "items_of l = [] \<or> list_ex (item_matches q) (items_of l) \<longleftrightarrow> in_list l q"
  unfolding item_matches_items in_list_def by (auto simp: items_of_def port_list_empty_def)

lemma accepts_filter_of:
  "accepts (filter_of proto srcIp dstIp sp dp) k \<longleftrightarrow> pk_proto k = proto \<and> (srcIp = [] \<or> pk_src k = srcIp) \<and> (dstIp = [] \<or> pk_dst k = dstIp)
     \<and> in_list sp (pk_sport k) \<and> in_list dp (pk_dport k)"
  "accepts (to_src (filter_of proto srcIp dstIp sp dp)) k \<longleftrightarrow> pk_proto k = proto \<and> (srcIp = [] \<or> pk_src k = srcIp) \<and> (dstIp = [] \<or> pk_src k = dstIp)
     \<and> in_list sp (pk_sport k) \<and> in_list dp (pk_sport k)"
  by (auto simp: accepts_def filter_of_def to_src_def in_list_items)



subsection \<open>The capture handle and its thread\<close>

datatype cap_event = CapOpen nat | CapBreak nat | CapClose nat | CapThread nat | CapJoin

record pcap_sys =
  ps_open :: bool
  ps_lookupnet :: int
  ps_compile :: "string \<Rightarrow> int"
  ps_setfilter :: int
  ps_datalink :: int
  ps_setdirection :: int
  ps_devs :: "int \<times> cap_dev list"
  ps_devs_err :: string

record rcap =
  rc_srcIp :: string
  rc_dstIp :: string
  rc_dev :: string
  rc_cap :: "nat option"
  rc_srcPorts :: port_list
  rc_destPorts :: port_list
  rc_done :: bool
  rc_inited :: bool
  rc_handler :: "nat option"
  rc_server :: bool
  rc_thread :: bool
  rc_observer :: bool
  rc_next :: nat
  rc_trace :: "cap_event list"


definition new_rcap :: "string \<Rightarrow> string \<Rightarrow> port_list \<Rightarrow> port_list \<Rightarrow> string \<Rightarrow> bool \<Rightarrow> rcap" where
  "new_rcap dev selfIp selfPorts srcPorts srcIp server =
     \<lparr>rc_srcIp = srcIp, rc_dstIp = selfIp, rc_dev = dev, rc_cap = None, rc_srcPorts = srcPorts, rc_destPorts = selfPorts, rc_done = False,
      rc_inited = False, rc_handler = None, rc_server = server, rc_thread = False, rc_observer = False, rc_next = 0, rc_trace = []\<rparr>"

definition cap_emit :: "cap_event \<Rightarrow> rcap \<Rightarrow> rcap" where
  "cap_emit e c = c\<lparr>rc_trace := rc_trace c @ [e]\<rparr>"

definition initDevAndIp :: "pcap_sys \<Rightarrow> rcap \<Rightarrow> int \<times> rcap" where
  "initDevAndIp S c =
     (if rc_dev c = [] then (-1, c)
      else case ipv4OfDev (ps_devs S) (ps_devs_err S) (rc_dev c) of
        None \<Rightarrow> (-1, c)
      | Some ip \<Rightarrow> (0, c\<lparr>rc_dstIp := ip\<rparr>))"

text \<open>The calls of libpcap on an open handle, up to the first that fails.\<close>

definition cap_setup :: "pcap_sys \<Rightarrow> bool \<Rightarrow> string \<Rightarrow> int" where
  "cap_setup S server filterStr =
     (let nret = ps_lookupnet S in if nret = -1 then nret
      else let nret = ps_compile S filterStr in if nret = -1 then nret
      else let nret = ps_setfilter S in if nret = -1 then nret
      else let datalink = ps_datalink S;
               nret = (if datalink \<noteq> DLT_EN10MB \<and> datalink \<noteq> DLT_NULL then -1 else nret)
      in if datalink = DLT_EN10MB \<and> \<not> server then ps_setdirection S else nret)"

text \<open>A failed \<open>pcap_open_live\<close> ends in \<open>pcap_geterr\<close> with the null handle.\<close>

definition RCap_doInit :: "pcap_sys \<Rightarrow> rcap \<Rightarrow> (int \<times> rcap) option" where
  "RCap_doInit S c =
     (if rc_cap c \<noteq> None then Some (-1, c)
      else let (nret, c) = (if rc_dstIp c = [] then initDevAndIp S c else (0, c)) in
        if nret \<noteq> 0 then Some (nret, c)
        else (case BuildFilterStr ''tcp'' (rc_srcIp c) (rc_dstIp c) (rc_srcPorts c) (rc_destPorts c) (rc_server c) of
          (filterStr, sp, dp) \<Rightarrow>
            let c = c\<lparr>rc_srcPorts := sp, rc_destPorts := dp\<rparr> in
            if filterStr = [] then Some (-1, c)
            else if rc_dev c = [] then None
            else if \<not> ps_open S then None
            else let h = rc_next c; c = cap_emit (CapOpen h) (c\<lparr>rc_cap := Some h, rc_next := h + 1\<rparr>)
                 in Some (cap_setup S (rc_server c) filterStr, c)))"

definition RCap_Init :: "pcap_sys \<Rightarrow> rcap \<Rightarrow> (int \<times> rcap) option" where
  "RCap_Init S c =
     (if rc_inited c then None
      else case RCap_doInit S c of
        None \<Rightarrow> None
      | Some (nret, c) \<Rightarrow> Some (nret, c\<lparr>rc_inited := True, rc_observer := True\<rparr>))"

text \<open>\<open>Start\<close> creates the thread, which runs \<open>threadCb\<close> and \<open>Run\<close>: the loop of libpcap on the current handle.\<close>

definition RCap_Run :: "nat option \<Rightarrow> rcap \<Rightarrow> rcap option" where
  "RCap_Run handler c =
     (if \<not> rc_inited c \<or> handler = None then None
      else (case rc_cap c of None \<Rightarrow> None | Some h \<Rightarrow> Some (cap_emit (CapThread h) (c\<lparr>rc_handler := handler\<rparr>))))"

definition RCap_Start :: "nat option \<Rightarrow> rcap \<Rightarrow> rcap option" where
  "RCap_Start handler c = (if rc_thread c then None else RCap_Run handler (c\<lparr>rc_thread := True\<rparr>))"

definition joinPcapThread :: "rcap \<Rightarrow> rcap" where
  "joinPcapThread c = (if rc_thread c then cap_emit CapJoin (c\<lparr>rc_thread := False\<rparr>) else c)"

definition RCap_OnNetConnected :: "pcap_sys \<Rightarrow> string \<Rightarrow> string \<Rightarrow> rcap \<Rightarrow> rcap option" where
  "RCap_OnNetConnected S ifName ip c =
     (let c = c\<lparr>rc_dev := ifName, rc_dstIp := ip\<rparr>;
          c = (case rc_cap c of None \<Rightarrow> c
               | Some h \<Rightarrow> (cap_emit (CapClose h) (joinPcapThread (cap_emit (CapBreak h) c)))\<lparr>rc_cap := None\<rparr>)
      in case RCap_doInit S c of
           None \<Rightarrow> None
         | Some (n, c) \<Rightarrow> if n = 0 then RCap_Start (rc_handler c) c else Some c)"

definition RCap_Close :: "rcap \<Rightarrow> rcap" where
  "RCap_Close c =
     (let c = (case rc_cap c of None \<Rightarrow> c | Some h \<Rightarrow> (cap_emit (CapClose h) (cap_emit (CapBreak h) c))\<lparr>rc_cap := None\<rparr>)
      in c\<lparr>rc_observer := False, rc_handler := None, rc_done := True\<rparr>)"

definition WaitAndClose :: "rcap \<Rightarrow> rcap" where
  "WaitAndClose c = joinPcapThread (RCap_Close c)"

text \<open>\<open>HandlePkt\<close> and \<open>capHandler\<close>: a packet goes to the handler unless the capture is done.\<close>

definition HandlePkt :: "rcap \<Rightarrow> 'p \<Rightarrow> (nat \<times> 'p) option" where
  "HandlePkt c pkt = (case rc_handler c of None \<Rightarrow> None | Some f \<Rightarrow> Some (f, pkt))"

definition capHandler :: "rcap \<Rightarrow> 'p option \<Rightarrow> (rcap \<times> (nat \<times> 'p) option) option" where
  "capHandler c pkt =
     (if rc_done c then (case rc_cap c of Some h \<Rightarrow> Some (cap_emit (CapBreak h) c, None) | None \<Rightarrow> None)
      else Some (c, case pkt of None \<Rightarrow> None | Some p \<Rightarrow> HandlePkt c p))"

subsection \<open>No handle is closed while its thread runs\<close>

text \<open>
  The trace is legal when at most one handle is open, a handle is used and closed only while it is
  open, the loop starts only when no other thread runs, and no handle is closed under a running loop.
\<close>

fun cap_replay :: "nat option \<times> nat option \<Rightarrow> cap_event list \<Rightarrow> (nat option \<times> nat option) option" where
  "cap_replay (op, th) [] = Some (op, th)"
| "cap_replay (op, th) (CapOpen h # es) = (if op = None then cap_replay (Some h, th) es else None)"
| "cap_replay (op, th) (CapBreak h # es) = (if op = Some h then cap_replay (op, th) es else None)"
| "cap_replay (op, th) (CapClose h # es) = (if op = Some h \<and> th = None then cap_replay (None, th) es else None)"
| "cap_replay (op, th) (CapThread h # es) = (if op = Some h \<and> th = None then cap_replay (op, Some h) es else None)"
| "cap_replay (op, th) (CapJoin # es) = (if th = None then None else cap_replay (op, None) es)"

lemma cap_replay_append: "cap_replay s (xs @ ys) = Option.bind (cap_replay s xs) (\<lambda>s. cap_replay s ys)"
  by (induction s xs rule: cap_replay.induct) simp_all

definition cap_thread :: "rcap \<Rightarrow> nat option" where
  "cap_thread c = (if rc_thread c then rc_cap c else None)"

definition cap_wf :: "rcap \<Rightarrow> bool" where
  "cap_wf c \<longleftrightarrow> (rc_thread c \<longrightarrow> rc_cap c \<noteq> None) \<and> cap_replay (None, None) (rc_trace c) = Some (rc_cap c, cap_thread c)"

lemma doInit_cases:
  assumes "RCap_doInit S c = Some (n, c')" "cap_wf c"
  shows "cap_wf c' \<and> rc_thread c' = rc_thread c \<and> rc_handler c' = rc_handler c \<and> rc_inited c' = rc_inited c \<and> (n = 0 \<longrightarrow> rc_cap c' \<noteq> None)"
  using assms
  by (auto simp: RCap_doInit_def Let_def initDevAndIp_def cap_wf_def cap_thread_def cap_emit_def cap_replay_append
    split: if_splits option.splits prod.splits)

lemma filter_nonempty: "fst (BuildFilterStr ''tcp'' srcIp dstIp sp dp srv) \<noteq> []"
proof -
  obtain s1 sp' s2 dp' where "filter_ports sp True = (Some s1, sp')" "filter_ports dp False = (Some s2, dp')"
    using filter_ports_render [of sp True] filter_ports_render [of dp False] by blast
  then show ?thesis by (simp add: BuildFilterStr_def Let_def)
qed

lemma doInit_total:
  assumes "rc_dev c \<noteq> []" "ps_open S"
  shows "\<exists>n c'. RCap_doInit S c = Some (n, c')"
  using assms by (auto simp: RCap_doInit_def Let_def initDevAndIp_def split: prod.splits option.splits)

lemma OnNetConnected_safe:
  assumes c: "cap_wf c" "rc_inited c" "rc_handler c \<noteq> None" and up: "ifName \<noteq> []" "ps_open S"
  shows "\<exists>c'. RCap_OnNetConnected S ifName ip c = Some c' \<and> cap_wf c' \<and> rc_inited c' \<and> rc_handler c' \<noteq> None"
proof -
  let ?c = "c\<lparr>rc_dev := ifName, rc_dstIp := ip\<rparr>"
  define c1 where "c1 = (case rc_cap ?c of None \<Rightarrow> ?c
               | Some h \<Rightarrow> (cap_emit (CapClose h) (joinPcapThread (cap_emit (CapBreak h) ?c)))\<lparr>rc_cap := None\<rparr>)"
  have c1: "cap_wf c1" "rc_thread c1 = False" "rc_handler c1 \<noteq> None" "rc_inited c1" "rc_dev c1 \<noteq> []"
    using c up(1) by (auto simp: c1_def cap_wf_def cap_thread_def joinPcapThread_def cap_emit_def cap_replay_append split: option.splits)
  obtain n c2 where i: "RCap_doInit S c1 = Some (n, c2)" using doInit_total [OF c1(5) up(2)] by blast
  note d = doInit_cases [OF i c1(1)]
  have r: "RCap_OnNetConnected S ifName ip c = (if n = 0 then RCap_Start (rc_handler c2) c2 else Some c2)"
    unfolding RCap_OnNetConnected_def Let_def c1_def [symmetric] by (simp add: i)
  show ?thesis
  proof (cases "n = 0")
    case True
    then obtain h where "rc_cap c2 = Some h" using d by auto
    then show ?thesis using d c1 True
      by (auto simp: r RCap_Start_def RCap_Run_def cap_wf_def cap_thread_def cap_emit_def cap_replay_append)
  qed (use d c1 r in simp)
qed

primrec net_ups :: "(pcap_sys \<times> string \<times> string) list \<Rightarrow> rcap \<Rightarrow> rcap option" where
  "net_ups [] c = Some c"
| "net_ups (u # us) c = Option.bind (RCap_OnNetConnected (fst u) (fst (snd u)) (snd (snd u)) c) (net_ups us)"

lemma net_ups_safe:
  "cap_wf c \<Longrightarrow> rc_inited c \<Longrightarrow> rc_handler c \<noteq> None \<Longrightarrow> list_all (\<lambda>u. ps_open (fst u) \<and> fst (snd u) \<noteq> []) us \<Longrightarrow> \<exists>c'. net_ups us c = Some c' \<and> cap_wf c'"
proof (induction us arbitrary: c)
  case (Cons u us)
  then obtain c1 where "RCap_OnNetConnected (fst u) (fst (snd u)) (snd (snd u)) c = Some c1" "cap_wf c1" "rc_inited c1" "rc_handler c1 \<noteq> None"
    using OnNetConnected_safe [OF Cons.prems(1-3), of "fst (snd u)" "fst u" "snd (snd u)"] by auto
  then show ?case using Cons.IH [of c1] Cons.prems(4) by simp
qed simp

text \<open>
  C32: Once the capture is initialised and its thread started, any sequence of network changes is
  handled without a failed assertion as long as libpcap opens the new device; at every point at most one
  handle is open, every handle that was replaced was closed exactly once, and no handle was closed before
  the thread that used it had been joined.
\<close>
theorem capture_reopen_safe:
  assumes "RCap_Init S (new_rcap dev selfIp selfPorts srcPorts srcIp server) = Some (0, c)" "RCap_Start (Some f) c = Some c1"
    and "list_all (\<lambda>u. ps_open (fst u) \<and> fst (snd u) \<noteq> []) us"
  shows "\<exists>c2. net_ups us c1 = Some c2 \<and> cap_replay (None, None) (rc_trace c2) = Some (rc_cap c2, cap_thread c2)"
proof -
  let ?n = "new_rcap dev selfIp selfPorts srcPorts srcIp server"
  obtain c0 where i: "RCap_doInit S ?n = Some (0, c0)" "c = c0\<lparr>rc_inited := True, rc_observer := True\<rparr>"
    using assms(1) by (auto simp: RCap_Init_def split: if_splits option.splits)
  have "cap_wf ?n" by (simp add: cap_wf_def new_rcap_def cap_thread_def)
  note d = doInit_cases [OF i(1) this]
  have "cap_wf c1 \<and> rc_inited c1 \<and> rc_handler c1 \<noteq> None"
    using d i(2) assms(2)
    by (auto simp: RCap_Start_def RCap_Run_def cap_wf_def cap_thread_def cap_emit_def cap_replay_append split: if_splits option.splits)
  then show ?thesis using net_ups_safe [of c1 us] assms(3) by (auto simp: cap_wf_def)
qed

text \<open>
  \<open>Close\<close> and \<open>WaitAndClose\<close> do not keep this order: the handle is closed first and the thread
  joined after that; a packet that arrives then makes \<open>capHandler\<close> break the loop of a null handle.
\<close>

lemma wait_and_close_races:
  assumes "cap_wf c" "rc_thread c"
  shows "cap_replay (None, None) (rc_trace (WaitAndClose c)) = None" "capHandler (RCap_Close c) (Some pkt) = None"
  using assms
  by (auto simp: WaitAndClose_def RCap_Close_def cap_wf_def cap_thread_def cap_emit_def joinPcapThread_def cap_replay_append capHandler_def Let_def
    split: option.splits)

lemma failed_open_crashes:
  "rc_cap c = None \<Longrightarrow> rc_dstIp c \<noteq> [] \<Longrightarrow> \<not> ps_open S \<Longrightarrow> RCap_doInit S c = None"
  using filter_nonempty [of "rc_srcIp c" "rc_dstIp c" "rc_srcPorts c" "rc_destPorts c" "rc_server c"]
  by (auto simp: RCap_doInit_def Let_def split: prod.splits)

theorem capture_reopen_safe_witness:
  "\<exists>S c c1 c2. RCap_Init S (new_rcap ''en0'' ''10.0.0.2'' new_port_list new_port_list [] False) = Some (0, c)
     \<and> RCap_Start (Some 7) c = Some c1 \<and> net_ups [(S, ''en1'', ''10.0.0.3'')] c1 = Some c2
     \<and> cap_replay (None, None) (rc_trace c2) = Some (rc_cap c2, cap_thread c2)"
proof -
  define S where "S = \<lparr>ps_open = True, ps_lookupnet = 0, ps_compile = \<lambda>_. 0, ps_setfilter = 0, ps_datalink = DLT_EN10MB, ps_setdirection = 0,
    ps_devs = (0, []), ps_devs_err = []\<rparr>"
  define n where "n = new_rcap ''en0'' ''10.0.0.2'' new_port_list new_port_list [] False"
  have "\<exists>c. RCap_Init S n = Some (0, c) \<and> rc_thread c = False \<and> rc_inited c \<and> rc_cap c = Some 0"
    by (simp add: RCap_Init_def RCap_doInit_def n_def new_rcap_def cap_setup_def S_def DLT_EN10MB_def DLT_NULL_def Let_def cap_emit_def BuildFilterStr_def
      filter_ports_def port_list_empty_def new_port_list_def)
  then obtain c where c: "RCap_Init S n = Some (0, c)" "rc_thread c = False" "rc_inited c" "rc_cap c = Some 0" by blast
  then obtain c1 where c1: "RCap_Start (Some 7) c = Some c1" by (simp add: RCap_Start_def RCap_Run_def)
  have u: "list_all (\<lambda>u. ps_open (fst u) \<and> fst (snd u) \<noteq> []) [(S, ''en1'', ''10.0.0.3'')]" by (simp add: S_def)
  obtain c2 where "net_ups [(S, ''en1'', ''10.0.0.3'')] c1 = Some c2 \<and> cap_replay (None, None) (rc_trace c2) = Some (rc_cap c2, cap_thread c2)"
    using capture_reopen_safe [OF c(1) [unfolded n_def] c1 u] by blast
  then show ?thesis using c(1) c1 unfolding n_def by (intro exI [of _ S] exI [of _ c] exI [of _ c1] exI [of _ c2]) simp
qed

end
