(* ===== verification/Md5.thy ===== *)
theory Md5
  imports R_Conn
begin

section \<open>The digest (thirdparty/md5.c, util/rhash.cpp)\<close>

text \<open>
  The MD5 code of the repository and the two functions that feed it. The context is a record; an access
  outside of its 64-byte buffer or of the data is \<^const>\<open>None\<close>. \<open>SET\<close> reads a word of the
  block, \<open>GET\<close> reads the same word again (from the data on x86, from the array \<open>block\<close> of the
  context elsewhere), so both are one function of the block. The reference is the algorithm of RFC 1321: pad, cut into blocks, and run 64 steps per block.
\<close>

subsection \<open>The basic functions and one step\<close>

type_synonym md5_fn = "u32 \<Rightarrow> u32 \<Rightarrow> u32 \<Rightarrow> u32"

definition md5_F :: md5_fn where "md5_F x y z = z XOR (x AND (y XOR z))"
definition md5_G :: md5_fn where "md5_G x y z = y XOR (z AND (x XOR y))"
definition md5_H :: md5_fn where "md5_H x y z = (x XOR y) XOR z"
definition md5_H2 :: md5_fn where "md5_H2 x y z = x XOR (y XOR z)"
definition md5_I :: md5_fn where "md5_I x y z = y XOR (x OR NOT z)"

definition md5_STEP :: "md5_fn \<Rightarrow> u32 \<Rightarrow> u32 \<Rightarrow> u32 \<Rightarrow> u32 \<Rightarrow> u32 \<Rightarrow> u32 \<Rightarrow> nat \<Rightarrow> u32" where
  "md5_STEP f a b c d x t s =
     (let a = a + (f b c d + x + t);
          a = (push_bit s a) OR (drop_bit (32 - s) (a AND 0xffffffff))
      in a + b)"

text \<open>A line \<open>STEP(f, r, ..., SET(n), t, s)\<close> of the code names the variable it changes; the three others follow in the order a, b, c, d.\<close>

datatype md5_reg = RA | RB | RC | RD

type_synonym md5_stmt = "md5_fn \<times> md5_reg \<times> nat \<times> u32 \<times> nat"
type_synonym md5_regs = "u32 \<times> u32 \<times> u32 \<times> u32"

definition md5_SET :: "byte list \<Rightarrow> nat \<Rightarrow> u32" where
  "md5_SET ptr n =
     (case drop (n * 4) ptr of
        b0 # b1 # b2 # b3 # _ \<Rightarrow> ucast b0 OR push_bit 8 (ucast b1) OR push_bit 16 (ucast b2) OR push_bit 24 (ucast b3)
      | _ \<Rightarrow> 0)"

definition md5_exec :: "byte list \<Rightarrow> md5_regs \<Rightarrow> md5_stmt \<Rightarrow> md5_regs" where
  "md5_exec ptr = (\<lambda>(a, b, c, d) (f, r, n, t, s).
     (case r of
        RA \<Rightarrow> (md5_STEP f a b c d (md5_SET ptr n) t s, b, c, d)
      | RD \<Rightarrow> (a, b, c, md5_STEP f d a b c (md5_SET ptr n) t s)
      | RC \<Rightarrow> (a, b, md5_STEP f c d a b (md5_SET ptr n) t s, d)
      | RB \<Rightarrow> (a, md5_STEP f b c d a (md5_SET ptr n) t s, c, d)))"

definition md5_round1 :: "md5_stmt list" where
  "md5_round1 =
     [(md5_F, RA, 0, 0xd76aa478, 7), (md5_F, RD, 1, 0xe8c7b756, 12), (md5_F, RC, 2, 0x242070db, 17), (md5_F, RB, 3, 0xc1bdceee, 22),
      (md5_F, RA, 4, 0xf57c0faf, 7), (md5_F, RD, 5, 0x4787c62a, 12), (md5_F, RC, 6, 0xa8304613, 17), (md5_F, RB, 7, 0xfd469501, 22),
      (md5_F, RA, 8, 0x698098d8, 7), (md5_F, RD, 9, 0x8b44f7af, 12), (md5_F, RC, 10, 0xffff5bb1, 17), (md5_F, RB, 11, 0x895cd7be, 22),
      (md5_F, RA, 12, 0x6b901122, 7), (md5_F, RD, 13, 0xfd987193, 12), (md5_F, RC, 14, 0xa679438e, 17), (md5_F, RB, 15, 0x49b40821, 22)]"

definition md5_round2 :: "md5_stmt list" where
  "md5_round2 =
     [(md5_G, RA, 1, 0xf61e2562, 5), (md5_G, RD, 6, 0xc040b340, 9), (md5_G, RC, 11, 0x265e5a51, 14), (md5_G, RB, 0, 0xe9b6c7aa, 20),
      (md5_G, RA, 5, 0xd62f105d, 5), (md5_G, RD, 10, 0x02441453, 9), (md5_G, RC, 15, 0xd8a1e681, 14), (md5_G, RB, 4, 0xe7d3fbc8, 20),
      (md5_G, RA, 9, 0x21e1cde6, 5), (md5_G, RD, 14, 0xc33707d6, 9), (md5_G, RC, 3, 0xf4d50d87, 14), (md5_G, RB, 8, 0x455a14ed, 20),
      (md5_G, RA, 13, 0xa9e3e905, 5), (md5_G, RD, 2, 0xfcefa3f8, 9), (md5_G, RC, 7, 0x676f02d9, 14), (md5_G, RB, 12, 0x8d2a4c8a, 20)]"

definition md5_round3 :: "md5_stmt list" where
  "md5_round3 =
     [(md5_H, RA, 5, 0xfffa3942, 4), (md5_H2, RD, 8, 0x8771f681, 11), (md5_H, RC, 11, 0x6d9d6122, 16), (md5_H2, RB, 14, 0xfde5380c, 23),
      (md5_H, RA, 1, 0xa4beea44, 4), (md5_H2, RD, 4, 0x4bdecfa9, 11), (md5_H, RC, 7, 0xf6bb4b60, 16), (md5_H2, RB, 10, 0xbebfbc70, 23),
      (md5_H, RA, 13, 0x289b7ec6, 4), (md5_H2, RD, 0, 0xeaa127fa, 11), (md5_H, RC, 3, 0xd4ef3085, 16), (md5_H2, RB, 6, 0x04881d05, 23),
      (md5_H, RA, 9, 0xd9d4d039, 4), (md5_H2, RD, 12, 0xe6db99e5, 11), (md5_H, RC, 15, 0x1fa27cf8, 16), (md5_H2, RB, 2, 0xc4ac5665, 23)]"

definition md5_round4 :: "md5_stmt list" where
  "md5_round4 =
     [(md5_I, RA, 0, 0xf4292244, 6), (md5_I, RD, 7, 0x432aff97, 10), (md5_I, RC, 14, 0xab9423a7, 15), (md5_I, RB, 5, 0xfc93a039, 21),
      (md5_I, RA, 12, 0x655b59c3, 6), (md5_I, RD, 3, 0x8f0ccc92, 10), (md5_I, RC, 10, 0xffeff47d, 15), (md5_I, RB, 1, 0x85845dd1, 21),
      (md5_I, RA, 8, 0x6fa87e4f, 6), (md5_I, RD, 15, 0xfe2ce6e0, 10), (md5_I, RC, 6, 0xa3014314, 15), (md5_I, RB, 13, 0x4e0811a1, 21),
      (md5_I, RA, 4, 0xf7537e82, 6), (md5_I, RD, 11, 0xbd3af235, 10), (md5_I, RC, 2, 0x2ad7d2bb, 15), (md5_I, RB, 9, 0xeb86d391, 21)]"

subsection \<open>The context and its operations\<close>

record md5_ctx =
  md_lo :: u32
  md_hi :: u32
  md_a :: u32
  md_b :: u32
  md_c :: u32
  md_d :: u32
  md_buffer :: "byte list"

text \<open>
  The loop of \<open>body\<close>, for a pointer with \<open>length ptr\<close> bytes behind it: a size that is no positive
  multiple of 64 would run past the data.
\<close>

definition md5_block :: "md5_regs \<Rightarrow> byte list \<Rightarrow> md5_regs" where
  "md5_block s ptr =
     (case (s, foldl (md5_exec ptr) s (md5_round1 @ md5_round2 @ md5_round3 @ md5_round4)) of
        ((saved_a, saved_b, saved_c, saved_d), (a, b, c, d)) \<Rightarrow> (a + saved_a, b + saved_b, c + saved_c, d + saved_d))"

function md5_body_loop :: "md5_regs \<Rightarrow> byte list \<Rightarrow> nat \<Rightarrow> (md5_regs \<times> byte list) option" where
  "md5_body_loop s ptr sz =
     (if sz < 64 \<or> length ptr < 64 then None
      else let s = md5_block s (take 64 ptr); ptr = drop 64 ptr; sz = sz - 64
           in if sz = 0 then Some (s, ptr) else md5_body_loop s ptr sz)"
  by pat_completeness auto
termination
  by (relation "measure (\<lambda>(s, ptr, sz). sz)") auto

declare md5_body_loop.simps [simp del]

definition md5_body :: "md5_ctx \<Rightarrow> byte list \<Rightarrow> nat \<Rightarrow> (md5_ctx \<times> byte list) option" where
  "md5_body ctx data sz =
     (case md5_body_loop (md_a ctx, md_b ctx, md_c ctx, md_d ctx) data sz of
        None \<Rightarrow> None
      | Some ((a, b, c, d), ptr) \<Rightarrow> Some (ctx\<lparr>md_a := a, md_b := b, md_c := c, md_d := d\<rparr>, ptr))"

definition MD5_Init :: "md5_ctx \<Rightarrow> md5_ctx" where
  "MD5_Init ctx = ctx\<lparr>md_a := 0x67452301, md_b := 0xefcdab89, md_c := 0x98badcfe, md_d := 0x10325476, md_lo := 0, md_hi := 0\<rparr>"

definition md5_count :: "md5_ctx \<Rightarrow> nat \<Rightarrow> md5_ctx" where
  "md5_count ctx sz =
     (let saved_lo = md_lo ctx;
          ctx = ctx\<lparr>md_lo := ucast ((ucast saved_lo + of_nat sz :: u64) AND 0x1fffffff)\<rparr>;
          ctx = (if md_lo ctx < saved_lo then ctx\<lparr>md_hi := md_hi ctx + 1\<rparr> else ctx)
      in ctx\<lparr>md_hi := md_hi ctx + ucast (drop_bit 29 (of_nat sz :: u64))\<rparr>)"

definition md5_store :: "md5_ctx \<Rightarrow> nat \<Rightarrow> byte list \<Rightarrow> md5_ctx option" where
  "md5_store ctx p xs = map_option (\<lambda>b. ctx\<lparr>md_buffer := b\<rparr>) (write_bytes (md_buffer ctx) p xs)"

definition md5_rest :: "md5_ctx \<Rightarrow> byte list \<Rightarrow> md5_ctx option" where
  "md5_rest ctx data =
     do { (ctx, data) \<leftarrow> (if length data \<ge> 64 then md5_body ctx data (64 * (length data div 64)) else Some (ctx, data));
          md5_store ctx 0 data }"

definition MD5_Update :: "md5_ctx \<Rightarrow> byte list \<Rightarrow> md5_ctx option" where
  "MD5_Update ctx data =
     (let used = unat (md_lo ctx AND 0x3f); ctx = md5_count ctx (length data) in
      if used \<noteq> 0 then
        (let available = 64 - used in
         if length data < available then md5_store ctx used data
         else do { ctx \<leftarrow> md5_store ctx used (take available data);
                   (ctx, _) \<leftarrow> md5_body ctx (md_buffer ctx) 64;
                   md5_rest ctx (drop available data) })
      else md5_rest ctx data)"

definition md5_OUT :: "u32 \<Rightarrow> byte list" where
  "md5_OUT w = [ucast w, ucast (drop_bit 8 w), ucast (drop_bit 16 w), ucast (drop_bit 24 w)]"

definition md5_zero :: md5_ctx where
  "md5_zero = \<lparr>md_lo = 0, md_hi = 0, md_a = 0, md_b = 0, md_c = 0, md_d = 0, md_buffer = replicate 64 0\<rparr>"

definition md5_finish :: "md5_ctx \<Rightarrow> nat \<Rightarrow> nat \<Rightarrow> (byte list \<times> md5_ctx) option" where
  "md5_finish ctx used available =
     do { ctx \<leftarrow> md5_store ctx used (replicate (available - 8) 0);
          let ctx = ctx\<lparr>md_lo := push_bit 3 (md_lo ctx)\<rparr>;
          ctx \<leftarrow> md5_store ctx 56 (md5_OUT (md_lo ctx));
          ctx \<leftarrow> md5_store ctx 60 (md5_OUT (md_hi ctx));
          (ctx, _) \<leftarrow> md5_body ctx (md_buffer ctx) 64;
          Some (md5_OUT (md_a ctx) @ md5_OUT (md_b ctx) @ md5_OUT (md_c ctx) @ md5_OUT (md_d ctx), md5_zero) }"

definition MD5_Final :: "md5_ctx \<Rightarrow> (byte list \<times> md5_ctx) option" where
  "MD5_Final ctx =
     (let used = unat (md_lo ctx AND 0x3f) in
      do { ctx \<leftarrow> md5_store ctx used [0x80];
           let used = used + 1;
           let available = 64 - used;
           if available < 8 then
             do { ctx \<leftarrow> md5_store ctx used (replicate available 0);
                  (ctx, _) \<leftarrow> md5_body ctx (md_buffer ctx) 64;
                  md5_finish ctx 0 64 }
           else md5_finish ctx used available })"

text \<open>The two hash functions and the generator of the identity, as \<open>rhash.cpp\<close> calls them.\<close>

definition md5_of_key :: "md5_ctx \<Rightarrow> byte list \<Rightarrow> byte list \<Rightarrow> byte list option" where
  "md5_of_key ctx key data =
     do { ctx \<leftarrow> MD5_Update (MD5_Init ctx) key;
          ctx \<leftarrow> MD5_Update ctx (take 1 data);
          (md5_result, ctx) \<leftarrow> MD5_Final ctx;
          Some md5_result }"

text \<open>
  \<open>GenerateIdBuf\<close> does not call \<open>MD5_Init\<close>: the context is whatever was on the stack. \<open>sec\<close> and
  \<open>addr\<close> are the two numbers below 709217, each printed in six columns; \<open>snprintf\<close> ends its
  output with a zero byte and drops the last character.
\<close>

definition six_columns :: "nat \<Rightarrow> byte list" where
  "six_columns n = (let s = map (\<lambda>c. of_char c) (to_string n) in replicate (6 - length s) 32 @ s)"

definition GenerateIdBuf :: "md5_ctx \<Rightarrow> nat \<Rightarrow> nat \<Rightarrow> byte list \<Rightarrow> byte list option" where
  "GenerateIdBuf ctx sec addr key =
     (let buflen = 12 + length key;
          text = six_columns (sec mod 709217) @ six_columns (addr mod 709217) @ key;
          buf = take (buflen - 1) text @ [0]
      in do { ctx \<leftarrow> MD5_Update ctx buf;
              (md5_result, ctx) \<leftarrow> MD5_Final ctx;
              Some (take (min ID_BUF_SIZE MD5_LEN) md5_result) })"

subsection \<open>RFC 1321\<close>

definition rfc_F :: md5_fn where "rfc_F x y z = (x AND y) OR (NOT x AND z)"
definition rfc_G :: md5_fn where "rfc_G x y z = (x AND z) OR (y AND NOT z)"
definition rfc_H :: md5_fn where "rfc_H x y z = x XOR y XOR z"
definition rfc_I :: md5_fn where "rfc_I x y z = y XOR (x OR NOT z)"

definition rfc_T :: "u32 list" where
  "rfc_T =
     [0xd76aa478, 0xe8c7b756, 0x242070db, 0xc1bdceee, 0xf57c0faf, 0x4787c62a, 0xa8304613, 0xfd469501,
      0x698098d8, 0x8b44f7af, 0xffff5bb1, 0x895cd7be, 0x6b901122, 0xfd987193, 0xa679438e, 0x49b40821,
      0xf61e2562, 0xc040b340, 0x265e5a51, 0xe9b6c7aa, 0xd62f105d, 0x02441453, 0xd8a1e681, 0xe7d3fbc8,
      0x21e1cde6, 0xc33707d6, 0xf4d50d87, 0x455a14ed, 0xa9e3e905, 0xfcefa3f8, 0x676f02d9, 0x8d2a4c8a,
      0xfffa3942, 0x8771f681, 0x6d9d6122, 0xfde5380c, 0xa4beea44, 0x4bdecfa9, 0xf6bb4b60, 0xbebfbc70,
      0x289b7ec6, 0xeaa127fa, 0xd4ef3085, 0x04881d05, 0xd9d4d039, 0xe6db99e5, 0x1fa27cf8, 0xc4ac5665,
      0xf4292244, 0x432aff97, 0xab9423a7, 0xfc93a039, 0x655b59c3, 0x8f0ccc92, 0xffeff47d, 0x85845dd1,
      0x6fa87e4f, 0xfe2ce6e0, 0xa3014314, 0x4e0811a1, 0xf7537e82, 0xbd3af235, 0x2ad7d2bb, 0xeb86d391]"

definition rfc_f :: "nat \<Rightarrow> md5_fn" where
  "rfc_f i = (if i < 16 then rfc_F else if i < 32 then rfc_G else if i < 48 then rfc_H else rfc_I)"

definition rfc_k :: "nat \<Rightarrow> nat" where
  "rfc_k i = (if i < 16 then i else if i < 32 then (5 * i + 1) mod 16 else if i < 48 then (3 * i + 5) mod 16 else 7 * i mod 16)"

definition rfc_s :: "nat \<Rightarrow> nat" where
  "rfc_s i = [7, 12, 17, 22, 5, 9, 14, 20, 4, 11, 16, 23, 6, 10, 15, 21] ! (4 * (i div 16) + i mod 4)"

definition rfc_step :: "byte list \<Rightarrow> md5_regs \<Rightarrow> nat \<Rightarrow> md5_regs" where
  "rfc_step bs = (\<lambda>(a, b, c, d) i. (d, b + word_rotl (rfc_s i) (a + rfc_f i b c d + md5_SET bs (rfc_k i) + rfc_T ! i), b, c))"

definition rfc_block :: "md5_regs \<Rightarrow> byte list \<Rightarrow> md5_regs" where
  "rfc_block s bs = (case (s, foldl (rfc_step bs) s [0..<64]) of ((a, b, c, d), (a', b', c', d')) \<Rightarrow> (a + a', b + b', c + c', d + d'))"

fun blocks64 :: "byte list \<Rightarrow> byte list list" where
  "blocks64 bs = (if length bs < 64 then [] else take 64 bs # blocks64 (drop 64 bs))"

declare blocks64.simps [simp del]

definition rfc_pad :: "byte list \<Rightarrow> byte list" where
  "rfc_pad m = m @ [0x80] @ replicate ((119 - length m mod 64) mod 64) 0 @ nat_to_le 8 (8 * length m)"

definition rfc_md5 :: "byte list \<Rightarrow> byte list" where
  "rfc_md5 m = (case foldl rfc_block (0x67452301, 0xefcdab89, 0x98badcfe, 0x10325476) (blocks64 (rfc_pad m)) of
     (a, b, c, d) \<Rightarrow> le32 a @ le32 b @ le32 c @ le32 d)"

subsection \<open>The optimised functions\<close>

lemma md5_fns: "md5_F = rfc_F" "md5_G = rfc_G" "md5_H = rfc_H" "md5_H2 = rfc_H" "md5_I = rfc_I"
  unfolding md5_F_def [abs_def] md5_G_def [abs_def] md5_H_def [abs_def] md5_H2_def [abs_def] md5_I_def [abs_def]
    rfc_F_def [abs_def] rfc_G_def [abs_def] rfc_H_def [abs_def] rfc_I_def [abs_def]
  by (intro ext bit_word_eqI; auto simp: bit_simps)+

lemma rotate_shifts:
  assumes "0 < s" "s < 32"
  shows "push_bit s (a :: u32) OR drop_bit (32 - s) (a AND 0xffffffff) = word_rotl s a"
proof -
  have m: "a AND 0xffffffff = a"
  proof -
    have "(0xffffffff :: u32) = mask 32" by (simp add: mask_eq_exp_minus_1)
    moreover have "a AND mask 32 = a" by (rule bit_word_eqI) (simp add: bit_simps)
    ultimately show ?thesis by (simp only:)
  qed
  show ?thesis unfolding m
  proof (rule bit_word_eqI)
    fix n assume n: "n < LENGTH(32)"
    have r: "bit (word_rotl s a) n \<longleftrightarrow> bit a ((n + (32 - s)) mod 32)" using n assms by (simp add: bit_word_rotl_iff)
    have l: "bit (push_bit s a OR drop_bit (32 - s) a) n \<longleftrightarrow> (s \<le> n \<and> bit a (n - s)) \<or> bit a (n + (32 - s))"
      using n by (simp add: bit_simps add.commute)
    show "bit (push_bit s a OR drop_bit (32 - s) a) n = bit (word_rotl s a) n"
    proof (cases "s \<le> n")
      case True
      then have "n + (32 - s) = 32 + (n - s)" "n - s < 32" using n assms by simp_all
      then have "(n + (32 - s)) mod 32 = n - s" "\<not> bit a (n + (32 - s))" by (simp_all add: bit_word.rep_eq)
      then show ?thesis using l r True by simp
    next
      case False
      then have "(n + (32 - s)) mod 32 = n + (32 - s)" using n assms by simp
      then show ?thesis using l r False by simp
    qed
  qed
qed

lemma md5_STEP_rfc: "0 < s \<Longrightarrow> s < 32 \<Longrightarrow> md5_STEP f a b c d x t s = b + word_rotl s (a + f b c d + x + t)"
  unfolding md5_STEP_def Let_def rotate_shifts by (simp add: add_ac)

primrec next_reg :: "md5_reg \<Rightarrow> md5_reg" where
  "next_reg RA = RD" | "next_reg RD = RC" | "next_reg RC = RB" | "next_reg RB = RA"

definition view_from :: "md5_reg \<Rightarrow> md5_regs \<Rightarrow> md5_regs" where
  "view_from r = (\<lambda>(a, b, c, d). case r of RA \<Rightarrow> (a, b, c, d) | RD \<Rightarrow> (d, a, b, c) | RC \<Rightarrow> (c, d, a, b) | RB \<Rightarrow> (b, c, d, a))"

fun aligned :: "md5_reg \<Rightarrow> nat list \<Rightarrow> md5_stmt list \<Rightarrow> bool" where
  "aligned r (i # is) ((f, r', n, t, s) # ss) \<longleftrightarrow>
     r = r' \<and> f = rfc_f i \<and> n = rfc_k i \<and> t = rfc_T ! i \<and> s = rfc_s i \<and> 0 < s \<and> s < 32 \<and> aligned (next_reg r) is ss"
| "aligned r is ss \<longleftrightarrow> is = [] \<and> ss = [] \<and> r = RA"

lemma exec_step:
  "0 < s \<Longrightarrow> s < 32 \<Longrightarrow> f = rfc_f i \<Longrightarrow> n = rfc_k i \<Longrightarrow> t = rfc_T ! i \<Longrightarrow> s = rfc_s i \<Longrightarrow>
     view_from (next_reg r) (md5_exec bs st (f, r, n, t, s)) = rfc_step bs (view_from r st) i"
  by (cases st; cases r) (simp_all add: view_from_def md5_exec_def rfc_step_def md5_STEP_rfc)

lemma exec_aligned: "aligned r is ss \<Longrightarrow> foldl (md5_exec bs) st ss = foldl (rfc_step bs) (view_from r st) is"
proof (induction r "is" ss arbitrary: st rule: aligned.induct)
  case (1 r i "is" f r' n t s ss)
  then have e: "view_from (next_reg r) (md5_exec bs st (f, r', n, t, s)) = rfc_step bs (view_from r st) i"
    using exec_step [of s f i n t r bs st] by simp
  have "r = r'" "aligned (next_reg r) is ss" using "1.prems" unfolding aligned.simps by blast+
  then show ?case using "1.IH" [of "md5_exec bs st (f, r', n, t, s)"] "1.prems" unfolding foldl_Cons e [symmetric] by blast
qed (auto simp: view_from_def split: prod.splits)

lemma md5_table: "aligned RA [0..<64] (md5_round1 @ md5_round2 @ md5_round3 @ md5_round4)"
  unfolding md5_round1_def md5_round2_def md5_round3_def md5_round4_def md5_fns
  by (simp add: upt_conv_Cons rfc_f_def rfc_k_def rfc_s_def rfc_T_def del: upt_Suc)

lemma md5_block_rfc: "md5_block s bs = rfc_block s bs"
  unfolding md5_block_def rfc_block_def exec_aligned [OF md5_table]
  by (simp add: view_from_def add.commute split: prod.splits)

subsection \<open>Blocks\<close>

lemma blocks64_short: "length bs < 64 \<Longrightarrow> blocks64 bs = []"
  by (simp add: blocks64.simps)

lemma blocks64_one: "length bs = 64 \<Longrightarrow> blocks64 (bs @ cs) = bs # blocks64 cs"
  by (subst blocks64.simps) simp

lemma blocks64_append: "64 dvd length xs \<Longrightarrow> blocks64 (xs @ ys) = blocks64 xs @ blocks64 ys"
proof (induction xs rule: blocks64.induct)
  case (1 xs)
  show ?case
  proof (cases "length xs < 64")
    case True
    then have "xs = []" using 1(2) by (auto dest: dvd_imp_le)
    then show ?thesis by (simp add: blocks64_short)
  next
    case False
    then have "64 dvd length (drop 64 xs)" using 1(2) by (simp add: dvd_diff_nat)
    from 1(1) [OF False this] show ?thesis
      using blocks64_one [of "take 64 xs" "drop 64 xs @ ys"] blocks64_one [of "take 64 xs" "drop 64 xs"] False
      by (simp flip: append_assoc)
  qed
qed

lemma md5_body_loop_blocks:
  "64 dvd n \<Longrightarrow> 0 < n \<Longrightarrow> n \<le> length bs \<Longrightarrow>
     md5_body_loop s bs n = Some (foldl rfc_block s (blocks64 (take n bs)), drop n bs)"
proof (induction s bs n rule: md5_body_loop.induct)
  case (1 s bs n)
  have n: "64 \<le> n" using 1(2,3) by (rule dvd_imp_le)
  have t: "take n bs = take 64 bs @ take (n - 64) (drop 64 bs)"
    using n by (metis le_add_diff_inverse take_add)
  have b: "blocks64 (take n bs) = take 64 bs # blocks64 (take (n - 64) (drop 64 bs))"
    unfolding t using n 1(4) by (intro blocks64_one) simp
  show ?case
  proof (cases "n = 64")
    case True
    then show ?thesis using n 1(4) b by (subst md5_body_loop.simps) (simp add: md5_block_rfc blocks64_short)
  next
    case False
    then have "md5_body_loop (md5_block s (take 64 bs)) (drop 64 bs) (n - 64)
        = Some (foldl rfc_block (md5_block s (take 64 bs)) (blocks64 (take (n - 64) (drop 64 bs))), drop (n - 64) (drop 64 bs))"
      using n 1(2-4) by (intro 1(1)) (auto intro: dvd_diff_nat)
    then show ?thesis using n 1(4) False unfolding b by (subst md5_body_loop.simps) (simp add: md5_block_rfc)
  qed
qed

definition md_regs :: "md5_ctx \<Rightarrow> md5_regs" where
  "md_regs ctx = (md_a ctx, md_b ctx, md_c ctx, md_d ctx)"

definition set_regs :: "md5_regs \<Rightarrow> md5_ctx \<Rightarrow> md5_ctx" where
  "set_regs s ctx = (case s of (a, b, c, d) \<Rightarrow> ctx\<lparr>md_a := a, md_b := b, md_c := c, md_d := d\<rparr>)"

lemma regs_simps [simp]:
  "md_regs (set_regs s ctx) = s" "md_lo (set_regs s ctx) = md_lo ctx" "md_hi (set_regs s ctx) = md_hi ctx"
  "md_buffer (set_regs s ctx) = md_buffer ctx" "md_regs (ctx\<lparr>md_buffer := b\<rparr>) = md_regs ctx"
  "md_regs (ctx\<lparr>md_lo := l\<rparr>) = md_regs ctx" "md_regs (ctx\<lparr>md_hi := h\<rparr>) = md_regs ctx"
  by (simp_all add: md_regs_def set_regs_def split: prod.split)

lemma md5_body_blocks:
  "64 dvd n \<Longrightarrow> 0 < n \<Longrightarrow> n \<le> length bs \<Longrightarrow>
     md5_body ctx bs n = Some (set_regs (foldl rfc_block (md_regs ctx) (blocks64 (take n bs))) ctx, drop n bs)"
  by (simp add: md5_body_def md5_body_loop_blocks md_regs_def set_regs_def split: prod.splits)

lemma md5_body_buffer:
  "length b = 64 \<Longrightarrow> md5_body ctx b 64 = Some (set_regs (rfc_block (md_regs ctx) b) ctx, [])"
  using md5_body_blocks [of 64 b ctx] blocks64_one [of b "[]"] by (simp add: blocks64_short)

text \<open>The bytes behind the last complete block.\<close>

definition rest64 :: "byte list \<Rightarrow> byte list" where
  "rest64 bs = drop (64 * (length bs div 64)) bs"

lemma length_rest64 [simp]: "length (rest64 bs) = length bs mod 64"
  by (simp add: rest64_def minus_mult_div_eq_mod)

lemma split64: "\<exists>full. bs = full @ rest64 bs \<and> 64 dvd length full \<and> blocks64 full = blocks64 bs"
proof -
  let ?f = "take (64 * (length bs div 64)) bs"
  have "bs = ?f @ rest64 bs" by (simp add: rest64_def)
  moreover have d: "64 dvd length ?f" using times_div_less_eq_dividend [of 64 "length bs"] by (simp add: min_absorb2)
  moreover have "blocks64 (?f @ rest64 bs) = blocks64 ?f" using blocks64_append [OF d] by (simp add: blocks64_short)
  ultimately show ?thesis by metis
qed

lemma blocks64_extend: "blocks64 (bs @ cs) = blocks64 bs @ blocks64 (rest64 bs @ cs)"
proof -
  obtain full where f: "bs = full @ rest64 bs" "64 dvd length full" "blocks64 full = blocks64 bs" using split64 by blast
  have "blocks64 (bs @ cs) = blocks64 (full @ (rest64 bs @ cs))" using f(1) by (metis append_assoc)
  then show ?thesis using blocks64_append [OF f(2)] f(3) by simp
qed

lemma rest64_dvd: "64 dvd length xs \<Longrightarrow> rest64 (xs @ ys) = rest64 ys"
  by (auto simp: rest64_def elim!: dvdE)

lemma rest64_extend: "rest64 (bs @ cs) = rest64 (rest64 bs @ cs)"
proof -
  obtain full where f: "bs = full @ rest64 bs" "64 dvd length full" using split64 by blast
  have "rest64 (bs @ cs) = rest64 (full @ (rest64 bs @ cs))" using f(1) by (metis append_assoc)
  then show ?thesis using rest64_dvd [OF f(2)] by simp
qed

lemma rest64_short: "length bs < 64 \<Longrightarrow> rest64 bs = bs"
  by (simp add: rest64_def)

subsection \<open>The counters\<close>

lemma unat_and_mask: "unat (w AND mask n :: 'a :: len word) = unat w mod 2 ^ n"
  by (simp only: take_bit_eq_mask [symmetric] unsigned_take_bit_eq take_bit_eq_mod [of n "unat w"])

lemma used_is_mod: "unat (w AND 0x3f :: u32) = unat w mod 64"
proof -
  have "(0x3f :: u32) = mask 6" by (simp add: mask_eq_exp_minus_1)
  then show ?thesis using unat_and_mask [of w 6] by simp
qed

lemma unat_new_lo: "unat (ucast ((ucast (w :: u32) + of_nat n :: u64) AND 0x1fffffff) :: u32) = (unat w + n) mod 536870912"
proof -
  have m: "(0x1fffffff :: u64) = mask 29" by (simp add: mask_eq_exp_minus_1)
  have "unat ((ucast w + of_nat n :: u64) AND 0x1fffffff) = unat (ucast w + of_nat n :: u64) mod 536870912"
    unfolding m using unat_and_mask [of "ucast w + of_nat n :: u64" 29] by simp
  moreover have "unat (ucast w + of_nat n :: u64) = (unat w + n) mod 18446744073709551616"
    using unat_u32_less [of w] by (simp add: unat_word_ariths unat_of_nat unsigned_ucast_eq take_bit_eq_mod mod_simps)
  moreover have "(x mod 18446744073709551616) mod 536870912 = x mod (536870912 :: nat)" for x
    by (rule mod_mod_cancel) simp
  moreover have "x mod (536870912 :: nat) < 4294967296" for x by (rule less_trans [OF mod_less_divisor]) simp_all
  ultimately show ?thesis by (simp add: unsigned_ucast_eq take_bit_eq_mod)
qed

lemma shifted_size: "(ucast (drop_bit 29 (of_nat n :: u64)) :: u32) = of_nat (n div 536870912)"
proof -
  have "unat (drop_bit 29 (of_nat n :: u64)) = (n mod 18446744073709551616) div 536870912"
    unfolding unat_drop_bit_eq by (simp add: drop_bit_eq_div unat_of_nat)
  also have "\<dots> = (n div 536870912) mod 34359738368" 
    using mod_mult2_eq [of n 536870912 34359738368] by simp
  finally have "unat (ucast (drop_bit 29 (of_nat n :: u64)) :: u32) = (n div 536870912) mod 34359738368 mod 4294967296"
    by (simp add: unsigned_ucast_eq take_bit_eq_mod)
  also have "\<dots> = (n div 536870912) mod 4294967296" by (rule mod_mod_cancel) simp
  finally show ?thesis by (simp add: word_unat_eq_iff unat_of_nat)
qed

lemma carry_detected:
  fixes k n L :: nat
  assumes "0 < L"
  shows "(k + n) div L = k div L + n div L + (if (k mod L + n) mod L < k mod L then 1 else 0)"
proof -
  define l r where "l = k mod L" and "r = n mod L"
  have lr: "l < L" "r < L" using assms by (simp_all add: l_def r_def)
  have "(k + n) div L = k div L + n div L + (l + r) div L" unfolding l_def r_def by (rule div_add1_eq)
  moreover have "(l + n) mod L = (l + r) mod L" by (simp add: r_def mod_simps)
  moreover have "(l + r) div L = (if (l + r) mod L < l then 1 else 0)"
  proof (cases "l + r < L")
    case False
    then have "(l + r) mod L = l + r - L" "(l + r) div L = 1" using lr by (simp_all add: mod_if div_if)
    then show ?thesis using lr False by simp
  qed simp
  ultimately show ?thesis by (simp add: l_def)
qed

lemma md5_count_counts:
  assumes "md_lo ctx = of_nat (k mod 536870912)" "md_hi ctx = of_nat (k div 536870912)"
  shows "md_lo (md5_count ctx n) = of_nat ((k + n) mod 536870912) \<and> md_hi (md5_count ctx n) = of_nat ((k + n) div 536870912)
    \<and> md_buffer (md5_count ctx n) = md_buffer ctx \<and> md_regs (md5_count ctx n) = md_regs ctx"
proof -
  have b: "k mod 536870912 < 4294967296" for k :: nat by (rule less_trans [OF mod_less_divisor]) simp_all
  have lo: "unat (md_lo ctx) = k mod 536870912" using assms(1) b [of k] by (simp add: unat_of_nat)
  define w :: u32 where "w = ucast ((ucast (md_lo ctx) + of_nat n :: u64) AND 0x1fffffff)"
  have w: "unat w = (k mod 536870912 + n) mod 536870912" unfolding w_def unat_new_lo lo by (rule refl)
  have "md_lo (md5_count ctx n) = w" by (simp add: md5_count_def Let_def w_def)
  moreover have "w = of_nat ((k + n) mod 536870912)" using w b [of "k + n"] by (simp add: word_unat_eq_iff unat_of_nat mod_simps)
  moreover have "md_hi (md5_count ctx n) = of_nat (k div 536870912 + n div 536870912 + (if w < md_lo ctx then 1 else 0))"
    by (simp add: md5_count_def Let_def w_def shifted_size assms(2))
  moreover have "w < md_lo ctx \<longleftrightarrow> (k mod 536870912 + n) mod 536870912 < k mod 536870912" unfolding word_less_nat_alt lo w by (rule refl)
  ultimately show ?thesis using carry_detected [of 536870912 k n] by (simp add: md5_count_def Let_def del: of_nat_add)
qed

subsection \<open>What a context stands for\<close>

definition md5_iv :: md5_regs where
  "md5_iv = (0x67452301, 0xefcdab89, 0x98badcfe, 0x10325476)"

definition digests :: "md5_ctx \<Rightarrow> byte list \<Rightarrow> bool" where
  "digests ctx m \<longleftrightarrow> length (md_buffer ctx) = 64 \<and> md_lo ctx = of_nat (length m mod 536870912) \<and> md_hi ctx = of_nat (length m div 536870912)
     \<and> take (length m mod 64) (md_buffer ctx) = rest64 m \<and> md_regs ctx = foldl rfc_block md5_iv (blocks64 m)"

lemma digests_Init: "length (md_buffer ctx) = 64 \<Longrightarrow> digests (MD5_Init ctx) []"
  by (simp add: digests_def MD5_Init_def md_regs_def md5_iv_def blocks64_short rest64_def)

lemma digests_used:
  assumes "digests ctx m"
  shows "unat (md_lo ctx AND 0x3f) = length m mod 64"
proof -
  have "length m mod 536870912 < 4294967296" by (rule less_trans [OF mod_less_divisor]) simp_all
  then have "unat (md_lo ctx) = length m mod 536870912" using assms by (simp add: digests_def unat_of_nat)
  moreover have "length m mod 536870912 mod 64 = length m mod 64" by (rule mod_mod_cancel) simp
  ultimately show ?thesis by (simp add: used_is_mod)
qed

lemma store_front:
  "length xs \<le> length (md_buffer ctx) \<Longrightarrow> \<exists>b. md5_store ctx 0 xs = Some (ctx\<lparr>md_buffer := b\<rparr>) \<and> length b = length (md_buffer ctx) \<and> take (length xs) b = xs"
  by (intro exI [of _ "xs @ drop (length xs) (md_buffer ctx)"]) (simp add: md5_store_def write_bytes_def)

text \<open>The last part of an update: the blocks of the data are digested and the rest kept.\<close>

lemma md5_rest_blocks:
  assumes "length (md_buffer ctx) = 64"
  shows "\<exists>b. md5_rest ctx bs = Some ((set_regs (foldl rfc_block (md_regs ctx) (blocks64 bs)) ctx)\<lparr>md_buffer := b\<rparr>)
    \<and> length b = 64 \<and> take (length bs mod 64) b = rest64 bs"
proof (cases "length bs \<ge> 64")
  case True
  let ?n = "64 * (length bs div 64)" and ?c = "set_regs (foldl rfc_block (md_regs ctx) (blocks64 bs)) ctx"
  obtain full where f: "bs = full @ rest64 bs" "64 dvd length full" "blocks64 full = blocks64 bs" using split64 by blast
  have n: "length full = ?n" using arg_cong [OF f(1), of length] minus_mod_eq_mult_div [of "length bs" 64] by simp
  then have "take ?n bs = full" "drop ?n bs = rest64 bs" using f(1) by (metis append_eq_conv_conj)+
  moreover have "0 < ?n" "?n \<le> length bs" using True by (simp_all add: div_greater_zero_iff)
  ultimately have b: "md5_body ctx bs ?n = Some (?c, rest64 bs)" using md5_body_blocks [of ?n bs ctx] f(3) by simp
  have "length (rest64 bs) \<le> length (md_buffer ?c)" using assms mod_less_divisor [of 64 "length bs"] by simp
  then show ?thesis using store_front [of "rest64 bs" ?c] True assms unfolding md5_rest_def b by auto
next
  case False
  then have "set_regs (foldl rfc_block (md_regs ctx) (blocks64 bs)) ctx = ctx"
    by (simp add: blocks64_short set_regs_def md_regs_def)
  then show ?thesis using store_front [of bs ctx] False assms by (simp add: md5_rest_def rest64_short)
qed

lemma digests_extend:
  assumes "digests ctx m"
    and "length b = 64" "take (length (m @ bs) mod 64) b = rest64 (rest64 m @ bs)"
    and "s = foldl rfc_block (md_regs ctx) (blocks64 (rest64 m @ bs))"
  shows "digests ((set_regs s (md5_count ctx (length bs)))\<lparr>md_buffer := b\<rparr>) (m @ bs)"
proof -
  have "md_lo ctx = of_nat (length m mod 536870912)" "md_hi ctx = of_nat (length m div 536870912)" using assms(1) by (simp_all add: digests_def)
  from md5_count_counts [OF this, of "length bs"] show ?thesis
    using assms unfolding digests_def by (simp add: blocks64_extend [of m bs] rest64_extend [of m bs])
qed

lemma digests_count:
  assumes "digests ctx m"
  shows "length (md_buffer (md5_count ctx n)) = 64" "md_buffer (md5_count ctx n) = md_buffer ctx" "md_regs (md5_count ctx n) = md_regs ctx"
  using assms md5_count_counts [of ctx "length m" n] by (simp_all add: digests_def)

text \<open>An update that completes the block in the buffer.\<close>

lemma MD5_Update_fill:
  assumes d: "digests ctx m" and long: "length m mod 64 \<noteq> 0" "64 - length m mod 64 \<le> length bs"
  shows "\<exists>ctx'. MD5_Update ctx bs = Some ctx' \<and> digests ctx' (m @ bs)"
proof -
  let ?u = "length m mod 64" and ?c = "md5_count ctx (length bs)"
  let ?a = "64 - ?u" and ?full = "rest64 m @ take (64 - ?u) bs"
  note lens = digests_count [OF d, of "length bs"]
  have buf: "take ?u (md_buffer ctx) = rest64 m" "length (md_buffer ctx) = 64" and u: "?u < 64" using d by (simp_all add: digests_def)
  have full: "length ?full = 64" using long u by simp
  let ?c1 = "?c\<lparr>md_buffer := ?full\<rparr>"
  have st: "md5_store ?c ?u (take ?a bs) = Some ?c1" using long buf lens by (simp add: md5_store_def write_bytes_def)
  let ?c2 = "set_regs (rfc_block (md_regs ctx) ?full) ?c1"
  have bd: "md5_body ?c1 ?full 64 = Some (?c2, [])" using md5_body_buffer [OF full, of ?c1] lens(3) by simp
  have "length (md_buffer ?c2) = 64" using full by simp
  from md5_rest_blocks [OF this, of "drop ?a bs"] obtain b where
    b: "md5_rest ?c2 (drop ?a bs) = Some ((set_regs (foldl rfc_block (md_regs ?c2) (blocks64 (drop ?a bs))) ?c2)\<lparr>md_buffer := b\<rparr>)"
    "length b = 64" "take (length (drop ?a bs) mod 64) b = rest64 (drop ?a bs)" by blast
  have split: "rest64 m @ bs = ?full @ drop ?a bs" by simp
  have bl: "blocks64 (rest64 m @ bs) = ?full # blocks64 (drop ?a bs)" unfolding split by (rule blocks64_one [OF full])
  have rs: "rest64 (rest64 m @ bs) = rest64 (drop ?a bs)" unfolding split using full by (intro rest64_dvd) simp
  have "length (m @ bs) mod 64 = length (drop ?a bs) mod 64"
    using arg_cong [OF rs, of length] arg_cong [OF rest64_extend [of m bs], of length] by (simp only: length_rest64)
  then have "digests ((set_regs (foldl rfc_block (md_regs ?c2) (blocks64 (drop ?a bs))) ?c)\<lparr>md_buffer := b\<rparr>) (m @ bs)"
    using b(2,3) by (intro digests_extend [OF d]) (simp_all only: rs bl, simp)
  moreover have "(set_regs s ?c2)\<lparr>md_buffer := b\<rparr> = (set_regs s ?c)\<lparr>md_buffer := b\<rparr>" for s
    by (simp add: set_regs_def split: prod.splits)
  moreover have "MD5_Update ctx bs = md5_rest ?c2 (drop ?a bs)"
    using digests_used [OF d] long st bd by (simp add: MD5_Update_def Let_def)
  ultimately show ?thesis using b(1) by metis
qed

lemma MD5_Update_digests:
  assumes d: "digests ctx m"
  shows "\<exists>ctx'. MD5_Update ctx bs = Some ctx' \<and> digests ctx' (m @ bs)"
proof -
  let ?u = "length m mod 64" and ?c = "md5_count ctx (length bs)"
  note used = digests_used [OF d] and lens = digests_count [OF d, of "length bs"]
  have buf: "take ?u (md_buffer ctx) = rest64 m" "length (md_buffer ctx) = 64" using d by (simp_all add: digests_def)
  consider "?u = 0" | "?u \<noteq> 0" "length bs < 64 - ?u" | "?u \<noteq> 0" "64 - ?u \<le> length bs" by linarith
  then show ?thesis
  proof cases
    case 1
    then have r: "rest64 m = []" by (simp flip: length_0_conv)
    obtain b where b: "md5_rest ?c bs = Some ((set_regs (foldl rfc_block (md_regs ?c) (blocks64 bs)) ?c)\<lparr>md_buffer := b\<rparr>)"
      "length b = 64" "take (length bs mod 64) b = rest64 bs" using md5_rest_blocks [OF lens(1), of bs] by blast
    have "(length m + length bs) mod 64 = length bs mod 64" using 1 mod_add_left_eq [of "length m" 64 "length bs"] by simp
    then have "digests ((set_regs (foldl rfc_block (md_regs ?c) (blocks64 bs)) ?c)\<lparr>md_buffer := b\<rparr>) (m @ bs)"
      using b(2,3) r lens(3) by (intro digests_extend [OF d]) simp_all
    then show ?thesis using b(1) used 1 by (simp add: MD5_Update_def Let_def)
  next
    case 2
    let ?b = "take ?u (md_buffer ctx) @ bs @ drop (?u + length bs) (md_buffer ctx)"
    have s: "length (rest64 m @ bs) < 64" using 2 by simp
    have "(length m + length bs) mod 64 = ?u + length bs" using 2(2) by (metis add_less_imp_less_right less_diff_conv add.commute mod_add_left_eq mod_less)
    then have "digests ((set_regs (md_regs ctx) ?c)\<lparr>md_buffer := ?b\<rparr>) (m @ bs)"
      using s buf 2 by (intro digests_extend [OF d]) (simp_all add: blocks64_short rest64_short)
    moreover have "set_regs (md_regs ctx) ?c = ?c" using lens(3) by (simp add: set_regs_def md_regs_def)
    ultimately show ?thesis using used 2 buf lens by (simp add: MD5_Update_def Let_def md5_store_def write_bytes_def)
  qed (rule MD5_Update_fill [OF d])
qed

subsection \<open>The last block\<close>

lemma nat_to_le_mod: "nat_to_le n (v mod 256 ^ n) = nat_to_le n v"
  by (metis le_to_nat_to_le length_nat_to_le nat_to_le_le_to_nat)

lemma nat_to_le_append: "nat_to_le (n + k) v = nat_to_le n v @ nat_to_le k (v div 256 ^ n)"
  by (induction n arbitrary: v) (simp_all add: div_mult2_eq)

lemma md5_OUT_le32: "md5_OUT w = le32 w"
proof -
  have u: "(ucast x :: byte) = of_nat (unat x)" for x :: u32
    by (simp add: word_unat_eq_iff unat_of_nat unsigned_ucast_eq take_bit_eq_mod)
  have four: "4 = Suc (Suc (Suc (Suc 0)))" by simp
  have d: "drop_bit 16 v = v div 256 div 256" "drop_bit 24 v = v div 256 div 256 div 256" "drop_bit 8 v = v div 256" for v :: nat
    by (simp_all add: drop_bit_eq_div div_mult2_eq [symmetric])
  show ?thesis unfolding md5_OUT_def u unat_drop_bit_eq d four nat_to_le.simps by (rule refl)
qed

lemma md5_length_bytes:
  assumes "digests ctx m"
  shows "md5_OUT (push_bit 3 (md_lo ctx)) @ md5_OUT (md_hi ctx) = nat_to_le 8 (8 * length m)"
proof -
  let ?n = "length m"
  have lo: "unat (md_lo ctx) = ?n mod 536870912" and hi: "unat (md_hi ctx) = ?n div 536870912 mod 4294967296"
    using assms less_trans [OF mod_less_divisor [of 536870912 ?n], of 4294967296] by (simp_all add: digests_def unat_of_nat)
  have "unat (push_bit 3 (md_lo ctx)) = 8 * (?n mod 536870912) mod 4294967296"
    by (simp add: push_bit_eq_mult unat_word_ariths lo mult.commute)
  then have "md5_OUT (push_bit 3 (md_lo ctx)) = nat_to_le 4 (8 * ?n)"
    unfolding md5_OUT_le32 using nat_to_le_mod [of 4 "8 * ?n"] mult_mod_right [of 8 ?n 536870912] by simp
  moreover have "md5_OUT (md_hi ctx) = nat_to_le 4 (8 * ?n div 4294967296)"
    unfolding md5_OUT_le32 hi using nat_to_le_mod [of 4 "?n div 536870912"] div_mult_mult1 [of 8 ?n 536870912] by simp
  ultimately show ?thesis using nat_to_le_append [of 4 4 "8 * ?n"] by simp
qed

lemma store_after:
  "md_buffer ctx = a @ z \<Longrightarrow> length a = p \<Longrightarrow> length xs \<le> length z \<Longrightarrow>
     md5_store ctx p xs = Some (ctx\<lparr>md_buffer := a @ xs @ drop (length xs) z\<rparr>)"
  by (simp add: md5_store_def write_bytes_def)

lemma length_md5_OUT [simp]: "length (md5_OUT w) = 4"
  by (simp add: md5_OUT_def)

definition md5_result :: "md5_regs \<Rightarrow> byte list" where
  "md5_result s = (case s of (a, b, c, d) \<Rightarrow> md5_OUT a @ md5_OUT b @ md5_OUT c @ md5_OUT d)"

lemma md5_finish_block:
  assumes b: "md_buffer ctx = a @ z" "length a = used" "length z = 64 - used" and used: "used \<le> 56"
  shows "md5_finish ctx used (64 - used) = Some (md5_result (rfc_block (md_regs ctx)
      (a @ replicate (56 - used) 0 @ md5_OUT (push_bit 3 (md_lo ctx)) @ md5_OUT (md_hi ctx))), md5_zero)"
proof -
  let ?lo = "md5_OUT (push_bit 3 (md_lo ctx))" and ?hi = "md5_OUT (md_hi ctx)" and ?a = "a @ replicate (56 - used) 0"
  define z1 where "z1 = drop (56 - used) z"
  have z1: "length z1 = 8" using b(2,3) used by (simp add: z1_def)
  define c1 where "c1 = ctx\<lparr>md_buffer := ?a @ z1\<rparr>"
  have e: "64 - used - 8 = 56 - used" by simp
  have s1: "md5_store ctx used (replicate (56 - used) 0) = Some c1"
    using store_after [OF b(1,2), of "replicate (56 - used) 0"] b(3) by (simp add: c1_def z1_def)
  define c2 where "c2 = c1\<lparr>md_lo := push_bit 3 (md_lo c1)\<rparr>"
  have c2: "md_buffer c2 = ?a @ z1" "md5_OUT (md_lo c2) = ?lo" "md_hi c2 = md_hi ctx" "md_regs c2 = md_regs ctx" "length ?a = 56"
    using b(2) used by (simp_all add: c2_def c1_def)
  define c3 where "c3 = c2\<lparr>md_buffer := ?a @ ?lo @ drop 4 z1\<rparr>"
  have s2: "md5_store c2 56 ?lo = Some c3" using store_after [OF c2(1,5), of ?lo] z1 by (simp add: c3_def)
  define c4 where "c4 = c3\<lparr>md_buffer := ?a @ ?lo @ ?hi\<rparr>"
  have s3: "md5_store c3 60 ?hi = Some c4"
    using store_after [of c3 "?a @ ?lo" "drop 4 z1" 60 ?hi] z1 c2(5) by (simp add: c4_def c3_def)
  have "length (md_buffer c4) = 64" using c2(5) by (simp add: c4_def)
  from md5_body_buffer [OF this, of c4]
  have s4: "md5_body c4 (md_buffer c4) 64 = Some (set_regs (rfc_block (md_regs ctx) (?a @ ?lo @ ?hi)) c4, [])"
    using c2(4) by (simp add: c4_def c3_def)
  have h: "md_hi c3 = md_hi ctx" using c2(3) by (simp add: c3_def)
  have "md5_finish ctx used (64 - used) = (let c = set_regs (rfc_block (md_regs ctx) (?a @ ?lo @ ?hi)) c4 in
      Some (md5_OUT (md_a c) @ md5_OUT (md_b c) @ md5_OUT (md_c c) @ md5_OUT (md_d c), md5_zero))"
    unfolding md5_finish_def e s1 bind.bind_lunit Let_def c2_def [symmetric] c2(2) s2 h s3 s4 prod.case by (rule refl)
  then show ?thesis by (simp add: md5_result_def set_regs_def Let_def split: prod.splits)
qed

lemma MD5_Final_digests:
  assumes d: "digests ctx m"
  shows "MD5_Final ctx = Some (rfc_md5 m, md5_zero)"
proof -
  let ?u = "length m mod 64" and ?L = "nat_to_le 8 (8 * length m)"
  have u: "?u < 64" by simp
  define z where "z = drop ?u (md_buffer ctx)"
  have b: "md_buffer ctx = rest64 m @ z" "length (rest64 m) = ?u" "length z = 64 - ?u"
    using d append_take_drop_id [of ?u "md_buffer ctx"] by (simp_all add: digests_def z_def)
  define c1 where "c1 = ctx\<lparr>md_buffer := (rest64 m @ [0x80]) @ drop 1 z\<rparr>"
  have s1: "md5_store ctx ?u [0x80] = Some c1" using store_after [OF b(1,2), of "[0x80]"] b(3) u by (simp add: c1_def)
  have c1: "md_buffer c1 = (rest64 m @ [0x80]) @ drop 1 z" "length (rest64 m @ [0x80]) = ?u + 1" "length (drop 1 z) = 64 - (?u + 1)"
    "md_regs c1 = foldl rfc_block md5_iv (blocks64 m)" using b(3) d by (simp_all add: c1_def digests_def)
  have L: "md5_OUT (push_bit 3 (md_lo c1)) @ md5_OUT (md_hi c1) = ?L" using md5_length_bytes [OF d] by (simp add: c1_def)
  let ?p = "[0x80] @ replicate ((119 - ?u) mod 64) 0 @ ?L"
  have pad: "blocks64 (rfc_pad m) = blocks64 m @ blocks64 (rest64 m @ ?p)"
    unfolding rfc_pad_def using blocks64_extend [of m ?p] by simp
  have res: "rfc_md5 m = md5_result (foldl rfc_block md5_iv (blocks64 (rfc_pad m)))"
    by (simp add: rfc_md5_def md5_result_def md5_iv_def md5_OUT_le32)
  show ?thesis
  proof (cases "?u \<le> 55")
    case True
    then have k: "(119 - ?u) mod 64 = 55 - ?u" using mod_add_self2 [of "55 - ?u" 64] by simp
    have "blocks64 (rest64 m @ ?p) = [rest64 m @ ?p]"
      using blocks64_one [of "rest64 m @ ?p" "[]"] True k by (simp add: blocks64_short)
    moreover have "\<not> 64 - (?u + 1) < 8" using True by linarith
    then have "MD5_Final ctx = md5_finish c1 (?u + 1) (64 - (?u + 1))"
      using digests_used [OF d] s1 by (simp add: MD5_Final_def Let_def)
    ultimately show ?thesis using md5_finish_block [OF c1(1-3)] True c1(4) pad res k L by simp
  next
    case False
    then have k: "(119 - ?u) mod 64 = (63 - ?u) + 56" using u by simp
    let ?b1 = "rest64 m @ [0x80] @ replicate (63 - ?u) 0"
    have b1: "length ?b1 = 64" using u by simp
    define c2 where "c2 = c1\<lparr>md_buffer := ?b1\<rparr>"
    have s2: "md5_store c1 (?u + 1) (replicate (64 - (?u + 1)) 0) = Some c2"
      using store_after [OF c1(1,2), of "replicate (64 - (?u + 1)) 0"] c1(3) by (simp add: c2_def)
    define c3 where "c3 = set_regs (rfc_block (md_regs c1) ?b1) c2"
    have s3: "md5_body c2 (md_buffer c2) 64 = Some (c3, [])"
      using md5_body_buffer [OF b1, of c2] by (simp add: c2_def c3_def)
    have L3: "md5_OUT (push_bit 3 (md_lo c3)) @ md5_OUT (md_hi c3) = ?L" using L by (simp add: c3_def c2_def)
    have s4: "md5_finish c3 0 64 = Some (md5_result (rfc_block (md_regs c3) (replicate 56 0 @ ?L)), md5_zero)"
      using md5_finish_block [of c3 "[]" ?b1 0] b1 L3 by (simp add: c3_def c2_def)
    have "rest64 m @ ?p = ?b1 @ (replicate 56 0 @ ?L)" unfolding k replicate_add by simp
    then have "blocks64 (rest64 m @ ?p) = [?b1, replicate 56 0 @ ?L]"
      using blocks64_one [OF b1, of "replicate 56 0 @ ?L"] blocks64_one [of "replicate 56 0 @ ?L" "[]"] by (simp add: blocks64_short)
    moreover have "64 - (?u + 1) < 8" using False by linarith
    then have "md5_finish c3 0 64 = MD5_Final ctx"
      using digests_used [OF d] s1 s2 s3 by (simp add: MD5_Final_def Let_def)
    ultimately show ?thesis using s4 c1(4) by (simp add: pad res c3_def)
  qed
qed

subsection \<open>The interface of the digest\<close>

text \<open>
  What the callers in \<open>rhash.cpp\<close> rely on: after \<open>init\<close> a context has absorbed nothing, an
  update appends to what it has absorbed, and \<open>final\<close> gives the digest of all of it.
\<close>

primrec absorb_all :: "('c \<Rightarrow> byte list \<Rightarrow> 'c option) \<Rightarrow> 'c \<Rightarrow> byte list list \<Rightarrow> 'c option" where
  "absorb_all update c [] = Some c"
| "absorb_all update c (bs # bss) = do { c \<leftarrow> update c bs; absorb_all update c bss }"

locale incremental_hash =
  fixes ok :: "'c \<Rightarrow> bool" and init :: "'c \<Rightarrow> 'c" and update :: "'c \<Rightarrow> byte list \<Rightarrow> 'c option"
    and final :: "'c \<Rightarrow> (byte list \<times> 'c) option" and absorbed :: "'c \<Rightarrow> byte list \<Rightarrow> bool" and dig :: digest
  assumes init_absorbs: "ok c \<Longrightarrow> absorbed (init c) []"
    and update_absorbs: "absorbed c m \<Longrightarrow> \<exists>c'. update c bs = Some c' \<and> absorbed c' (m @ bs)"
    and final_digest: "absorbed c m \<Longrightarrow> \<exists>c'. final c = Some (dig m, c')"
begin

lemma feed_absorbs: "absorbed c m \<Longrightarrow> \<exists>c'. absorb_all update c bss = Some c' \<and> absorbed c' (m @ concat bss)"
proof (induction bss arbitrary: c m)
  case (Cons bs bss)
  obtain c1 where "update c bs = Some c1" "absorbed c1 (m @ bs)" using update_absorbs [OF Cons.prems] by blast
  then show ?case using Cons.IH [of c1 "m @ bs"] by auto
qed simp

lemma any_split: "ok c \<Longrightarrow> \<exists>c'. (do { c \<leftarrow> absorb_all update (init c) bss; final c }) = Some (dig (concat bss), c')"
proof -
  assume "ok c"
  then obtain c1 where "absorb_all update (init c) bss = Some c1" "absorbed c1 (concat bss)"
    using feed_absorbs [OF init_absorbs, of c bss] by auto
  then show ?thesis using final_digest [of c1 "concat bss"] by auto
qed

end

interpretation md5: incremental_hash "\<lambda>c. length (md_buffer c) = 64" MD5_Init MD5_Update MD5_Final digests rfc_md5
proof (unfold_locales)
  show "digests (MD5_Init c) []" if "length (md_buffer c) = 64" for c by (rule digests_Init [OF that])
  show "\<exists>c'. MD5_Update c bs = Some c' \<and> digests c' (m @ bs)" if "digests c m" for c m bs by (rule MD5_Update_digests [OF that])
  show "\<exists>c'. MD5_Final c = Some (rfc_md5 m, c')" if "digests c m" for c m using MD5_Final_digests [OF that] by blast
qed

lemma length_rfc_md5 [simp]: "length (rfc_md5 m) = 16"
  by (simp add: rfc_md5_def split: prod.split)

text \<open>
  C24: However the input is cut into calls of \<open>MD5_Update\<close>, the digest is the one RFC 1321 defines
  for the whole input, with its length counted modulo 64 bits; no access leaves the buffer of the
  context, whatever the context held before \<open>MD5_Init\<close>.
\<close>
theorem md5_implements_rfc1321:
  assumes "length (md_buffer ctx) = 64"
  shows "\<exists>ctx'. (do { ctx \<leftarrow> absorb_all MD5_Update (MD5_Init ctx) bss; MD5_Final ctx }) = Some (rfc_md5 (concat bss), ctx') \<and> length (rfc_md5 (concat bss)) = 16"
  using md5.any_split [OF assms, of bss] by (elim exE, intro exI conjI) (assumption, simp)

theorem md5_implements_rfc1321_witness:
  "\<exists>ctx'. (do { ctx \<leftarrow> absorb_all MD5_Update (MD5_Init md5_zero) [[97], [98, 99]]; MD5_Final ctx }) = Some (rfc_md5 [97, 98, 99], ctx')
     \<and> length (rfc_md5 [97, 98, 99]) = 16"
  using md5_implements_rfc1321 [of md5_zero "[[97], [98, 99]]"] by (simp add: md5_zero_def)

lemma md5_of_key_rfc: "length (md_buffer ctx) = 64 \<Longrightarrow> md5_of_key ctx key data = Some (rfc_md5 (key @ take 1 data))"
  using md5.any_split [of ctx "[key, take 1 data]"] by (auto simp: md5_of_key_def split: Option.bind_splits)

subsection \<open>The packet layer with this digest\<close>

text \<open>
  C23: With the digest of the repository the packet layer needs no assumption on it: both sides compute
  the same hash from a fresh context, whatever was on their stacks, and a packet that \<open>RConn::Output\<close>
  sends is accepted by the peer, which gets exactly the payload and the head; a longer payload is refused
  and nothing is sent.
\<close>
theorem wire_roundtrip_md5:
  assumes "ci_head (info_base info) = Some head" "head_wf head" "b \<noteq> []" "length (md_buffer ctx) = 64"
    and "\<And>c. info = UdpI c \<Longrightarrow> \<exists>k. KeyForConnInfo info = Some k \<and> StrForIntKey k \<in> set conns"
  shows "md5_of_key ctx key b = Some (rfc_md5 (key @ take 1 b)) \<and>
    (if length b \<le> 1469
     then \<exists>pkt r. length pkt = length b + 31
        \<and> RConn_Output True rfc_md5 key conns send info b s = Some (send r info pkt s) \<and> (r = RRaw \<longleftrightarrow> \<not> IsUdp info)
        \<and> RConn_OnRecv le rfc_md5 key peer pkt = Some (Deliver (set_head (Some (head\<lparr>eh_len := 23\<rparr>)) peer) b)
     else RConn_Output True rfc_md5 key conns send info b s = Some (-1, s))"
  using md5_of_key_rfc [OF assms(4)] wire_roundtrip [OF length_rfc_md5 assms(1-3,5)] by (rule conjI)

theorem wire_roundtrip_md5_witness:
  "\<exists>pkt. length pkt = 33
     \<and> RConn_Output True rfc_md5 [1, 2] [] (\<lambda>r i p (s :: unit). (int (length p), s))
          (TcpI (new_tcp_info\<lparr>ci_head := Some new_head\<rparr>)) [5, 6] () = Some (33, ())
     \<and> RConn_OnRecv True rfc_md5 [1, 2] (TcpI new_tcp_info) pkt
          = Some (Deliver (TcpI (new_tcp_info\<lparr>ci_head := Some new_head\<rparr>)) [5, 6])"
proof -
  have "new_head\<lparr>eh_len := 23\<rparr> = new_head" by (simp add: new_head_def)
  moreover have "ci_head (info_base (TcpI (new_tcp_info\<lparr>ci_head := Some new_head\<rparr>))) = Some new_head"
    by (simp add: base_of_def)
  ultimately show ?thesis
    using wire_roundtrip_md5 [where info = "TcpI (new_tcp_info\<lparr>ci_head := Some new_head\<rparr>)" and ctx = md5_zero
        and head = new_head and b = "[5, 6]" and conns = "[]" and key = "[1, 2]" and le = True and peer = "TcpI new_tcp_info"
        and send = "\<lambda>r i p (s :: unit). (int (length p), s)" and s = "()"] new_head_wf
    by (auto simp: md5_zero_def)
qed

subsection \<open>The identity\<close>

text \<open>Also on a context that was never initialised the operations stay within the buffer.\<close>

lemma MD5_Update_total:
  assumes "length (md_buffer ctx) = 64"
  shows "\<exists>ctx'. MD5_Update ctx bs = Some ctx' \<and> length (md_buffer ctx') = 64"
proof -
  let ?u = "unat (md_lo ctx AND 0x3f)" and ?c = "md5_count ctx (length bs)"
  have u: "?u < 64" by (simp add: used_is_mod)
  have c: "length (md_buffer ?c) = 64" using assms by (simp add: md5_count_def Let_def)
  have rest: "\<exists>ctx'. md5_rest ctx bs = Some ctx' \<and> length (md_buffer ctx') = 64" if "length (md_buffer ctx) = 64" for ctx bs
    using md5_rest_blocks [OF that, of bs] by auto
  have st: "md5_store ?c ?u xs = Some (?c\<lparr>md_buffer := take ?u (md_buffer ?c) @ xs @ drop (?u + length xs) (md_buffer ?c)\<rparr>)"
    if "length xs \<le> 64 - ?u" for xs using that u c by (simp add: md5_store_def write_bytes_def)
  consider "?u = 0" | "?u \<noteq> 0" "length bs < 64 - ?u" | "?u \<noteq> 0" "64 - ?u \<le> length bs" by linarith
  then show ?thesis
  proof cases
    case 1
    then show ?thesis using rest [OF c, of bs] by (simp add: MD5_Update_def Let_def)
  next
    case 2
    then show ?thesis using st [of bs] c u by (simp add: MD5_Update_def Let_def)
  next
    case 3
    let ?b = "take ?u (md_buffer ?c) @ take (64 - ?u) bs"
    have b: "length ?b = 64" using 3 u c by simp
    have s: "md5_store ?c ?u (take (64 - ?u) bs) = Some (?c\<lparr>md_buffer := ?b\<rparr>)" using st [of "take (64 - ?u) bs"] 3 u c by simp
    from md5_body_buffer [OF b] obtain c2 where c2: "md5_body (?c\<lparr>md_buffer := ?b\<rparr>) ?b 64 = Some (c2, [])" "length (md_buffer c2) = 64"
      using b by simp
    show ?thesis using rest [OF c2(2), of "drop (64 - ?u) bs"] 3 s c2(1) by (simp add: MD5_Update_def Let_def)
  qed
qed

lemma length_md5_result: "length (md5_result s) = 16"
  by (simp add: md5_result_def split: prod.split)

lemma MD5_Final_total:
  assumes "length (md_buffer ctx) = 64"
  shows "\<exists>r. MD5_Final ctx = Some (r, md5_zero) \<and> length r = 16"
proof -
  let ?u = "unat (md_lo ctx AND 0x3f)"
  let ?a = "take ?u (md_buffer ctx) @ [0x80]" and ?z = "drop (?u + 1) (md_buffer ctx)"
  have u: "?u < 64" by (simp add: used_is_mod)
  define c1 where "c1 = ctx\<lparr>md_buffer := ?a @ ?z\<rparr>"
  have s1: "md5_store ctx ?u [0x80] = Some c1" using u assms by (simp add: md5_store_def write_bytes_def c1_def)
  have a: "length ?a = ?u + 1" "length ?z = 64 - (?u + 1)" using u assms by simp_all
  show ?thesis
  proof (cases "64 - (?u + 1) < 8")
    case True
    let ?b = "?a @ replicate (64 - (?u + 1)) 0"
    have b: "length ?b = 64" using a u by simp
    have s2: "md5_store c1 (?u + 1) (replicate (64 - (?u + 1)) 0) = Some (c1\<lparr>md_buffer := ?b\<rparr>)"
      using store_after [of c1 ?a ?z "?u + 1" "replicate (64 - (?u + 1)) 0"] a by (simp add: c1_def)
    define c2 where "c2 = set_regs (rfc_block (md_regs c1) ?b) (c1\<lparr>md_buffer := ?b\<rparr>)"
    have s3: "md5_body (c1\<lparr>md_buffer := ?b\<rparr>) ?b 64 = Some (c2, [])" using md5_body_buffer [OF b, of "c1\<lparr>md_buffer := ?b\<rparr>"] by (simp add: c2_def)
    have "\<exists>r. md5_finish c2 0 64 = Some (r, md5_zero) \<and> length r = 16"
      using md5_finish_block [of c2 "[]" ?b 0] b length_md5_result by (simp add: c2_def)
    then show ?thesis using True s1 s2 s3 by (simp add: MD5_Final_def Let_def)
  next
    case False
    then have "\<exists>r. md5_finish c1 (?u + 1) (64 - (?u + 1)) = Some (r, md5_zero) \<and> length r = 16"
      using md5_finish_block [of c1 ?a ?z "?u + 1"] a length_md5_result by (simp add: c1_def)
    then show ?thesis using False s1 by (simp add: MD5_Final_def Let_def)
  qed
qed

text \<open>
  The identity of a client is always a value of its type, eight bytes: \<open>GenerateIdBuf\<close> runs the
  digest on a context that nobody initialised, but with any bits on the stack every access stays within
  the buffer and the digest has its 16 bytes.
\<close>
theorem id_buf_has_type:
  assumes "length (md_buffer ctx) = 64"
  shows "\<exists>i. GenerateIdBuf ctx sec addr key = Some i \<and> length i = ID_BUF_SIZE"
proof -
  define t where "t = take (12 + length key - 1) (six_columns (sec mod 709217) @ six_columns (addr mod 709217) @ key) @ [0]"
  obtain c1 where c1: "MD5_Update ctx t = Some c1" "length (md_buffer c1) = 64" using MD5_Update_total [OF assms] by blast
  obtain r where "MD5_Final c1 = Some (r, md5_zero)" "length r = 16" using MD5_Final_total [OF c1(2)] by blast
  then show ?thesis using c1(1) by (simp add: GenerateIdBuf_def Let_def t_def [simplified] ID_BUF_SIZE_def MD5_LEN_def)
qed

theorem id_buf_has_type_witness:
  "\<exists>i. GenerateIdBuf (md5_zero\<lparr>md_lo := 0xdeadbeef, md_hi := 7, md_a := 42\<rparr>) 1514764800 140737488355327 [104, 105] = Some i \<and> length i = 8"
  using id_buf_has_type [of "md5_zero\<lparr>md_lo := 0xdeadbeef, md_hi := 7, md_a := 42\<rparr>" 1514764800 140737488355327 "[104, 105]"]
  by (simp add: md5_zero_def ID_BUF_SIZE_def)

end
