(* ===== verification/Btm_Udp.thy ===== *)
theory Btm_Udp
  imports Config Md5
begin

section \<open>UDP at the bottom (conn/BtmUdpConn.cpp, net/NetUtil.cpp)\<close>

text \<open>
  The real UDP sockets below \<open>RConn\<close>: how they are bound and registered on the client and on the
  server, how a packet leaves through one of them and how a datagram comes in. libuv is a parameter
  (\<open>udp_ans\<close>: what the calls on one socket answer); sockets are numbers. Sent datagrams and closed
  sockets are the two components of \<open>udp_out\<close>. A failed assertion is \<^const>\<open>None\<close>.
\<close>

subsection \<open>Definitions\<close>

record btm_udp =
  bu_key :: string
  bu_udp :: "nat option"
  bu_info :: conn_info
  bu_srcInfo :: conn_info
  bu_inited :: bool
  bu_onRecvCb :: bool
  bu_stat :: data_stat

record udp_ans =
  ua_udp :: nat
  ua_bind :: int
  ua_name :: "int \<times> u32 \<times> u16"
  ua_recv_start :: int

record udp_out =
  uo_sent :: "(nat \<times> u32 \<times> u16 \<times> byte list) list"
  uo_closed :: "nat list"

definition new_BtmUdpConn :: "string \<Rightarrow> nat \<Rightarrow> conn_info \<Rightarrow> btm_udp" where
  "new_BtmUdpConn key udp info =
     \<lparr>bu_key = key, bu_udp = Some udp, bu_info = info, bu_srcInfo = new_conn_info, bu_inited = False, bu_onRecvCb = False, bu_stat = new_stat\<rparr>"

definition GetUdpSelfInfo :: "udp_ans \<Rightarrow> conn_info \<Rightarrow> int \<times> conn_info" where
  "GetUdpSelfInfo a info =
     (case ua_name a of (nret, addr, port) \<Rightarrow>
        if nret \<noteq> 0 then (nret, info) else (0, info\<lparr>ci_src := addr, ci_sp := port\<rparr>))"

definition CreateBtmUdpConn :: "udp_ans \<Rightarrow> conn_info \<Rightarrow> udp_out \<Rightarrow> (btm_udp option \<times> udp_out) option" where
  "CreateBtmUdpConn a info u =
     (if ua_bind a \<noteq> 0 then Some (None, u\<lparr>uo_closed := uo_closed u @ [ua_udp a]\<rparr>)
      else do {
        let selfInfo = snd (GetUdpSelfInfo a info);
        key \<leftarrow> KeyForConnInfo (UdpI selfInfo);
        Some (Some (new_BtmUdpConn (StrForIntKey key) (ua_udp a) selfInfo), u) })"

definition BtmUdp_Init :: "udp_ans \<Rightarrow> btm_udp \<Rightarrow> (int \<times> btm_udp) option" where
  "BtmUdp_Init a c =
     (if bu_inited c then None
      else (let c = c\<lparr>bu_inited := True\<rparr> in
        case ua_name a of (nret, addr, port) \<Rightarrow>
          if nret \<noteq> 0 then Some (nret, c)
          else if port = 0 then Some (-1, c)
          else if \<not> (ci_src (bu_info c) = addr \<and> ci_sp (bu_info c) = port) then None
          else (let c = c\<lparr>bu_srcInfo := (bu_srcInfo c)\<lparr>ci_dst := ci_src (bu_info c), ci_dp := ci_sp (bu_info c)\<rparr>\<rparr> in do {
            key \<leftarrow> KeyForUdp (bu_info c);
            if bu_key c \<noteq> StrForIntKey key then None else Some (ua_recv_start a, c) })))"

definition BtmUdp_Close :: "btm_udp \<Rightarrow> udp_out \<Rightarrow> btm_udp \<times> udp_out" where
  "BtmUdp_Close c u =
     (let c' = c\<lparr>bu_onRecvCb := False, bu_udp := None\<rparr> in
      case bu_udp c of None \<Rightarrow> (c', u) | Some h \<Rightarrow> (c', u\<lparr>uo_closed := uo_closed u @ [h]\<rparr>))"

text \<open>\<open>Output\<close> copies the packet and sends it to the address in the info; \<open>Send\<close> is the one of \<open>IConn\<close>.\<close>

definition BtmUdp_Output :: "btm_udp \<Rightarrow> conn_info \<Rightarrow> byte list \<Rightarrow> udp_out \<Rightarrow> (int \<times> udp_out) option" where
  "BtmUdp_Output c info b u =
     do { h \<leftarrow> bu_udp c; Some (int (length b), u\<lparr>uo_sent := uo_sent u @ [(h, ci_dst info, ci_dp info, b)]\<rparr>) }"

definition BtmUdp_Send :: "btm_udp \<Rightarrow> conn_info \<Rightarrow> byte list \<Rightarrow> udp_out \<Rightarrow> (int \<times> btm_udp \<times> udp_out) option" where
  "BtmUdp_Send c info b u =
     (if \<not> bu_inited c then None
      else do {
        (n, u) \<leftarrow> BtmUdp_Output c info b u;
        Some (n, c\<lparr>bu_stat := afterSend n (bu_stat c)\<rparr>, u) })"

definition fillInfo :: "u32 \<Rightarrow> u16 \<Rightarrow> btm_udp \<Rightarrow> btm_udp" where
  "fillInfo addr port c = c\<lparr>bu_info := (bu_info c)\<lparr>ci_dst := addr, ci_dp := port\<rparr>\<rparr>"

text \<open>\<open>up\<close> is the callback of the group, which gets the info of the connection itself.\<close>

definition udpRecv :: "'s conn_cb \<Rightarrow> u32 \<Rightarrow> u16 \<Rightarrow> byte list \<Rightarrow> btm_udp \<Rightarrow> 's \<Rightarrow> (btm_udp \<times> 's) option" where
  "udpRecv up addr port b c s =
     (let c = fillInfo addr port c in
      if \<not> bu_inited c then None
      else (let (n, s) = (if bu_onRecvCb c then up (UdpI (bu_info c)) b s else (0, s))
            in Some (c\<lparr>bu_stat := afterInput n (bu_stat c)\<rparr>, s)))"

definition BtmUdp_recv_cb :: "'s conn_cb \<Rightarrow> int \<Rightarrow> u32 \<Rightarrow> u16 \<Rightarrow> byte list \<Rightarrow> btm_udp \<Rightarrow> 's \<Rightarrow> (btm_udp \<times> 's) option" where
  "BtmUdp_recv_cb up nread addr port b c s = (if nread > 0 then udpRecv up addr port (take (nat nread) b) c s else Some (c, s))"

text \<open>
  \<open>bindUdpConns\<close>: one socket per pair of ports, pairs that fail are left out. \<open>AddUdpConn\<close> puts a
  connection into the map of \<open>RConn\<close> unless its key is there already and sets its callback.
\<close>

fun bind_loop :: "(nat \<Rightarrow> udp_ans) \<Rightarrow> nat \<Rightarrow> conn_info \<Rightarrow> (u16 \<times> u16) list \<Rightarrow> udp_out \<Rightarrow> (btm_udp list \<times> udp_out) option" where
  "bind_loop ans i info [] u = Some ([], u)"
| "bind_loop ans i info ((sp, dp) # ps) u =
     (let info = info\<lparr>ci_sp := sp, ci_dp := dp\<rparr> in do {
        (conn, u) \<leftarrow> CreateBtmUdpConn (ans i) info u;
        case conn of
          None \<Rightarrow> bind_loop ans (Suc i) info ps u
        | Some c \<Rightarrow> do {
            (n, c) \<leftarrow> BtmUdp_Init (ans i) c;
            if n = 0 then do { (cs, u) \<leftarrow> bind_loop ans (Suc i) info ps u; Some (c # cs, u) }
            else bind_loop ans (Suc i) info ps (snd (BtmUdp_Close c u)) } })"

definition bindUdpConns :: "(nat \<Rightarrow> udp_ans) \<Rightarrow> u32 \<Rightarrow> u16 list \<Rightarrow> u32 \<Rightarrow> u16 list \<Rightarrow> udp_out \<Rightarrow> (btm_udp list \<times> udp_out) option" where
  "bindUdpConns ans src ports dst svr_ports u =
     (if min (length ports) (length svr_ports) = 0 then None
      else bind_loop ans 0 (new_conn_info\<lparr>ci_src := src, ci_dst := dst\<rparr>) (zip ports svr_ports) u)"

definition AddUdpConn :: "btm_udp \<Rightarrow> (string \<times> btm_udp) list \<Rightarrow> (string \<times> btm_udp) list" where
  "AddUdpConn c m = map_emplace (<) (bu_key c) (c\<lparr>bu_onRecvCb := True\<rparr>) m"

definition CSockApp_CreateBtmConn :: "(nat \<Rightarrow> udp_ans) \<Rightarrow> rconfig \<Rightarrow> udp_out \<Rightarrow> ((string \<times> btm_udp) list \<times> udp_out) option" where
  "CSockApp_CreateBtmConn ans conf u =
     (if (of_int (cf_type conf) :: u32) AND of_int OM_PIPE_UDP \<noteq> 0 then
        (let svr_ports = fst (GetRawList (cf_capPorts conf)) in do {
           (cs, u) \<leftarrow> bindUdpConns ans (cf_selfCapInt conf) (replicate (length svr_ports) 0) (cf_targetCapInt conf) svr_ports u;
           Some (fold AddUdpConn cs [], u) })
      else Some ([], u))"

definition SSockApp_CreateBtmConn :: "(nat \<Rightarrow> udp_ans) \<Rightarrow> rconfig \<Rightarrow> udp_out \<Rightarrow> ((string \<times> btm_udp) list \<times> udp_out) option" where
  "SSockApp_CreateBtmConn ans conf u =
     (if (of_int (cf_type conf) :: u32) AND of_int OM_PIPE_UDP \<noteq> 0 then
        (let ports = fst (GetRawList (cf_capPorts conf)) in do {
           (cs, u) \<leftarrow> bindUdpConns ans (cf_selfCapInt conf) ports 0 (replicate (length ports) 0) u;
           Some (fold AddUdpConn cs [], u) })
      else Some ([], u))"

text \<open>
  The UDP side of \<open>RConn::Output\<close>: the connection under the key sends. The state is the map of
  \<open>RConn\<close> and what has left; the assertions of \<open>Send\<close> hold for every connection of the map.
\<close>

definition udp_route :: "route \<Rightarrow> any_info \<Rightarrow> byte list \<Rightarrow> (string \<times> btm_udp) list \<times> udp_out \<Rightarrow> int \<times> (string \<times> btm_udp) list \<times> udp_out" where
  "udp_route r info b s =
     (case (r, s) of
        (RUdp key, m, u) \<Rightarrow>
          (case map_find (<) key m of
             Some (_, c) \<Rightarrow>
               (case BtmUdp_Send c (info_base info) b u of
                  Some (n, c, u) \<Rightarrow> (n, map_assign (<) key c m, u)
                | None \<Rightarrow> (-1, m, u))
           | None \<Rightarrow> (-1, m, u))
      | (RRaw, m, u) \<Rightarrow> (-1, m, u))"

subsection \<open>What is registered\<close>

definition btm_ok :: "btm_udp \<Rightarrow> bool" where
  "btm_ok c \<longleftrightarrow> bu_inited c \<and> bu_udp c \<noteq> None \<and> (\<exists>k. KeyForUdp (bu_info c) = Some k \<and> bu_key c = StrForIntKey k)"

lemma created_ok:
  assumes "CreateBtmUdpConn a info u = Some (Some c, u')" "BtmUdp_Init b c = Some (0, c')"
  shows "btm_ok c' \<and> bu_onRecvCb c' = False"
  using assms
  by (auto simp: CreateBtmUdpConn_def BtmUdp_Init_def new_BtmUdpConn_def btm_ok_def Let_def KeyForUdp_def split: if_splits prod.splits Option.bind_splits)

lemma bind_loop_ok: "bind_loop ans i info ps u = Some (cs, u') \<Longrightarrow> list_all btm_ok cs"
proof (induction ps arbitrary: i info u cs)
  case (Cons p ps)
  obtain sp dp where p: "p = (sp, dp)" by (cases p)
  let ?info = "info\<lparr>ci_sp := sp, ci_dp := dp\<rparr>"
  obtain conn u1 where c: "CreateBtmUdpConn (ans i) ?info u = Some (conn, u1)" using Cons.prems p by (auto simp: Let_def split: Option.bind_splits)
  show ?case
  proof (cases conn)
    case None
    then show ?thesis using Cons.IH [of "Suc i" ?info u1 cs] Cons.prems c p by (simp add: Let_def)
  next
    case (Some b)
    then obtain n b' where b: "BtmUdp_Init (ans i) b = Some (n, b')" using Cons.prems c p by (auto simp: Let_def split: Option.bind_splits)
    show ?thesis
    proof (cases "n = 0")
      case True
      then obtain cs1 where "bind_loop ans (Suc i) ?info ps u1 = Some (cs1, u')" "cs = b' # cs1"
        using Cons.prems c Some b p by (auto simp: Let_def split: Option.bind_splits)
      then show ?thesis using Cons.IH [of "Suc i" ?info u1 cs1] created_ok [of "ans i" ?info u b u1 "ans i" b'] c Some b True by simp
    next
      case False
      then show ?thesis using Cons.IH [of "Suc i" ?info _ cs] Cons.prems c Some b p by (simp add: Let_def)
    qed
  qed
qed simp

definition udp_map_ok :: "(string \<times> btm_udp) list \<Rightarrow> bool" where
  "udp_map_ok m \<longleftrightarrow> map_wf (<) m \<and> (\<forall>e\<in>set m. btm_ok (snd e) \<and> bu_onRecvCb (snd e) \<and> bu_key (snd e) = fst e)"

lemma AddUdpConn_ok: "btm_ok c \<Longrightarrow> udp_map_ok m \<Longrightarrow> udp_map_ok (AddUdpConn c m)"
  using set_map_emplace [of "(<)" "bu_key c" "c\<lparr>bu_onRecvCb := True\<rparr>" m]
  by (auto simp: udp_map_ok_def AddUdpConn_def std_less.wf_emplace btm_ok_def)

lemma AddUdpConns_ok: "list_all btm_ok cs \<Longrightarrow> udp_map_ok m \<Longrightarrow> udp_map_ok (fold AddUdpConn cs m)"
  by (induction cs arbitrary: m) (simp_all add: AddUdpConn_ok)

lemma client_udp_map:
  assumes "CSockApp_CreateBtmConn ans conf u = Some (m, u')"
  shows "udp_map_ok m"
proof -
  have e: "udp_map_ok []" by (simp add: udp_map_ok_def)
  have "m = [] \<or> (\<exists>cs. m = fold AddUdpConn cs [] \<and> list_all btm_ok cs)"
    using assms by (auto simp: CSockApp_CreateBtmConn_def bindUdpConns_def Let_def split: if_splits Option.bind_splits dest: bind_loop_ok)
  then show ?thesis using e AddUdpConns_ok [OF _ e] by auto
qed

lemma udp_output_leaves:
  assumes m: "udp_map_ok m" and c: "(k, c) \<in> set m" and head: "head_wf head" and b: "b \<noteq> []" "length b \<le> 1469"
    and info: "KeyForUdp info = KeyForUdp (bu_info c)"
  shows "\<exists>h m' pkt. bu_udp c = Some h
    \<and> RConn_Output True rfc_md5 key (map fst m) udp_route (set_head (Some head) (UdpI info)) b (m, u)
        = Some (int (length pkt), m', u\<lparr>uo_sent := uo_sent u @ [(h, ci_dst info, ci_dp info, pkt)]\<rparr>)
    \<and> (\<forall>le peer. RConn_OnRecv le rfc_md5 key peer pkt = Some (Deliver (set_head (Some (head\<lparr>eh_len := 23\<rparr>)) peer) b))"
proof -
  have wf: "map_wf (<) m" and ok: "btm_ok c" "bu_key c = k" using m c by (auto simp: udp_map_ok_def)
  obtain kk h where kk: "KeyForUdp (bu_info c) = Some kk" "k = StrForIntKey kk" and h: "bu_udp c = Some h" and i: "bu_inited c"
    using ok by (auto simp: btm_ok_def)
  have kinfo: "KeyForUdp (info\<lparr>ci_head := Some head\<rparr>) = Some kk" using kk(1) info by (simp add: KeyForUdp_def split: if_splits)
  have find: "map_find (<) k m = Some (k, c)" using std_less.find_member [OF wf c] by simp
  define pkt where "pkt = md5_tail rfc_md5 key b @ head_bytes (head\<lparr>eh_len := 23\<rparr>) @ b"
  have wf23: "head_wf (head\<lparr>eh_len := 23\<rparr>)" using head by (simp add: head_wf_def)
  have lh: "length (md5_tail rfc_md5 key b) = 8" by (rule length_md5_tail) simp
  have built: "build_packet True rfc_md5 key head b = Some pkt"
    using build_packet_layout [OF length_rfc_md5 head b(1)] b(2) by (simp add: pkt_def)
  have recv: "\<forall>le peer. RConn_OnRecv le rfc_md5 key peer pkt = Some (Deliver (set_head (Some (head\<lparr>eh_len := 23\<rparr>)) peer) b)"
    using OnRecv_packet [OF lh wf23 _ b(1)] by (simp add: pkt_def)
  define m' where "m' = map_assign (<) k (c\<lparr>bu_stat := afterSend (int (length pkt)) (bu_stat c)\<rparr>) m"
  have "k \<in> set (map fst m)" using c by force
  then have "RConn_Output True rfc_md5 key (map fst m) udp_route (set_head (Some head) (UdpI info)) b (m, u)
      = Some (udp_route (RUdp k) (UdpI (info\<lparr>ci_head := Some head\<rparr>)) pkt (m, u))"
    using b built kinfo kk(2) by (simp add: RConn_Output_def base_of_def HASH_BUF_SIZE_def OM_MAX_PKT_SIZE_def)
  also have "\<dots> = Some (int (length pkt), m', u\<lparr>uo_sent := uo_sent u @ [(h, ci_dst info, ci_dp info, pkt)]\<rparr>)"
    using find h i by (simp add: udp_route_def BtmUdp_Send_def BtmUdp_Output_def m'_def base_of_def)
  finally show ?thesis using h recv by blast
qed

text \<open>
  C22: A client that binds its UDP sockets (some of the calls may fail) can answer on each of them: a
  datagram that arrives from the server port the socket was opened for is handed to the packet layer with
  the sender as the peer, and a payload sent to this peer leaves through the same socket, to the sender's
  address and port, as a packet the peer accepts.
\<close>
theorem client_udp_answers:
  assumes start: "CSockApp_CreateBtmConn ans conf u0 = Some (m, u)" and c: "(k, c) \<in> set m"
    and d: "d \<noteq> []" and head: "head_wf head" and b: "b \<noteq> []" "length b \<le> 1469"
  shows "let info = (bu_info c)\<lparr>ci_dst := addr\<rparr> in
    (\<exists>c'. BtmUdp_recv_cb up (int (length d)) addr (ci_dp (bu_info c)) d c s = Some (c', snd (up (UdpI info) d s)) \<and> bu_info c' = info)
    \<and> (\<exists>h m' pkt. bu_udp c = Some h
         \<and> RConn_Output True rfc_md5 key (map fst m) udp_route (set_head (Some head) (UdpI info)) b (m, u)
             = Some (int (length pkt), m', u\<lparr>uo_sent := uo_sent u @ [(h, addr, ci_dp (bu_info c), pkt)]\<rparr>)
         \<and> RConn_OnRecv le rfc_md5 key peer pkt = Some (Deliver (set_head (Some (head\<lparr>eh_len := 23\<rparr>)) peer) b))"
proof -
  let ?info = "(bu_info c)\<lparr>ci_dst := addr\<rparr>"
  have m: "udp_map_ok m" by (rule client_udp_map [OF start])
  have ok: "bu_inited c" "bu_onRecvCb c" using m c by (auto simp: udp_map_ok_def btm_ok_def)
  have up: "\<exists>c'. BtmUdp_recv_cb up (int (length d)) addr (ci_dp (bu_info c)) d c s = Some (c', snd (up (UdpI ?info) d s)) \<and> bu_info c' = ?info"
    using d ok by (simp add: BtmUdp_recv_cb_def udpRecv_def fillInfo_def Let_def split: prod.splits)
  have "KeyForUdp ?info = KeyForUdp (bu_info c)" by (simp add: KeyForUdp_def)
  from udp_output_leaves [OF m c head b this, of key u] obtain h m' pkt where o: "bu_udp c = Some h"
    "RConn_Output True rfc_md5 key (map fst m) udp_route (set_head (Some head) (UdpI ?info)) b (m, u)
      = Some (int (length pkt), m', u\<lparr>uo_sent := uo_sent u @ [(h, ci_dst ?info, ci_dp ?info, pkt)]\<rparr>)"
    "\<forall>le peer. RConn_OnRecv le rfc_md5 key peer pkt = Some (Deliver (set_head (Some (head\<lparr>eh_len := 23\<rparr>)) peer) b)" by (elim exE conjE) rule
  show ?thesis unfolding Let_def by (intro conjI up exI [of _ h] exI [of _ m'] exI [of _ pkt]) (use o in simp_all)
qed

text \<open>
  The server registers its sockets before it knows a peer: the key of a connection with the peer port 0
  fails the assertion of \<open>KeyForUdp\<close>, so in the modes \<open>udp\<close> and \<open>all\<close> the server stops at the first socket it binds.
\<close>

lemma server_udp_start_asserts:
  assumes "cf_type conf \<in> {OM_PIPE_UDP, OM_PIPE_ALL}" "fst (GetRawList (cf_capPorts conf)) \<noteq> []" "ua_bind (ans 0) = 0"
  shows "SSockApp_CreateBtmConn ans conf u = None"
proof -
  obtain p ps where p: "fst (GetRawList (cf_capPorts conf)) = p # ps" using assms(2) by (cases "fst (GetRawList (cf_capPorts conf))") auto
  have "(of_int (cf_type conf) :: u32) AND of_int OM_PIPE_UDP \<noteq> 0"
    using assms(1) by (auto simp: OM_PIPE_UDP_def OM_PIPE_ALL_def)
  then show ?thesis using assms(3) p
    by (simp add: SSockApp_CreateBtmConn_def bindUdpConns_def CreateBtmUdpConn_def GetUdpSelfInfo_def KeyForUdp_def Let_def split: prod.splits)
qed

theorem client_udp_answers_witness:
  "\<exists>ans conf m c k h m' pkt. CSockApp_CreateBtmConn ans conf \<lparr>uo_sent = [], uo_closed = []\<rparr> = Some (m, \<lparr>uo_sent = [], uo_closed = []\<rparr>) \<and> (k, c) \<in> set m
     \<and> RConn_Output True rfc_md5 [1, 2] (map fst m) udp_route (set_head (Some new_head) (UdpI ((bu_info c)\<lparr>ci_dst := 7\<rparr>))) [5, 6] (m, \<lparr>uo_sent = [], uo_closed = []\<rparr>)
         = Some (int (length pkt), m', \<lparr>uo_sent = [(h, 7, ci_dp (bu_info c), pkt)], uo_closed = []\<rparr>)"
proof -
  define ans where "ans = (\<lambda>i. \<lparr>ua_udp = i, ua_bind = 0, ua_name = (0, 1, 4000), ua_recv_start = 0\<rparr>)"
  define conf where "conf = (new_rconfig [])\<lparr>cf_type := OM_PIPE_UDP, cf_capPorts := AddPort16 new_port_list 80, cf_selfCapInt := 1, cf_targetCapInt := 2\<rparr>"
  let ?u = "\<lparr>uo_sent = [], uo_closed = []\<rparr>"
  have "\<exists>k c. CSockApp_CreateBtmConn ans conf ?u = Some ([(k, c)], ?u)"
    by (simp add: CSockApp_CreateBtmConn_def ans_def conf_def OM_PIPE_UDP_def GetRawList_def AddPort16_def new_port_list_def rebuild_def bindUdpConns_def
      CreateBtmUdpConn_def GetUdpSelfInfo_def KeyForUdp_def BtmUdp_Init_def new_BtmUdpConn_def AddUdpConn_def new_conn_info_def)
  then obtain k c where start: "CSockApp_CreateBtmConn ans conf ?u = Some ([(k, c)], ?u)" by blast
  have "(k, c) \<in> set [(k, c)]" by simp
  from client_udp_answers [OF start this, of "[9]" new_head "[5, 6]" 7 "\<lambda>i b s. (0, s)" "()" "[1, 2]" True "TcpI new_tcp_info"]
  obtain h m' pkt where "RConn_Output True rfc_md5 [1, 2] (map fst [(k, c)]) udp_route (set_head (Some new_head) (UdpI ((bu_info c)\<lparr>ci_dst := 7\<rparr>))) [5, 6] ([(k, c)], ?u)
      = Some (int (length pkt), m', \<lparr>uo_sent = [(h, 7, ci_dp (bu_info c), pkt)], uo_closed = []\<rparr>)"
    using new_head_wf by (auto simp: Let_def)
  then show ?thesis using start by (intro exI [of _ ans] exI [of _ conf] exI [of _ "[(k, c)]"] exI [of _ c] exI [of _ k] exI [of _ h] exI [of _ m'] exI [of _ pkt]) simp
qed

end
