(* ===== verification/Sync_Conn.thy ===== *)
theory Sync_Conn
  imports Raw_Tcp
begin

section \<open>The other ways into the event loop (src/sync, src/os/unix/conn)\<close>

text \<open>
  On Unix the capture thread hands its messages over through a pair of datagram sockets
  (\<open>UnixDgramSyncConn\<close>), on Windows through the stream of theory Stream_Sync. Here are the datagram pair
  with its queue in the kernel, the search for a good socket buffer, and the set-up and tear-down of both
  kinds, with every socket that is opened or closed in a trace. The system calls are parameters; a failed
  assertion and a use of a null handle are \<^const>\<open>None\<close>.
\<close>

subsection \<open>Socket buffers (\<open>ISyncConn::trySetGoodBufSize\<close>)\<close>

text \<open>
  \<open>accept n\<close> says whether the call that sets the size \<open>n\<close> returns 0. The result is the size that was set.
  Below 0 the halving would stop at 0 and never get below the base; the loop is not entered then,
  because 64 times a negative base is smaller than the base, so the model ends there.
\<close>

function good_size_loop :: "(int \<Rightarrow> bool) \<Rightarrow> int \<Rightarrow> int \<Rightarrow> int option" where
  "good_size_loop accept base sz =
     (if sz > base \<and> base \<ge> 0 then (if accept sz then Some sz else good_size_loop accept base (sz div 2)) else None)"
  by pat_completeness auto
termination
  by (relation "measure (\<lambda>(accept, base, sz). nat sz)") auto

declare good_size_loop.simps [simp del]

definition RSOCK_SOCK_BUF_TIMES :: int where "RSOCK_SOCK_BUF_TIMES = 64"

text \<open>A size that cannot be read is -1, and -1 times 64 is below it: the loop is not entered.\<close>

definition trySetGoodBufSize :: "(int \<Rightarrow> bool) \<Rightarrow> (int \<Rightarrow> bool) \<Rightarrow> int option \<Rightarrow> int option \<Rightarrow> int option \<times> int option" where
  "trySetGoodBufSize setSend setRecv sendSize recvSize =
     (case sendSize of None \<Rightarrow> None | Some n \<Rightarrow> good_size_loop setSend n (n * RSOCK_SOCK_BUF_TIMES),
      case recvSize of None \<Rightarrow> None | Some n \<Rightarrow> good_size_loop setRecv n (n * RSOCK_SOCK_BUF_TIMES))"

subsection \<open>Datagrams\<close>

text \<open>\<open>sendto\<close> on the pair appends to the queue of the reader.\<close>

definition dgram_doSend :: "byte list \<Rightarrow> byte list list \<Rightarrow> int \<times> byte list list" where
  "dgram_doSend b q = (if b \<noteq> [] then (int (length b), q @ [b]) else (0, q))"

definition IPacketSyncConn_Send :: "byte list \<Rightarrow> byte list list \<Rightarrow> int \<times> byte list list" where
  "IPacketSyncConn_Send b q = dgram_doSend b q"

text \<open>\<open>read\<close> takes one datagram off the queue and cuts it to the size of the buffer; an empty queue gives -1.\<close>

definition dgram_read :: "nat \<Rightarrow> byte list list \<Rightarrow> byte list option \<times> byte list list" where
  "dgram_read n q = (case q of [] \<Rightarrow> (None, []) | d # q \<Rightarrow> (Some (take n d), q))"

definition pollCb :: "'s sync_cb \<Rightarrow> int \<Rightarrow> bool \<Rightarrow> byte list list \<Rightarrow> 's \<Rightarrow> byte list list \<times> 's" where
  "pollCb cb status readable q s =
     (if status \<noteq> 0 then (q, s)
      else if readable then
        (case dgram_read OM_MAX_PKT_SIZE q of
           (Some x, q) \<Rightarrow> if x \<noteq> [] then (q, snd (cb x s)) else (q, s)
         | (None, q) \<Rightarrow> (q, s))
      else (q, s))"

definition udpCb :: "'s sync_cb \<Rightarrow> int \<Rightarrow> byte list \<Rightarrow> 's \<Rightarrow> 's" where
  "udpCb cb nread b s = (if nread > 0 then snd (cb (take (nat nread) b) s) else s)"

text \<open>Any interleaving of the capture thread and the event loop.\<close>

datatype dgram_step = DSend "byte list" | DPoll

primrec dgram_run :: "'s sync_cb \<Rightarrow> dgram_step list \<Rightarrow> byte list list \<Rightarrow> 's \<Rightarrow> byte list list \<times> 's" where
  "dgram_run cb [] q s = (q, s)"
| "dgram_run cb (e # es) q s =
     (case e of
        DSend b \<Rightarrow> dgram_run cb es (snd (IPacketSyncConn_Send b q)) s
      | DPoll \<Rightarrow> (case pollCb cb 0 True q s of (q, s) \<Rightarrow> dgram_run cb es q s))"

primrec sent_by :: "dgram_step list \<Rightarrow> byte list list" where
  "sent_by [] = []"
| "sent_by (e # es) = (case e of DSend b \<Rightarrow> b # sent_by es | DPoll \<Rightarrow> sent_by es)"

subsection \<open>Set-up and tear-down\<close>

datatype sock_event = FdOpen int | FdClose int | HandleOpen nat | HandleClose nat

record sock_pair =
  sp_writeFd :: int
  sp_readFd :: int
  sp_ptr :: "nat option"
  sp_trace :: "sock_event list"

definition new_sock_pair :: sock_pair where
  "new_sock_pair = \<lparr>sp_writeFd = -1, sp_readFd = -1, sp_ptr = None, sp_trace = []\<rparr>"

definition sp_emit :: "sock_event \<Rightarrow> sock_pair \<Rightarrow> sock_pair" where
  "sp_emit e c = c\<lparr>sp_trace := sp_trace c @ [e]\<rparr>"

record unix_ans =
  un_pair :: "(int \<times> int) option"
  un_poll_init :: int
  un_poll_start :: int
  un_handle :: nat

text \<open>\<open>poll_dgram_fd\<close>: a handle on the descriptor, or the error.\<close>

definition poll_dgram_fd :: "unix_ans \<Rightarrow> sock_pair \<Rightarrow> int \<times> sock_pair" where
  "poll_dgram_fd a c =
     (if un_poll_init a \<noteq> 0 then (un_poll_init a, c)
      else (let c = sp_emit (HandleOpen (un_handle a)) c in
        if un_poll_start a \<noteq> 0 then (un_poll_start a, sp_emit (HandleClose (un_handle a)) c)
        else (0, c\<lparr>sp_ptr := Some (un_handle a)\<rparr>)))"

text \<open>The result of \<open>socketpair\<close> is not looked at; \<open>checkFdType\<close> asserts that there is a descriptor.\<close>

definition Unix_CreateSockPair :: "unix_ans \<Rightarrow> sock_pair \<Rightarrow> (int \<times> sock_pair) option" where
  "Unix_CreateSockPair a c =
     (case un_pair a of
        None \<Rightarrow> None
      | Some (r, w) \<Rightarrow> Some (poll_dgram_fd a (sp_emit (FdOpen w) (sp_emit (FdOpen r) (c\<lparr>sp_writeFd := w, sp_readFd := r\<rparr>)))))"

definition IPacketSyncConn_CloseSockPair :: "sock_pair \<Rightarrow> sock_pair" where
  "IPacketSyncConn_CloseSockPair c =
     (let c = (if sp_writeFd c \<ge> 0 then sp_emit (FdClose (sp_writeFd c)) c else c);
          c = (case sp_ptr c of Some h \<Rightarrow> sp_emit (HandleClose h) c | None \<Rightarrow> c);
          c = (if sp_readFd c \<ge> 0 then sp_emit (FdClose (sp_readFd c)) c else c)
      in c\<lparr>sp_readFd := -1, sp_writeFd := -1, sp_ptr := None\<rparr>)"

definition Unix_CloseSockPair :: "sock_pair \<Rightarrow> sock_pair option" where
  "Unix_CloseSockPair c = (case sp_ptr c of None \<Rightarrow> None | Some _ \<Rightarrow> Some (IPacketSyncConn_CloseSockPair c))"

text \<open>The stream: a listening socket that accepts one connection from a thread of its own.\<close>

record stream_ans =
  st_listen :: int
  st_bind :: int
  st_name :: int
  st_listen_ret :: int
  st_read :: int
  st_write :: int
  st_open :: int
  st_start :: int
  st_handle :: nat

record stream_socks =
  ss_readStream :: "nat option"
  ss_writeSock :: int
  ss_trace :: "sock_event list"

definition ss_emit :: "sock_event list \<Rightarrow> stream_socks \<Rightarrow> stream_socks" where
  "ss_emit es c = c\<lparr>ss_trace := ss_trace c @ es\<rparr>"

definition fd_open :: "int \<Rightarrow> sock_event list" where
  "fd_open fd = (if fd \<ge> 0 then [FdOpen fd] else [])"

definition fd_close :: "int \<Rightarrow> sock_event list" where
  "fd_close fd = (if fd \<ge> 0 then [FdClose fd] else [])"

definition TcpStream_Init :: "stream_ans \<Rightarrow> stream_socks \<Rightarrow> (int \<times> stream_socks) option" where
  "TcpStream_Init a c =
     (if st_listen a < 0 then None
      else (let fail = (\<lambda>r w h c. Some (-1 :: int, ss_emit (fd_close (st_listen a) @ fd_close r @ fd_close w @ (case h of Some h \<Rightarrow> [HandleClose h] | None \<Rightarrow> [])) c));
                c = ss_emit (fd_open (st_listen a)) c
        in if st_bind a \<noteq> 0 \<or> st_name a \<noteq> 0 \<or> st_listen_ret a \<noteq> 0 then fail (-1) (-1) None c
        else (let c = ss_emit (fd_open (st_read a) @ fd_open (st_write a)) c in
          if st_read a = -1 then Some (0, ss_emit (fd_close (st_listen a)) (c\<lparr>ss_readStream := None, ss_writeSock := st_write a\<rparr>))
          else if st_write a = -1 then None
          else (let c = ss_emit [HandleOpen (st_handle a)] c in
            if st_open a \<noteq> 0 \<or> st_start a \<noteq> 0 then fail (st_read a) (st_write a) (Some (st_handle a)) c
            else Some (0, ss_emit (fd_close (st_listen a)) (c\<lparr>ss_readStream := Some (st_handle a), ss_writeSock := st_write a\<rparr>))))))"

definition TcpStream_Close :: "stream_socks \<Rightarrow> stream_socks" where
  "TcpStream_Close c =
     (let c = (case ss_readStream c of Some h \<Rightarrow> ss_emit [HandleClose h] (c\<lparr>ss_readStream := None\<rparr>) | None \<Rightarrow> c)
      in if ss_writeSock c \<ge> 0 then ss_emit (fd_close (ss_writeSock c)) (c\<lparr>ss_writeSock := -1\<rparr>) else c)"

subsection \<open>The buffer search ends\<close>

lemma negative_base_not_entered: "base < 0 \<Longrightarrow> \<not> base * RSOCK_SOCK_BUF_TIMES > base"
  by (simp add: RSOCK_SOCK_BUF_TIMES_def)

text \<open>The candidates are the sizes above the base that halving reaches, largest first.\<close>

lemma good_size_Some: "good_size_loop accept base sz = Some n \<Longrightarrow> accept n \<and> base < n \<and> n \<le> sz \<and> (\<exists>k. n = sz div 2 ^ k)"
proof (induction accept base sz rule: good_size_loop.induct)
  case (1 accept base sz)
  show ?case
  proof (cases "accept sz")
    case True
    then have "n = sz" "base < sz" using "1.prems" by (auto simp: good_size_loop.simps [of accept base sz] split: if_splits)
    then show ?thesis using True by (auto intro: exI [of _ 0])
  next
    case False
    then have g: "sz > base \<and> base \<ge> 0" and r: "good_size_loop accept base (sz div 2) = Some n"
      using "1.prems" by (auto simp: good_size_loop.simps [of accept base sz] split: if_splits)
    from "1.IH" [OF g False r] obtain k where "accept n" "base < n" "n \<le> sz div 2" "n = sz div 2 div 2 ^ k" by blast
    then show ?thesis using g by (auto simp: zdiv_zmult2_eq [symmetric] intro!: exI [of _ "Suc k"])
  qed
qed

lemma good_size_None: "good_size_loop accept base sz = None \<Longrightarrow> 0 \<le> base \<Longrightarrow> base < sz div 2 ^ k \<Longrightarrow> \<not> accept (sz div 2 ^ k)"
proof (induction accept base sz arbitrary: k rule: good_size_loop.induct)
  case (1 accept base sz)
  have "0 \<le> sz div 2 ^ k" using "1.prems"(2,3) by simp
  then have "0 \<le> sz" by (simp add: pos_imp_zdiv_nonneg_iff)
  then have "sz div 2 ^ k \<le> sz" using zdiv_mono2 [of sz 1 "2 ^ k"] by simp
  then have g: "sz > base \<and> base \<ge> 0" using "1.prems"(2,3) by simp
  then have a: "\<not> accept sz" "good_size_loop accept base (sz div 2) = None"
    using "1.prems"(1) by (auto simp: good_size_loop.simps [of accept base sz] split: if_splits)
  show ?case
  proof (cases k)
    case (Suc j)
    then have "sz div 2 ^ k = sz div 2 div 2 ^ j" by (simp add: zdiv_zmult2_eq)
    then show ?thesis using "1.IH" [OF g a(1,2) "1.prems"(2), of j] "1.prems"(3) by simp
  qed (use a in simp)
qed

subsection \<open>Datagrams arrive whole and in order\<close>

lemma pollCb_whole:
  "length d \<le> OM_MAX_PKT_SIZE \<Longrightarrow> d \<noteq> [] \<Longrightarrow> pollCb cb 0 True (d # q) s = (q, snd (cb d s))"
  by (simp add: pollCb_def dgram_read_def)

lemma pollCb_empty: "pollCb cb 0 True [] s = ([], s)"
  by (simp add: pollCb_def dgram_read_def)

lemma dgram_run_order:
  assumes "list_all (\<lambda>d. d \<noteq> [] \<and> length d \<le> OM_MAX_PKT_SIZE) (q @ sent_by es)"
  shows "\<exists>n. n \<le> length (q @ sent_by es)
    \<and> dgram_run cb es q s = (drop n (q @ sent_by es), fold (\<lambda>d s. snd (cb d s)) (take n (q @ sent_by es)) s)"
  using assms
proof (induction es arbitrary: q s)
  case (Cons e es)
  show ?case
  proof (cases e)
    case (DSend b)
    then have "dgram_run cb (e # es) q s = dgram_run cb es (q @ [b]) s"
      using Cons.prems by (simp add: IPacketSyncConn_Send_def dgram_doSend_def)
    then show ?thesis using Cons.IH [of "q @ [b]" s] Cons.prems DSend by simp
  next
    case DPoll
    show ?thesis
    proof (cases q)
      case Nil
      then show ?thesis using Cons.IH [of q s] Cons.prems DPoll by (simp add: pollCb_empty)
    next
      case (Cons d q')
      then have r: "dgram_run cb (e # es) q s = dgram_run cb es q' (snd (cb d s))" using Cons.prems DPoll by (simp add: pollCb_whole)
      obtain n where n: "n \<le> length (q' @ sent_by es)" "dgram_run cb es q' (snd (cb d s))
          = (drop n (q' @ sent_by es), fold (\<lambda>d s. snd (cb d s)) (take n (q' @ sent_by es)) (snd (cb d s)))"
        using Cons.IH [of q' "snd (cb d s)"] Cons.prems DPoll \<open>q = d # q'\<close> by auto
      show ?thesis unfolding r n(2) using n(1) Cons DPoll by (intro exI [of _ "Suc n"]) simp
    qed
  qed
qed (intro exI [of _ 0], simp)

subsection \<open>Sockets are closed once\<close>

text \<open>How often a descriptor is closed: directly, or with the handle that owns it.\<close>

definition fd_closed :: "(nat \<Rightarrow> int option) \<Rightarrow> sock_event list \<Rightarrow> int \<Rightarrow> nat" where
  "fd_closed owns tr fd = length (filter (\<lambda>e. e = FdClose fd \<or> (\<exists>h. e = HandleClose h \<and> owns h = Some fd)) tr)"

text \<open>A poll handle does not own its descriptor, a TCP handle owns the one it was opened on.\<close>

lemma unix_pair_closed_once:
  assumes "Unix_CreateSockPair a new_sock_pair = Some (0, c)" "un_pair a = Some (r, w)" "0 \<le> r" "0 \<le> w" "r \<noteq> w"
  shows "\<exists>c'. Unix_CloseSockPair c = Some c' \<and> fd_closed (\<lambda>_. None) (sp_trace c') r = 1 \<and> fd_closed (\<lambda>_. None) (sp_trace c') w = 1
     \<and> sp_trace c' = [FdOpen r, FdOpen w, HandleOpen (un_handle a), FdClose w, HandleClose (un_handle a), FdClose r]
     \<and> (sp_readFd c', sp_writeFd c', sp_ptr c') = (-1, -1, None)"
  using assms
  by (auto simp: Unix_CreateSockPair_def poll_dgram_fd_def new_sock_pair_def sp_emit_def Unix_CloseSockPair_def IPacketSyncConn_CloseSockPair_def Let_def fd_closed_def
    split: if_splits)

lemma unix_failed_start_faults:
  assumes "Unix_CreateSockPair a new_sock_pair = Some (n, c)" "n \<noteq> 0"
  shows "Unix_CloseSockPair c = None"
  using assms by (auto simp: Unix_CreateSockPair_def poll_dgram_fd_def new_sock_pair_def sp_emit_def Unix_CloseSockPair_def Let_def split: if_splits option.splits)

definition fresh_stream :: stream_socks where
  "fresh_stream = \<lparr>ss_readStream = None, ss_writeSock = -1, ss_trace = []\<rparr>"

lemma stream_closed_once:
  assumes "TcpStream_Init a fresh_stream = Some (0, c)" "st_read a \<noteq> -1"
    and "0 \<le> st_read a" "0 \<le> st_write a" "distinct [st_listen a, st_read a, st_write a]" "owns = (\<lambda>h. if h = st_handle a then Some (st_read a) else None)"
  shows "fd_closed owns (ss_trace (TcpStream_Close c)) (st_listen a) = 1 \<and> fd_closed owns (ss_trace (TcpStream_Close c)) (st_read a) = 1
    \<and> fd_closed owns (ss_trace (TcpStream_Close c)) (st_write a) = 1"
  using assms
  by (auto simp: TcpStream_Init_def TcpStream_Close_def fresh_stream_def ss_emit_def fd_open_def fd_close_def Let_def fd_closed_def split: if_splits)

text \<open>
  Two paths of \<open>TcpStreamSyncConn::Init\<close> are wrong: when reading cannot be started the accepted
  descriptor is closed by itself and again with its handle, and a failed \<open>accept\<close> counts as success.
\<close>

lemma stream_failed_start_closes_twice:
  assumes "0 \<le> st_listen a" "st_bind a = 0" "st_name a = 0" "st_listen_ret a = 0" "0 \<le> st_read a" "0 \<le> st_write a" "st_open a = 0" "st_start a \<noteq> 0"
    and "distinct [st_listen a, st_read a, st_write a]" "owns = (\<lambda>h. if h = st_handle a then Some (st_read a) else None)"
  shows "\<exists>c. TcpStream_Init a fresh_stream = Some (-1, c) \<and> fd_closed owns (ss_trace c) (st_read a) = 2"
  using assms by (auto simp: TcpStream_Init_def fresh_stream_def ss_emit_def fd_open_def fd_close_def Let_def fd_closed_def)

lemma stream_failed_accept_accepted:
  assumes "0 \<le> st_listen a" "st_bind a = 0" "st_name a = 0" "st_listen_ret a = 0" "st_read a = -1"
  shows "\<exists>c. TcpStream_Init a fresh_stream = Some (0, c) \<and> ss_readStream c = None"
  using assms by (auto simp: TcpStream_Init_def fresh_stream_def ss_emit_def Let_def)

end
