(* ===== verification/Sock_App.thy ===== *)
theory Sock_App
  imports Capture
begin

section \<open>The applications (src/ISockApp.cpp, client/csock.cpp, server/ssock.cpp)\<close>

text \<open>
  Start-up and shut-down of the two programs. Every component the application creates is a value of
  \<open>app_part\<close>; creating one and closing it are recorded in a trace. What the components answer to
  \<open>Init\<close> is a parameter (\<open>app_ans\<close>), so each start-up step may fail. Singletons are created on
  first use and may not be used again once destroyed. A failed assertion is \<^const>\<open>None\<close>.
\<close>

subsection \<open>Singletons (\<open>Singleton.cpp\<close>)\<close>

datatype singleton = NotCreated | Alive | Destroyed

definition GetInstance :: "singleton \<Rightarrow> singleton option" where
  "GetInstance s = (case s of NotCreated \<Rightarrow> Some Alive | Alive \<Rightarrow> Some Alive | Destroyed \<Rightarrow> None)"

text \<open>The second component says whether the instance was closed and deleted.\<close>

definition DestroyInstance :: "singleton \<Rightarrow> singleton \<times> bool" where
  "DestroyInstance s = (case s of Alive \<Rightarrow> (Destroyed, True) | _ \<Rightarrow> (s, False))"

subsection \<open>The application\<close>

datatype app_part =
    PLoop | PServices | PHandlerUtil | PNetObserver | PTimer | PAckPool | PNetManager | PCap | PBtm | PBridge | PSignal nat

datatype app_event = Acquire app_part | Release app_part

record sock_app =
  ap_server :: bool
  ap_inited :: bool
  ap_closing :: bool
  ap_loop :: bool
  ap_services :: singleton
  ap_handlerUtil :: singleton
  ap_netObserver :: bool
  ap_timer :: bool
  ap_ackPool :: bool
  ap_netManager :: bool
  ap_cap :: bool
  ap_btm :: bool
  ap_bridge :: bool
  ap_signals :: "nat list"
  ap_trace :: "app_event list"

record app_ans =
  an_root :: bool
  an_conf :: int
  an_os :: int
  an_daemon :: int
  an_log :: int
  an_services :: int
  an_netObserver :: int
  an_timer :: int
  an_ackPool :: int
  an_netManager :: int
  an_capCreated :: bool
  an_cap :: int
  an_btm :: int
  an_bridgeCreated :: bool
  an_bridge :: int
  an_signal :: "nat \<Rightarrow> bool"
  an_run :: int

definition new_sock_app :: "bool \<Rightarrow> sock_app" where
  "new_sock_app server = \<lparr>ap_server = server, ap_inited = False, ap_closing = False, ap_loop = False, ap_services = NotCreated, ap_handlerUtil = NotCreated,
     ap_netObserver = False, ap_timer = False, ap_ackPool = False, ap_netManager = False, ap_cap = False, ap_btm = False, ap_bridge = False,
     ap_signals = [], ap_trace = []\<rparr>"

definition ap_emit :: "app_event list \<Rightarrow> sock_app \<Rightarrow> sock_app" where
  "ap_emit es a = a\<lparr>ap_trace := ap_trace a @ es\<rparr>"

definition Parse_app :: "app_ans \<Rightarrow> int" where
  "Parse_app A = (if \<not> an_root A then -1 else an_conf A)"

text \<open>\<open>initSingletons\<close> and the creation of the three services.\<close>

definition initServices :: "app_ans \<Rightarrow> sock_app \<Rightarrow> (int \<times> sock_app) option" where
  "initServices A a = do {
     s \<leftarrow> GetInstance (ap_services a);
     h \<leftarrow> GetInstance (ap_handlerUtil a);
     let a = ap_emit ((if ap_services a = NotCreated then [Acquire PServices] else []) @ (if ap_handlerUtil a = NotCreated then [Acquire PHandlerUtil] else []))
       (a\<lparr>ap_services := s, ap_handlerUtil := h\<rparr>);
     if \<not> ap_loop a then None
     else Some (if an_services A \<noteq> 0 then -1 else 0, a) }"

definition initObservers :: "app_ans \<Rightarrow> sock_app \<Rightarrow> int \<times> sock_app" where
  "initObservers A a =
     (if \<not> ap_netObserver a then (an_netObserver A, ap_emit [Acquire PNetObserver] (a\<lparr>ap_netObserver := True\<rparr>)) else (-1, a))"

primrec watch_loop :: "app_ans \<Rightarrow> nat list \<Rightarrow> sock_app \<Rightarrow> sock_app" where
  "watch_loop A [] a = a"
| "watch_loop A (s # ss) a =
     watch_loop A ss (if an_signal A s then ap_emit [Acquire (PSignal s)] (a\<lparr>ap_signals := ap_signals a @ [s]\<rparr>) else a)"

definition watchExitSignals :: "app_ans \<Rightarrow> sock_app \<Rightarrow> sock_app" where
  "watchExitSignals A a = (if ap_signals a = [] then watch_loop A [2, 1] a else a)"

text \<open>\<open>doInit\<close>, cut where the code has its early returns.\<close>

definition init_conns :: "app_ans \<Rightarrow> sock_app \<Rightarrow> int \<times> sock_app" where
  "init_conns A a =
     (let a = (if an_capCreated A then ap_emit [Acquire PCap] (a\<lparr>ap_cap := True\<rparr>) else a) in
      if \<not> an_capCreated A \<or> an_cap A \<noteq> 0 then (-1, a)
      else (let a = ap_emit [Acquire PBtm] (a\<lparr>ap_btm := True\<rparr>) in
        if an_btm A \<noteq> 0 then (an_btm A, a)
        else (let a = (if an_bridgeCreated A then ap_emit [Acquire PBridge] (a\<lparr>ap_bridge := True\<rparr>) else a) in
          if \<not> an_bridgeCreated A \<or> an_bridge A \<noteq> 0 then (-1, a)
          else (0, (watchExitSignals A a)\<lparr>ap_inited := True\<rparr>))))"

definition App_doInit :: "app_ans \<Rightarrow> sock_app \<Rightarrow> (int \<times> sock_app) option" where
  "App_doInit A a =
     (if an_daemon A \<noteq> 0 then Some (-1, a)
      else (let a = ap_emit [Acquire PLoop] (a\<lparr>ap_loop := True\<rparr>) in
        if an_log A \<noteq> 0 then Some (-1, a)
        else do {
          (nret, a) \<leftarrow> initServices A a;
          if nret \<noteq> 0 then Some (nret, a)
          else (let (nret, a) = initObservers A a in
            if nret \<noteq> 0 then Some (nret, a)
            else (let a = ap_emit [Acquire PAckPool] (a\<lparr>ap_ackPool := True\<rparr>) in
              if an_ackPool A \<noteq> 0 then Some (an_ackPool A, a)
              else (let a = ap_emit [Acquire PNetManager] (a\<lparr>ap_netManager := True\<rparr>) in
                if an_netManager A \<noteq> 0 then Some (-1, a) else Some (init_conns A a)))) }))"

definition App_Init :: "app_ans \<Rightarrow> sock_app \<Rightarrow> (int \<times> sock_app) option" where
  "App_Init A a = (if an_os A \<noteq> 0 then Some (an_os A, a) else App_doInit A a)"

definition StartTimer :: "app_ans \<Rightarrow> sock_app \<Rightarrow> int \<times> sock_app" where
  "StartTimer A a = (if \<not> ap_timer a then (an_timer A, ap_emit [Acquire PTimer] (a\<lparr>ap_timer := True\<rparr>)) else (-1, a))"

definition App_Start :: "app_ans \<Rightarrow> sock_app \<Rightarrow> (int \<times> sock_app) option" where
  "App_Start A a = (if \<not> ap_inited a then None else Some (an_run A, snd (StartTimer A a)))"

definition destroySignals :: "sock_app \<Rightarrow> sock_app" where
  "destroySignals a = ap_emit (map (\<lambda>s. Release (PSignal s)) (ap_signals a)) (a\<lparr>ap_signals := []\<rparr>)"

definition destroyObservers :: "sock_app \<Rightarrow> sock_app" where
  "destroyObservers a =
     ap_emit ((if ap_netObserver a then [Release PNetObserver] else []) @ (if ap_timer a then [Release PTimer] else []))
       (a\<lparr>ap_netObserver := False, ap_timer := False\<rparr>)"

definition destroySingletons :: "sock_app \<Rightarrow> sock_app" where
  "destroySingletons a =
     (let (s, d1) = DestroyInstance (ap_services a); (h, d2) = DestroyInstance (ap_handlerUtil a)
      in ap_emit ((if d1 then [Release PServices] else []) @ (if d2 then [Release PHandlerUtil] else [])) (a\<lparr>ap_services := s, ap_handlerUtil := h\<rparr>))"

text \<open>The bridge closes the bottom connection itself.\<close>

definition close_conns :: "sock_app \<Rightarrow> sock_app" where
  "close_conns a =
     (let a = (if ap_cap a then ap_emit [Release PCap] (a\<lparr>ap_cap := False\<rparr>) else a);
          a = (if ap_bridge a then ap_emit ((if ap_btm a then [Release PBtm] else []) @ [Release PBridge]) (a\<lparr>ap_bridge := False, ap_btm := False\<rparr>) else a);
          a = (if ap_btm a then ap_emit [Release PBtm] (a\<lparr>ap_btm := False\<rparr>) else a);
          a = (if ap_netManager a then ap_emit [Release PNetManager] (a\<lparr>ap_netManager := False\<rparr>) else a)
      in if ap_ackPool a then ap_emit [Release PAckPool] (a\<lparr>ap_ackPool := False\<rparr>) else a)"

definition App_Close :: "sock_app \<Rightarrow> sock_app" where
  "App_Close a =
     (if ap_closing a then a
      else (let a = destroySingletons (close_conns (destroyObservers (destroySignals (a\<lparr>ap_closing := True\<rparr>))))
            in if ap_loop a then ap_emit [Release PLoop] (a\<lparr>ap_loop := False\<rparr>) else a))"

text \<open>
  \<open>csock_main\<close> and \<open>ssock_main\<close>: the server returns what the loop returned, the client 0; \<open>sig\<close> says
  whether an exit signal ends the loop with a \<open>Close\<close>.
\<close>

definition sock_main :: "app_ans \<Rightarrow> bool \<Rightarrow> bool \<Rightarrow> (int \<times> sock_app) option" where
  "sock_main A server sig = do {
     let a = new_sock_app server;
     let nret = Parse_app A;
     (nret, a) \<leftarrow> (if nret \<noteq> 0 then Some (nret, a)
        else do {
          (nret, a) \<leftarrow> App_Init A a;
          if nret \<noteq> 0 then Some (nret, a)
          else do { (run, a) \<leftarrow> App_Start A a; Some (if server then run else 0, if sig then App_Close a else a) } });
     Some (nret, App_Close a) }"

subsection \<open>Everything is released once\<close>

text \<open>
  A trace is legal when a part is acquired only while it is not there, released only while it is there, the
  parts that observe a service go before the services, and the loop goes last. The result is what is left.
\<close>

definition may_release :: "app_part \<Rightarrow> app_part list \<Rightarrow> bool" where
  "may_release p live \<longleftrightarrow> p \<in> set live \<and>
     (case p of
        PLoop \<Rightarrow> live = [PLoop]
      | PHandlerUtil \<Rightarrow> set live \<subseteq> {PLoop, PHandlerUtil}
      | PServices \<Rightarrow> set live \<subseteq> {PLoop, PHandlerUtil, PServices}
      | _ \<Rightarrow> PServices \<in> set live)"

fun app_replay :: "app_part list \<Rightarrow> app_event list \<Rightarrow> app_part list option" where
  "app_replay live [] = Some live"
| "app_replay live (Acquire p # es) = (if p \<in> set live then None else app_replay (p # live) es)"
| "app_replay live (Release p # es) = (if may_release p live then app_replay (remove1 p live) es else None)"

lemmas init_defs = App_Init_def App_doInit_def initServices_def initObservers_def init_conns_def GetInstance_def ap_emit_def new_sock_app_def

lemmas close_defs = App_Close_def destroySignals_def destroyObservers_def close_conns_def destroySingletons_def DestroyInstance_def ap_emit_def may_release_def

definition released :: "sock_app \<Rightarrow> bool" where
  "released a \<longleftrightarrow> app_replay [] (ap_trace a) = Some []
    \<and> \<not> (ap_loop a \<or> ap_netObserver a \<or> ap_timer a \<or> ap_ackPool a \<or> ap_netManager a \<or> ap_cap a \<or> ap_btm a \<or> ap_bridge a)
    \<and> ap_services a \<noteq> Alive \<and> ap_handlerUtil a \<noteq> Alive"

text \<open>The start-up is cut at its early returns; what is there at each of them is closed in the right order.\<close>

lemma failed_early:
  assumes "an_os A \<noteq> 0 \<or> an_daemon A \<noteq> 0 \<or> an_log A \<noteq> 0 \<or> an_services A \<noteq> 0 \<or> an_netObserver A \<noteq> 0"
  shows "\<exists>n a. App_Init A (new_sock_app server) = Some (n, a) \<and> n \<noteq> 0 \<and> released (App_Close a)"
proof -
  consider "an_os A \<noteq> 0" | "an_os A = 0" "an_daemon A \<noteq> 0" | "an_os A = 0" "an_daemon A = 0" "an_log A \<noteq> 0"
    | "an_os A = 0" "an_daemon A = 0" "an_log A = 0" "an_services A \<noteq> 0"
    | "an_os A = 0" "an_daemon A = 0" "an_log A = 0" "an_services A = 0" "an_netObserver A \<noteq> 0" using assms by blast
  then show ?thesis by cases (simp_all add: init_defs close_defs released_def)
qed

lemma failed_late:
  assumes "an_os A = 0" "an_daemon A = 0" "an_log A = 0" "an_services A = 0" "an_netObserver A = 0"
    and "an_ackPool A \<noteq> 0 \<or> an_netManager A \<noteq> 0 \<or> \<not> an_capCreated A \<or> an_cap A \<noteq> 0 \<or> an_btm A \<noteq> 0 \<or> \<not> an_bridgeCreated A \<or> an_bridge A \<noteq> 0"
  shows "\<exists>n a. App_Init A (new_sock_app server) = Some (n, a) \<and> n \<noteq> 0 \<and> released (App_Close a)"
proof -
  consider "an_ackPool A \<noteq> 0" | "an_ackPool A = 0" "an_netManager A \<noteq> 0" | "an_ackPool A = 0" "an_netManager A = 0" "\<not> an_capCreated A"
    | "an_ackPool A = 0" "an_netManager A = 0" "an_capCreated A" "an_cap A \<noteq> 0"
    | "an_ackPool A = 0" "an_netManager A = 0" "an_capCreated A" "an_cap A = 0" "an_btm A \<noteq> 0"
    | "an_ackPool A = 0" "an_netManager A = 0" "an_capCreated A" "an_cap A = 0" "an_btm A = 0" "\<not> an_bridgeCreated A"
    | "an_ackPool A = 0" "an_netManager A = 0" "an_capCreated A" "an_cap A = 0" "an_btm A = 0" "an_bridgeCreated A" "an_bridge A \<noteq> 0"
    using assms(6) by blast
  then show ?thesis by cases (simp_all add: assms(1-5) init_defs close_defs released_def)
qed

lemma closing_kept [simp]:
  "ap_closing (ap_emit es a) = ap_closing a" "ap_closing (destroySignals a) = ap_closing a" "ap_closing (destroyObservers a) = ap_closing a"
  "ap_closing (destroySingletons a) = ap_closing a" "ap_closing (close_conns a) = ap_closing a"
proof -
  show e: "ap_closing (ap_emit es a) = ap_closing a" for es a by (simp add: ap_emit_def)
  show "ap_closing (destroySignals a) = ap_closing a" "ap_closing (destroyObservers a) = ap_closing a" "ap_closing (destroySingletons a) = ap_closing a"
    by (simp_all add: e destroySignals_def destroyObservers_def destroySingletons_def split: prod.split)
  have "ap_closing (if P then ap_emit es b else a) = ap_closing a" if "ap_closing b = ap_closing a" for P es a b using that e by simp
  then show "ap_closing (close_conns a) = ap_closing a" unfolding close_conns_def Let_def by simp
qed

lemma App_Close_twice: "App_Close (App_Close a) = App_Close a"
proof -
  have "ap_closing (App_Close a)" by (simp add: App_Close_def Let_def)
  then show ?thesis by (simp add: App_Close_def [of "App_Close a"])
qed

lemma started_and_closed:
  assumes "an_os A = 0" "an_daemon A = 0" "an_log A = 0" "an_services A = 0" "an_netObserver A = 0" "an_ackPool A = 0" "an_netManager A = 0"
    "an_capCreated A" "an_cap A = 0" "an_btm A = 0" "an_bridgeCreated A" "an_bridge A = 0"
  shows "\<exists>a a'. App_Init A (new_sock_app server) = Some (0, a) \<and> App_Start A a = Some (an_run A, a') \<and> released (App_Close a')"
  by (cases "an_signal A 2"; cases "an_signal A 1")
     (simp_all add: assms init_defs watchExitSignals_def App_Start_def StartTimer_def close_defs released_def)


subsection \<open>What the two programs capture\<close>

definition CSockApp_CreateCap :: "rconfig \<Rightarrow> rcap" where
  "CSockApp_CreateCap conf = new_rcap (cf_dev conf) (cf_selfCapIp conf) new_port_list (cf_capPorts conf) (cf_targetIp conf) False"

definition SSockApp_CreateCap :: "rconfig \<Rightarrow> rcap" where
  "SSockApp_CreateCap conf = new_rcap (cf_dev conf) (cf_selfCapIp conf) (cf_capPorts conf) new_port_list [] True"

definition rcap_filter :: "rcap \<Rightarrow> cap_filter" where
  "rcap_filter c = filter_of ''tcp'' (rc_srcIp c) (rc_dstIp c) (rc_srcPorts c) (rc_destPorts c)"

lemma in_new_port_list [simp]: "in_list new_port_list p"
  by (simp add: in_list_def port_list_empty_def new_port_list_def)

text \<open>
  The client sees the segments of its server from the configured ports to its own address, the server what
  comes in for its own ports and the SYN segments that leave from them.
\<close>

lemma client_captures:
  assumes "cf_selfCapIp conf \<noteq> []" "cf_targetIp conf \<noteq> []" "\<not> port_list_empty (cf_capPorts conf)"
  shows "accepts (rcap_filter (CSockApp_CreateCap conf)) k \<longleftrightarrow> pk_proto k = ''tcp'' \<and> pk_src k = cf_targetIp conf \<and> pk_dst k = cf_selfCapIp conf
    \<and> pk_sport k \<in> set (fst (GetRawList ((cf_capPorts conf)\<lparr>mValid := False\<rparr>)))"
  using assms by (auto simp: rcap_filter_def CSockApp_CreateCap_def new_rcap_def accepts_filter_of in_list_def [of "cf_capPorts conf"])

lemma server_captures:
  assumes "cf_selfCapIp conf \<noteq> []" "\<not> port_list_empty (cf_capPorts conf)"
  shows "accepts (rcap_filter (SSockApp_CreateCap conf)) k \<longleftrightarrow> pk_proto k = ''tcp'' \<and> pk_dst k = cf_selfCapIp conf
      \<and> pk_dport k \<in> set (fst (GetRawList ((cf_capPorts conf)\<lparr>mValid := False\<rparr>)))"
    and "accepts (to_src (rcap_filter (SSockApp_CreateCap conf))) k \<longleftrightarrow> pk_proto k = ''tcp'' \<and> pk_src k = cf_selfCapIp conf
      \<and> pk_sport k \<in> set (fst (GetRawList ((cf_capPorts conf)\<lparr>mValid := False\<rparr>)))"
  using assms by (auto simp: rcap_filter_def SSockApp_CreateCap_def new_rcap_def accepts_filter_of in_list_def [of "cf_capPorts conf"])

end
