(* ===== verification/Bridge.thy ===== *)
theory Bridge
  imports Btm_Udp Client_Net Server_Group
begin

section \<open>Putting the client together (client/CSockApp.cpp, server/SSockApp.cpp)\<close>

text \<open>
  What \<open>CreateBridgeConn\<close> and \<open>CreateNetManager\<close> of the two applications build: on the client a group of
  network connections, one for every UDP socket of the packet layer and one for every server port that could
  be dialled, below the group of the applications; on the server the group of groups. New objects get the next free
  addresses of the heap. What the sockets answer to the dial of a port is a parameter. The connections in the map of the
  packet layer are the UDP ones, since the raw TCP connection is a member of its own, and \<open>Init\<close> of a connection either returns 0 or
  fails an assertion, so the other branches of the two loops are never taken.
\<close>

subsection \<open>Definitions\<close>

primrec addUdpNetConn :: "u64 \<Rightarrow> nat \<Rightarrow> (string \<times> btm_udp) list \<Rightarrow> net_group \<Rightarrow> (nat \<times> net_group) option" where
  "addUdpNetConn now a [] g = Some (a, g)"
| "addUdpNetConn now a (e # es) g = do {
     let info = bu_info (snd e);
     key \<leftarrow> KeyForConnInfo (UdpI info);
     c \<leftarrow> new_FakeUdp key info now;
     c \<leftarrow> Conn_Init c;
     g \<leftarrow> AddNetConn a (set_conn a c g);
     addUdpNetConn now (Suc a) es g }"

record dial_ans =
  da_sock :: sock_ans
  da_names :: sock_names
  da_wakes :: wake_ups
  da_now :: u64

primrec addTcpNetConn ::
  "(nat \<Rightarrow> dial_ans) \<Rightarrow> nat \<Rightarrow> nat \<Rightarrow> conn_info \<Rightarrow> u16 list \<Rightarrow> net_group \<Rightarrow> client_net \<Rightarrow> (nat \<times> net_group \<times> client_net) option" where
  "addTcpNetConn ans i a info [] g n = Some (a, g, n)"
| "addTcpNetConn ans i a info (dp # ps) g n = (let info = info\<lparr>ci_sp := 0, ci_dp := dp\<rparr> in do {
     (c, n) \<leftarrow> DialTcpSync (da_sock (ans i)) (da_names (ans i)) (da_wakes (ans i)) (da_now (ans i)) info n;
     case c of
       None \<Rightarrow> addTcpNetConn ans (Suc i) a info ps g n
     | Some c \<Rightarrow> do {
         c \<leftarrow> Conn_Init c;
         g \<leftarrow> AddNetConn a (set_conn a c g);
         addTcpNetConn ans (Suc i) (Suc a) info ps g n } })"

definition pipe_on :: "int \<Rightarrow> int \<Rightarrow> bool" where
  "pipe_on t pipe \<longleftrightarrow> (of_int t :: u32) AND of_int pipe \<noteq> 0"

text \<open>
  The result is the bridge, if there is one. \<open>this\<close> is the number of the group's handler. The two identifiers
  of the group are the ones of the configuration, and the sockets of the applications are opened later, by \<open>Init\<close>.
\<close>

definition CSockApp_CreateBridgeConn ::
  "nat \<Rightarrow> u64 \<Rightarrow> (nat \<Rightarrow> dial_ans) \<Rightarrow> rconfig \<Rightarrow> (string \<times> btm_udp) list \<Rightarrow> client_net \<Rightarrow> (app_group option \<times> client_net) option" where
  "CSockApp_CreateBridgeConn this now ans conf m n = do {
     let gid = id_string (cf_id conf);
     let g = SetNetConnErrorHandler (new_net_group gid (new_handler this True)) True;
     (a, g) \<leftarrow> (if pipe_on (cf_type conf) OM_PIPE_UDP then addUdpNetConn now 0 m g else Some (0, g));
     (a, g, n) \<leftarrow> (if pipe_on (cf_type conf) OM_PIPE_TCP
        then addTcpNetConn ans 0 a (new_conn_info\<lparr>ci_src := cf_selfCapInt conf, ci_dst := cf_targetCapInt conf\<rparr>) (fst (GetRawList (cf_capPorts conf))) g n
        else Some (a, g, n));
     if ng_mConns g = [] then do { _ \<leftarrow> Net_Close g; Some (None, n) }
     else do { A \<leftarrow> new_app_group gid True (cf_id conf) g (AfInet 0 0); Some (Some A, n) } }"

definition SSockApp_CreateNetManager :: "rconfig \<Rightarrow> port_list" where
  "SSockApp_CreateNetManager conf = (if \<not> pipe_on (cf_type conf) OM_PIPE_TCP then new_port_list else cf_capPorts conf)"

text \<open>The server's bridge has no groups yet; the target is where the data of the clients goes.\<close>

definition SSockApp_CreateBridgeConn :: "(string \<Rightarrow> u32) \<Rightarrow> rconfig \<Rightarrow> server_net \<Rightarrow> server_group" where
  "SSockApp_CreateBridgeConn ip_addr conf sn =
     \<lparr>sg_key = id_string (cf_id conf), sg_mConns = [], sg_mTarget = AfInet (ip_addr (cf_targetIp conf)) (cf_targetPort conf),
      sg_mNetManager = sn, sg_closed = []\<rparr>"

subsection \<open>Adding connections\<close>

lemma AddNetConn_heap:
  "AddNetConn a (set_conn a c g) = Some g' \<Longrightarrow> ng_heap g' = (ng_heap g)(a := Some (c\<lparr>nc_outputCb := True, nc_onRecvCb := True\<rparr>))"
  by (auto simp: AddNetConn_def IGroup_AddConn_def set_conn_def Let_def split: if_splits)

lemma net_wf_set_fresh:
  assumes "net_wf g" "ng_heap g a = None"
  shows "net_wf (set_conn a c g)"
proof -
  have na: "b \<noteq> a" if "(k, b) \<in> set (ng_mConnMap g)" for k b using net_wf_conn [OF assms(1) that] assms(2) by (metis option.distinct(1))
  have nb: "b \<noteq> a" if "b \<in> set (pending_dead g)" for b using assms that by (auto simp: net_wf_def)
  show ?thesis
    unfolding net_wf_def
  proof (intro conjI)
    show "\<forall>(k, b)\<in>set (ng_mConnMap (set_conn a c g)). \<exists>d. ng_heap (set_conn a c g) b = Some d \<and> nc_intKey d = k \<and> nc_inited d \<and> nc_outputCb d"
      using assms(1) na by (fastforce simp: net_wf_def set_conn_def)
    show "\<forall>b\<in>set (pending_dead (set_conn a c g)). ng_heap (set_conn a c g) b \<noteq> None"
      using assms(1) nb by (simp add: net_wf_def set_conn_def pending_dead_def)
  qed (use assms(1) in \<open>auto simp: net_wf_def pending_dead_def set_conn_def\<close>)
qed

text \<open>A connection whose key is taken is not put into the maps.\<close>

lemma AddNetConn_taken:
  assumes "net_wf g" "ng_heap g a = None" "map_find (<) (nc_intKey c) (ng_mConnMap g) \<noteq> None"
  shows "\<exists>g'. AddNetConn a (set_conn a c g) = Some g' \<and> net_wf g' \<and> ng_mConnMap g' = ng_mConnMap g"
proof -
  let ?c = "c\<lparr>nc_outputCb := True, nc_onRecvCb := True\<rparr>"
  have wf: "map_wf (<) (ng_mConns g)" "map_wf (<) (ng_mConnMap g)" using assms(1) by (simp_all add: net_wf_def)
  obtain b where b: "(nc_intKey c, b) \<in> set (ng_mConnMap g)" using assms(3) by (auto dest: map_find_SomeD)
  then have "(StrForIntKey (nc_intKey c), b) \<in> set (ng_mConns g)" using assms(1) by (force simp: net_wf_def)
  then have "map_find (<) (StrForIntKey (nc_intKey c)) (ng_mConns g) \<noteq> None" using std_less.find_member [OF wf(1)] by force
  then have "AddNetConn a (set_conn a c g) = Some (set_conn a ?c g)"
    using assms(3) wf net_wf_length [OF assms(1)]
    by (simp add: AddNetConn_def IGroup_AddConn_def set_conn_def Group_Size_def std_less.emplace_present Let_def)
  moreover have "ng_mConnMap (set_conn a ?c g) = ng_mConnMap g" by (simp add: set_conn_def)
  ultimately show ?thesis using net_wf_set_fresh [OF assms(1,2), of ?c] by blast
qed

text \<open>The group has grown by objects at the addresses from \<open>a\<close> up to \<open>a'\<close>.\<close>

definition grown :: "nat \<Rightarrow> net_group \<Rightarrow> nat \<Rightarrow> net_group \<Rightarrow> bool" where
  "grown a g a' g' \<longleftrightarrow> net_wf g' \<and> a \<le> a' \<and> (\<forall>b \<ge> a'. ng_heap g' b = None)
     \<and> set (ng_mConnMap g) \<subseteq> set (ng_mConnMap g') \<and> (\<forall>b < a. ng_heap g' b = ng_heap g b)"

lemma grown_refl: "net_wf g \<Longrightarrow> \<forall>b \<ge> a. ng_heap g b = None \<Longrightarrow> grown a g a g"
  by (simp add: grown_def)

lemma grown_trans: "grown a g b h \<Longrightarrow> grown b h c k \<Longrightarrow> grown a g c k"
  by (auto simp: grown_def)

lemma AddNetConn_grown:
  assumes "net_wf g" "\<forall>b \<ge> a. ng_heap g b = None" "nc_inited c"
  shows "\<exists>g'. AddNetConn a (set_conn a c g) = Some g' \<and> grown a g (Suc a) g'
    \<and> set (ng_mConnMap g') = (if map_find (<) (nc_intKey c) (ng_mConnMap g) = None then insert (nc_intKey c, a) (set (ng_mConnMap g)) else set (ng_mConnMap g))
    \<and> ng_heap g' a = Some (c\<lparr>nc_outputCb := True, nc_onRecvCb := True\<rparr>)"
proof -
  have a: "ng_heap g a = None" using assms(2) by simp
  obtain g' where g': "AddNetConn a (set_conn a c g) = Some g'" "net_wf g'"
    "set (ng_mConnMap g') = (if map_find (<) (nc_intKey c) (ng_mConnMap g) = None then insert (nc_intKey c, a) (set (ng_mConnMap g)) else set (ng_mConnMap g))"
    using AddNetConn_ok [OF assms(1) a assms(3)] AddNetConn_taken [OF assms(1) a, of c]
    by (cases "map_find (<) (nc_intKey c) (ng_mConnMap g) = None") auto
  then show ?thesis using AddNetConn_heap [OF g'(1)] assms(2) by (auto simp: grown_def)
qed

lemma udp_conn_init:
  assumes "KeyForUdp info = Some key"
  shows "\<exists>c c'. new_FakeUdp key info now = Some c \<and> Conn_Init c = Some c' \<and> nc_inited c' \<and> nc_intKey c' = key \<and> nc_info c' = UdpI info"
  using assms by (simp add: new_FakeUdp_def new_net_conn_def Conn_Init_def INetConn_Init_def)

lemma addUdpNetConn_ok:
  assumes "net_wf g" "\<forall>b \<ge> a. ng_heap g b = None" "udp_map_ok es"
    and "\<forall>e \<in> set es. \<forall>k. KeyForUdp (bu_info (snd e)) = Some k \<longrightarrow> map_find (<) k (ng_mConnMap g) = None"
  shows "\<exists>a' g'. addUdpNetConn now a es g = Some (a', g') \<and> grown a g a' g'
    \<and> (\<forall>e \<in> set es. \<exists>k b d. KeyForUdp (bu_info (snd e)) = Some k \<and> (k, b) \<in> set (ng_mConnMap g') \<and> ng_heap g' b = Some d \<and> nc_info d = UdpI (bu_info (snd e)))
    \<and> (\<forall>b d. ng_heap g' b = Some d \<longrightarrow> ng_heap g b = Some d \<or> (\<exists>e \<in> set es. nc_info d = UdpI (bu_info (snd e))))"
  using assms
proof (induction es arbitrary: a g)
  case Nil
  then show ?case by (simp add: grown_refl)
next
  case (Cons e es)
  obtain k where k: "KeyForUdp (bu_info (snd e)) = Some k" "fst e = StrForIntKey k"
    using Cons.prems(3) by (auto simp: udp_map_ok_def btm_ok_def)
  obtain c c' where c: "new_FakeUdp k (bu_info (snd e)) now = Some c" "Conn_Init c = Some c'" "nc_inited c'" "nc_intKey c' = k" "nc_info c' = UdpI (bu_info (snd e))"
    using udp_conn_init [OF k(1)] by blast
  obtain g1 where g1: "AddNetConn a (set_conn a c' g) = Some g1" "grown a g (Suc a) g1" "set (ng_mConnMap g1) = insert (k, a) (set (ng_mConnMap g))"
    "ng_heap g1 a = Some (c'\<lparr>nc_outputCb := True, nc_onRecvCb := True\<rparr>)"
    using AddNetConn_grown [OF Cons.prems(1,2) c(3)] Cons.prems(4) k(1) c(4) by auto
  have wf1: "net_wf g1" "\<forall>b \<ge> Suc a. ng_heap g1 b = None" using g1(2) by (simp_all add: grown_def)
  have ok: "udp_map_ok es" using Cons.prems(3) by (simp add: udp_map_ok_def)
  have fresh: "map_find (<) j (ng_mConnMap g1) = None" if "e' \<in> set es" "KeyForUdp (bu_info (snd e')) = Some j" for e' j
  proof -
    have "fst e < fst e'" "fst e' = StrForIntKey j" using Cons.prems(3) that by (auto simp: udp_map_ok_def btm_ok_def)
    then have "j \<noteq> k" using k(2) by auto
    moreover have "map_find (<) j (ng_mConnMap g) = None" using Cons.prems(4) that by auto
    ultimately show ?thesis using g1(3) by (auto simp: map_find_None_iff)
  qed
  obtain a' g' where g': "addUdpNetConn now (Suc a) es g1 = Some (a', g')" "grown (Suc a) g1 a' g'"
    "\<forall>e \<in> set es. \<exists>k b d. KeyForUdp (bu_info (snd e)) = Some k \<and> (k, b) \<in> set (ng_mConnMap g') \<and> ng_heap g' b = Some d \<and> nc_info d = UdpI (bu_info (snd e))"
    "\<forall>b d. ng_heap g' b = Some d \<longrightarrow> ng_heap g1 b = Some d \<or> (\<exists>e \<in> set es. nc_info d = UdpI (bu_info (snd e)))"
    using Cons.IH [OF wf1 ok] fresh by (elim meta_impE exE conjE) blast+
  have "addUdpNetConn now a (e # es) g = Some (a', g')" using k(1) c(1,2) g1(1) g'(1) by (simp add: KeyForUdp_def)
  moreover have "(k, a) \<in> set (ng_mConnMap g')" "ng_heap g' a = ng_heap g1 a" using g'(2) g1(3) by (auto simp: grown_def)
  moreover have "ng_heap g b = Some d \<or> (\<exists>e' \<in> set (e # es). nc_info d = UdpI (bu_info (snd e')))" if "ng_heap g' b = Some d" for b d
    using g'(4) that AddNetConn_heap [OF g1(1)] c(5) by (cases "b = a") force+
  ultimately show ?case using grown_trans [OF g1(2) g'(2)] g'(3) k(1) g1(4) c(5) by (intro exI [of _ a'] exI [of _ g']) auto
qed

lemma createINetConn_init:
  assumes "createINetConn names wakes now tcp n = Some (Some c, n')"
  shows "\<exists>c'. Conn_Init c = Some c' \<and> nc_inited c' \<and> nc_tcp c' = Some tcp \<and> Conn_Alive c'"
  using assms
  by (auto simp: createINetConn_def new_FakeTcp_def new_net_conn_def Conn_Init_def INetConn_Init_def Conn_Alive_def split: prod.splits Option.bind_splits if_splits)

definition dial_ans_ok :: "dial_ans \<Rightarrow> bool" where
  "dial_ans_ok d \<longleftrightarrow> timeout \<in> fst ` set (da_wakes d) \<and> names_ok (da_names d)"

lemma DialTcpSync_ok:
  assumes "dial_ans_ok d" "cn_ackPool n \<noteq> None"
  shows "\<exists>c n'. DialTcpSync (da_sock d) (da_names d) (da_wakes d) (da_now d) info n = Some (c, n') \<and> cn_ackPool n' \<noteq> None
    \<and> (\<forall>x. c = Some x \<longrightarrow> (\<exists>y. Conn_Init x = Some y \<and> nc_inited y \<and> Conn_Alive y))"
proof (cases "fst (CreateTcp (da_sock d) info)")
  case None
  then show ?thesis using assms(2) by (simp add: DialTcpSync_def)
next
  case (Some tcp)
  obtain c pool where c: "createINetConn (da_names d) (da_wakes d) (da_now d) tcp n = Some (c, n\<lparr>cn_ackPool := Some pool\<rparr>)"
    using createINetConn_returns assms unfolding dial_ans_ok_def by blast
  then show ?thesis using Some createINetConn_init by (cases c) (force simp: DialTcpSync_def)+
qed

lemma addTcpNetConn_ok:
  assumes "net_wf g" "\<forall>b \<ge> a. ng_heap g b = None" "\<forall>i. dial_ans_ok (ans i)" "cn_ackPool n \<noteq> None"
  shows "\<exists>a' g' n'. addTcpNetConn ans i a info ps g n = Some (a', g', n') \<and> grown a g a' g' \<and> cn_ackPool n' \<noteq> None"
  using assms(1,2,4)
proof (induction ps arbitrary: i a g n info)
  case Nil
  then show ?case by (simp add: grown_refl)
next
  case (Cons dp ps)
  let ?info = "info\<lparr>ci_sp := 0, ci_dp := dp\<rparr>"
  have "dial_ans_ok (ans i)" using assms(3) by blast
  from DialTcpSync_ok [OF this Cons.prems(3), of ?info] obtain c n1
    where d: "DialTcpSync (da_sock (ans i)) (da_names (ans i)) (da_wakes (ans i)) (da_now (ans i)) ?info n = Some (c, n1)" "cn_ackPool n1 \<noteq> None"
      "\<forall>x. c = Some x \<longrightarrow> (\<exists>y. Conn_Init x = Some y \<and> nc_inited y \<and> Conn_Alive y)" by (elim exE conjE) rule
  show ?case
  proof (cases c)
    case None
    then show ?thesis using Cons.IH [OF Cons.prems(1,2) d(2), of "Suc i" ?info] d(1) by (simp add: Let_def)
  next
    case (Some x)
    then obtain y where y: "Conn_Init x = Some y" "nc_inited y" using d(3) by blast
    obtain g1 where g1: "AddNetConn a (set_conn a y g) = Some g1" "grown a g (Suc a) g1" using AddNetConn_grown [OF Cons.prems(1,2) y(2)] by blast
    then have "net_wf g1" "\<forall>b \<ge> Suc a. ng_heap g1 b = None" by (simp_all add: grown_def)
    from Cons.IH [OF this d(2), of "Suc i" ?info] obtain a' g' n' where
      r: "addTcpNetConn ans (Suc i) (Suc a) ?info ps g1 n1 = Some (a', g', n')" "grown (Suc a) g1 a' g'" "cn_ackPool n' \<noteq> None" by (elim exE conjE) rule
    then show ?thesis using grown_trans [OF g1(2) r(2)] d(1) Some y(1) g1(1) by (simp add: Let_def)
  qed
qed

lemma new_group_wf: "net_wf (SetNetConnErrorHandler (new_net_group gid (new_handler h True)) True)"
  by (simp add: net_wf_def new_net_group_def new_handler_def pending_dead_def handler_wf_def expiries_def SetNetConnErrorHandler_def)

lemma Net_Close_empty: "ng_mConns g = [] \<Longrightarrow> \<exists>g'. Net_Close g = Some g'"
  by (simp add: Net_Close_def)

lemma new_client_group:
  assumes "net_wf g" "length idb = ID_BUF_SIZE"
  shows "\<exists>A. new_app_group (id_string idb) True idb g t = Some A \<and> client_wf A \<and> ag_net A = g \<and> ag_isClient A"
  using assms by (simp add: new_app_group_def Str2IdBuf_def app_wf_def client_wf_def id_string_def IdBuf2Str_def)

lemma grown_udp:
  assumes ok: "udp_map_ok m"
    and conns: "\<forall>e \<in> set m. \<exists>k b d. KeyForUdp (bu_info (snd e)) = Some k \<and> (k, b) \<in> set (ng_mConnMap g) \<and> ng_heap g b = Some d \<and> nc_info d = UdpI (bu_info (snd e))"
    and fresh: "\<forall>b \<ge> a. ng_heap g b = None" and grown: "grown a g a' g'" and e: "(s, c) \<in> set m"
  shows "\<exists>k b d. KeyForUdp (bu_info c) = Some k \<and> s = StrForIntKey k \<and> ConnOfIntKey g' k = Some (Some b)
    \<and> ng_heap g' b = Some d \<and> nc_info d = UdpI (bu_info c) \<and> Conn_Alive d"
proof -
  have wf: "net_wf g'" using grown by (simp add: grown_def)
  obtain k b d where k: "KeyForUdp (bu_info c) = Some k" "(k, b) \<in> set (ng_mConnMap g)" "ng_heap g b = Some d" "nc_info d = UdpI (bu_info c)"
    using conns e by force
  have "b < a" using k(3) fresh by (metis not_less option.distinct(1))
  then have "ng_heap g' b = Some d" "(k, b) \<in> set (ng_mConnMap g')" using grown k(2,3) by (auto simp: grown_def)
  moreover have "s = StrForIntKey k" using ok e k(1) by (auto simp: udp_map_ok_def btm_ok_def)
  moreover have "Conn_Alive d" using k(4) by (simp add: Conn_Alive_def)
  ultimately show ?thesis using k(1,4) ConnOfIntKey_map [OF wf] map_of_conn [OF wf] by (intro exI [of _ k] exI [of _ b] exI [of _ d]) simp
qed


subsection \<open>From the start to the wire\<close>

text \<open>The way down of a client: the packet layer over its UDP sockets; a failed assertion is -1 here.\<close>

definition udp_out_cb :: "byte list \<Rightarrow> string list \<Rightarrow> ((string \<times> btm_udp) list \<times> udp_out) conn_cb" where
  "udp_out_cb key conns info b s = (case RConn_Output True rfc_md5 key conns udp_route info b s of Some r \<Rightarrow> r | None \<Rightarrow> (-1, s))"

lemma udp_bridge:
  assumes start: "CSockApp_CreateBtmConn uans conf u0 = Some (m, u)" and mode: "cf_type conf = OM_PIPE_UDP" and m: "m \<noteq> []"
    and idb: "length (cf_id conf) = ID_BUF_SIZE"
  shows "\<exists>A. CSockApp_CreateBridgeConn this now ans conf m n = Some (Some A, n) \<and> client_wf A \<and> Group_Alive (ag_net A)
    \<and> ag_head A = new_head\<lparr>eh_id := cf_id conf\<rparr> \<and> ag_heap A = (\<lambda>_. None) \<and> ag_convMap A = [] \<and> ag_key A = id_string (cf_id conf)
    \<and> (\<forall>b d. ng_heap (ag_net A) b = Some d \<longrightarrow> (\<exists>e \<in> set m. nc_info d = UdpI (bu_info (snd e))))"
proof -
  let ?gid = "id_string (cf_id conf)"
  let ?g0 = "SetNetConnErrorHandler (new_net_group ?gid (new_handler this True)) True"
  have wf0: "net_wf ?g0" "\<forall>b \<ge> (0::nat). ng_heap ?g0 b = None" "ng_mConnMap ?g0 = []" "\<And>b. ng_heap ?g0 b = None"
    using new_group_wf by (simp_all add: SetNetConnErrorHandler_def new_net_group_def)
  have ok: "udp_map_ok m" by (rule client_udp_map [OF start])
  have on: "pipe_on (cf_type conf) OM_PIPE_UDP" "\<not> pipe_on (cf_type conf) OM_PIPE_TCP" unfolding mode pipe_on_def by code_simp+
  obtain a g where g: "addUdpNetConn now 0 m ?g0 = Some (a, g)" "grown 0 ?g0 a g"
    "\<forall>e \<in> set m. \<exists>k b d. KeyForUdp (bu_info (snd e)) = Some k \<and> (k, b) \<in> set (ng_mConnMap g) \<and> ng_heap g b = Some d \<and> nc_info d = UdpI (bu_info (snd e))"
    "\<forall>b d. ng_heap g b = Some d \<longrightarrow> ng_heap ?g0 b = Some d \<or> (\<exists>e \<in> set m. nc_info d = UdpI (bu_info (snd e)))"
    using addUdpNetConn_ok [OF wf0(1,2) ok, of now] wf0(3) by auto
  have wf: "net_wf g" using g(2) by (simp add: grown_def)
  obtain k b d where e: "(k, b) \<in> set (ng_mConnMap g)" "ng_heap g b = Some d" "nc_info d = UdpI (bu_info (snd (hd m)))"
    using g(3) m by (meson hd_in_set)
  have "(StrForIntKey k, b) \<in> set (ng_mConns g)" using net_wf_conn [OF wf e(1)] by blast
  moreover have "alive_at g b" using e(2,3) by (simp add: alive_at_def Conn_Alive_def)
  ultimately have alive: "ng_mConns g \<noteq> []" "Group_Alive g" by (force simp: Group_Alive_def list_ex_iff)+
  obtain A where A: "new_app_group ?gid True (cf_id conf) g (AfInet 0 0) = Some A" "client_wf A" "ag_net A = g" using new_client_group [OF wf idb] by blast
  have "CSockApp_CreateBridgeConn this now ans conf m n = Some (Some A, n)"
    unfolding CSockApp_CreateBridgeConn_def Let_def using on g(1) alive(1) A(1) by simp
  moreover have "ag_head A = new_head\<lparr>eh_id := cf_id conf\<rparr> \<and> ag_heap A = (\<lambda>_. None) \<and> ag_convMap A = [] \<and> ag_key A = ?gid"
    using A(1) idb by (auto simp: new_app_group_def Str2IdBuf_def)
  ultimately show ?thesis using A(2,3) alive(2) g(4) wf0(4) by (intro exI [of _ A]) auto
qed

text \<open>
  C3: From the start of the client to the wire: a client in the mode \<open>udp\<close> that could bind a socket has a bridge, and
  the first datagram an application sends to it leaves through one of the sockets, to the server port the
  socket was opened for, as a packet from which the peer, with the same hash key, gets this
  datagram and the identifier of the client.
\<close>
theorem client_start_to_wire:
  assumes start: "CSockApp_CreateBtmConn uans conf u0 = Some (m, u)" and mode: "cf_type conf = OM_PIPE_UDP" and m: "m \<noteq> []"
    and idb: "length (cf_id conf) = ID_BUF_SIZE" and b: "b \<noteq> []" "length b \<le> 1469"
  shows "\<exists>A. CSockApp_CreateBridgeConn this now ans conf m n = Some (Some A, n)
    \<and> (\<forall>E addr. en_out E = udp_out_cb key (map fst m) \<and> env_ok E A \<and> CConn_BuildKey addr \<noteq> id_string (cf_id conf) \<longrightarrow>
        (\<exists>A' m' s c h pkt head. (s, c) \<in> set m \<and> bu_udp c = Some h
           \<and> onLocalRecv E b addr A (m, u) = Some (A', m', u\<lparr>uo_sent := uo_sent u @ [(h, ci_dst (bu_info c), ci_dp (bu_info c), pkt)]\<rparr>)
           \<and> eh_id head = cf_id conf \<and> (\<forall>le peer. RConn_OnRecv le rfc_md5 key peer pkt = Some (Deliver (set_head (Some head) peer) b))))"
proof -
  obtain A where A: "CSockApp_CreateBridgeConn this now ans conf m n = Some (Some A, n)" "client_wf A" "Group_Alive (ag_net A)"
    "ag_head A = new_head\<lparr>eh_id := cf_id conf\<rparr>" "ag_heap A = (\<lambda>_. None)" "ag_convMap A = []" "ag_key A = id_string (cf_id conf)"
    "\<forall>b d. ng_heap (ag_net A) b = Some d \<longrightarrow> (\<exists>e \<in> set m. nc_info d = UdpI (bu_info (snd e)))"
    using udp_bridge [OF start mode m idb, of this now ans n] by (elim exE conjE) rule
  have "\<exists>A' m' s c h pkt head. (s, c) \<in> set m \<and> bu_udp c = Some h
      \<and> onLocalRecv E b addr A (m, u) = Some (A', m', u\<lparr>uo_sent := uo_sent u @ [(h, ci_dst (bu_info c), ci_dp (bu_info c), pkt)]\<rparr>)
      \<and> eh_id head = cf_id conf \<and> (\<forall>le peer. RConn_OnRecv le rfc_md5 key peer pkt = Some (Deliver (set_head (Some head) peer) b))"
    if E: "en_out E = udp_out_cb key (map fst m)" "env_ok E A" "CConn_BuildKey addr \<noteq> id_string (cf_id conf)" for E addr
  proof -
    have pre: "CConn_BuildKey addr \<noteq> ag_key A" "ag_heap A (en_fresh E) = None" "map_find (<) (ag_convCounter A + 1) (ag_convMap A) = None"
      using E(3) A(5-7) by simp_all
    from onLocalRecv_routes [OF A(2) E(2) b(1) pre, of "(m, u)"] A(3) obtain A' s' v x d r
      where run: "onLocalRecv E b addr A (m, u) = Some (A', s')" and d: "ng_heap (ag_net A) x = Some d"
        and out: "en_out E (set_head (Some ((ag_head A)\<lparr>eh_conv := v, eh_key := nc_intKey d\<rparr>)) (nc_info d)) b (m, u) = (r, s')"
      by (elim exE conjE) (simp only: if_True, blast)
    obtain s c where c: "(s, c) \<in> set m" "nc_info d = UdpI (bu_info c)" using A(8) d by (metis prod.collapse)
    define head where "head = (ag_head A)\<lparr>eh_conv := v, eh_key := nc_intKey d\<rparr>"
    have hw: "head_wf head" "eh_id (head\<lparr>eh_len := 23\<rparr>) = cf_id conf" using idb A(4) by (simp_all add: head_def head_wf_def)
    obtain h m' pkt where o: "bu_udp c = Some h"
      "RConn_Output True rfc_md5 key (map fst m) udp_route (set_head (Some head) (UdpI (bu_info c))) b (m, u)
        = Some (int (length pkt), m', u\<lparr>uo_sent := uo_sent u @ [(h, ci_dst (bu_info c), ci_dp (bu_info c), pkt)]\<rparr>)"
      "\<forall>le peer. RConn_OnRecv le rfc_md5 key peer pkt = Some (Deliver (set_head (Some (head\<lparr>eh_len := 23\<rparr>)) peer) b)"
      using udp_output_leaves [OF client_udp_map [OF start] c(1) hw(1) b refl, of key u] by (elim exE conjE) rule
    have "s' = (m', u\<lparr>uo_sent := uo_sent u @ [(h, ci_dst (bu_info c), ci_dp (bu_info c), pkt)]\<rparr>)"
      using out o(2) unfolding head_def [symmetric] c(2) E(1) udp_out_cb_def by simp
    then show ?thesis using run c(1) o(1,3) hw(2) by (intro exI conjI) (assumption | simp)+
  qed
  then show ?thesis using A(1) by blast
qed

subsection \<open>Samples\<close>

definition udp_conf :: rconfig where
  "udp_conf = (new_rconfig [])\<lparr>cf_type := OM_PIPE_UDP, cf_capPorts := AddPort16 new_port_list 80, cf_selfCapInt := 1, cf_targetCapInt := 2, cf_id := [1, 2, 3, 4, 5, 6, 7, 8]\<rparr>"

definition udp_answers :: "nat \<Rightarrow> udp_ans" where
  "udp_answers i = \<lparr>ua_udp = i, ua_bind = 0, ua_name = (0, 1, 4000), ua_recv_start = 0\<rparr>"

lemma udp_conf_start:
  "\<exists>k c. CSockApp_CreateBtmConn udp_answers udp_conf \<lparr>uo_sent = [], uo_closed = []\<rparr> = Some ([(k, c)], \<lparr>uo_sent = [], uo_closed = []\<rparr>)"
  by (simp add: CSockApp_CreateBtmConn_def udp_answers_def udp_conf_def OM_PIPE_UDP_def GetRawList_def AddPort16_def new_port_list_def rebuild_def bindUdpConns_def
      CreateBtmUdpConn_def GetUdpSelfInfo_def KeyForUdp_def BtmUdp_Init_def new_BtmUdpConn_def AddUdpConn_def new_conn_info_def)

definition refused :: "nat \<Rightarrow> dial_ans" where
  "refused i = \<lparr>da_sock = \<lparr>sa_socket = 5, sa_setsockopt = 0, sa_bind = 0, sa_connect = -1, sa_open = 0, sa_tcp = 7\<rparr>,
     da_names = (\<lambda>_. (Inr (1, 4000), Inr (2, 80))), da_wakes = [(timeout, sample_pool)], da_now = 5\<rparr>"

lemma refused_ok: "dial_ans_ok (refused i)"
  by (simp add: dial_ans_ok_def refused_def names_ok_def)


definition udp_env :: "byte list \<Rightarrow> string list \<Rightarrow> ((string \<times> btm_udp) list \<times> udp_out) env" where
  "udp_env key conns = \<lparr>en_le = True, en_now = 5, en_rand = (\<lambda>_. replicate 99 0), en_out = udp_out_cb key conns,
     en_udp = (\<lambda>_ _ _ s. s), en_un = (\<lambda>b s. (int (length b), s)), en_create = (\<lambda>_ _. None), en_fresh = 9, en_newUdp = 8\<rparr>"

lemma udp_route_result: "udp_route r info b s = (n, s') \<Longrightarrow> -1 \<le> n"
  by (auto simp: udp_route_def BtmUdp_Send_def BtmUdp_Output_def split: route.splits prod.splits option.splits Option.bind_splits if_splits)

lemma udp_out_cb_result: "-1 \<le> fst (udp_out_cb key conns info b s)"
proof -
  have "-1 \<le> n" if "RConn_Output True rfc_md5 key conns udp_route info b s = Some (n, s')" for n s'
    using that
    by (auto simp: RConn_Output_def SendReset_def ResetSend_def Let_def dest: udp_route_result split: any_info.splits Option.bind_splits if_splits)
  then show ?thesis by (auto simp: udp_out_cb_def split: option.splits)
qed

theorem client_start_to_wire_witness:
  "\<exists>m u A E A' m' h ip port pkt. CSockApp_CreateBtmConn udp_answers udp_conf \<lparr>uo_sent = [], uo_closed = []\<rparr> = Some (m, u)
     \<and> CSockApp_CreateBridgeConn 1 9 refused udp_conf m (new_client_net sample_pool) = Some (Some A, new_client_net sample_pool)
     \<and> onLocalRecv E [7, 7] (AfInet 1 2) A (m, u) = Some (A', m', u\<lparr>uo_sent := [(h, ip, port, pkt)]\<rparr>)"
proof -
  let ?u = "\<lparr>uo_sent = [], uo_closed = []\<rparr>" and ?n = "new_client_net sample_pool"
  obtain k c where start: "CSockApp_CreateBtmConn udp_answers udp_conf ?u = Some ([(k, c)], ?u)" using udp_conf_start by blast
  have pre: "cf_type udp_conf = OM_PIPE_UDP" "[(k, c)] \<noteq> []" "length (cf_id udp_conf) = ID_BUF_SIZE" "[7, 7 :: byte] \<noteq> []" "length [7, 7 :: byte] \<le> 1469"
    by (simp_all add: udp_conf_def ID_BUF_SIZE_def)
  have "is_digit x" if "x \<in> set (CConn_BuildKey (AfInet 1 2))" for x using that by (simp add: CConn_BuildKey_def to_string_digits)
  moreover have "CHR 0x01 \<in> set (id_string (cf_id udp_conf))" "\<not> is_digit CHR 0x01" by code_simp+
  ultimately have key: "CConn_BuildKey (AfInet 1 2) \<noteq> id_string (cf_id udp_conf)" by metis
  obtain A where A: "CSockApp_CreateBridgeConn 1 9 refused udp_conf [(k, c)] ?n = Some (Some A, ?n)"
    "\<forall>E addr. en_out E = udp_out_cb [3] (map fst [(k, c)]) \<and> env_ok E A \<and> CConn_BuildKey addr \<noteq> id_string (cf_id udp_conf) \<longrightarrow>
        (\<exists>A' m' s d h pkt head. (s, d) \<in> set [(k, c)] \<and> bu_udp d = Some h
           \<and> onLocalRecv E [7, 7] addr A ([(k, c)], ?u) = Some (A', m', ?u\<lparr>uo_sent := uo_sent ?u @ [(h, ci_dst (bu_info d), ci_dp (bu_info d), pkt)]\<rparr>)
           \<and> eh_id head = cf_id udp_conf \<and> (\<forall>le peer. RConn_OnRecv le rfc_md5 [3] peer pkt = Some (Deliver (set_head (Some head) peer) [7, 7])))"
    using client_start_to_wire [OF start pre, of 1 9 refused ?n "[3]"] by blast
  define E where "E = (udp_env [3] (map fst [(k, c)]))\<lparr>en_rand := \<lambda>_. replicate (Suc (length (ng_mConns (ag_net A)))) 0\<rparr>"
  have "fst (en_out E i b s) \<noteq> ERR_NO_CONN" for i b s
    using udp_out_cb_result [of "[3]" "map fst [(k, c)]" i b s] by (simp add: E_def udp_env_def ERR_NO_CONN_def)
  then have "env_ok E A" by (simp add: env_ok_def) (simp add: E_def udp_env_def clock_ok_def MAX_MS_def ERR_NO_CONN_def)
  moreover have "en_out E = udp_out_cb [3] (map fst [(k, c)])" by (simp add: E_def udp_env_def)
  ultimately obtain A' m' h ip port pkt where "onLocalRecv E [7, 7] (AfInet 1 2) A ([(k, c)], ?u)
      = Some (A', m', ?u\<lparr>uo_sent := uo_sent ?u @ [(h, ip, port, pkt)]\<rparr>)" using A(2) key by blast
  then show ?thesis using start A(1)
    by (intro exI [of _ "[(k, c)]"] exI [of _ ?u] exI [of _ A] exI [of _ E] exI [of _ A'] exI [of _ m'] exI [of _ h] exI [of _ ip]
        exI [of _ port] exI [of _ pkt]) simp
qed

end
