(* ===== verification/Local_Sock.thy ===== *)
theory Local_Sock
  imports App_Conns Sync_Conn Services
begin

section \<open>The sockets of the applications and the observers of a client group\<close>

text \<open>
  How a client group (\<open>client/ClientGroup.cpp\<close>) opens the sockets on which applications reach it, registers
  with the services, reads its sockets and closes everything again; the helpers of \<open>util/rsutil.cpp\<close> this
  rests on; and the set-up of the remaining synchronisation connections of \<open>src/sync\<close>. Descriptors and
  libuv handles are in a trace as in theory Sync_Conn. What the system calls answer is a parameter; an
  exception of a service and a failed assertion are \<^const>\<open>None\<close>. A handle that is freed without
  \<open>uv_close\<close> stays open in the trace: the loop still has it.
\<close>

subsection \<open>Addresses (\<open>util/rsutil.cpp\<close>)\<close>

definition SUN_PATH_SIZE :: nat where "SUN_PATH_SIZE = 108"

definition new_addr4 :: "(string \<Rightarrow> u32) \<Rightarrow> string \<Rightarrow> int \<Rightarrow> sock_addr" where
  "new_addr4 inet_addr ip port = AfInet (inet_addr ip) (of_int port)"

text \<open>The bytes of \<open>sun_path\<close>; \<open>path\<close> is a C string, so it has no zero byte.\<close>

definition new_addrUn :: "byte list \<Rightarrow> byte list option" where
  "new_addrUn path = (if length path > SUN_PATH_SIZE then None else Some (path @ replicate (SUN_PATH_SIZE - length path) 0))"

text \<open>Reading an array as a C string: \<^const>\<open>None\<close> when it has no zero byte, since the read leaves the array.\<close>

primrec c_str :: "byte list \<Rightarrow> byte list option" where
  "c_str [] = None"
| "c_str (x # xs) = (if x = 0 then Some [] else map_option ((#) x) (c_str xs))"

definition Addr2Str :: "sock_addr option \<Rightarrow> string" where
  "Addr2Str addr = (case addr of
       None \<Rightarrow> ''''
     | Some (AfInet ip port) \<Rightarrow> InAddr2Ip ip @ '':'' @ to_string (unat port)
     | Some (AfUnix path) \<Rightarrow> path)"

definition GetSrcAddrStr :: "conn_info \<Rightarrow> string" where
  "GetSrcAddrStr info = Addr2Str (Some (AfInet (ci_src info) (ci_sp info)))"

definition GetDstAddrStr :: "conn_info \<Rightarrow> string" where
  "GetDstAddrStr info = Addr2Str (Some (AfInet (ci_dst info) (ci_dp info)))"

text \<open>
  The encoding of an address. The fields of a \<open>sockaddr_in\<close> are the address and the port as they are in memory.
  \<open>decode_inaddr\<close> decodes into a local variable: the first component of its result is the address it was given.
\<close>

definition encode_sockaddr4 :: "bool \<Rightarrow> u32 \<times> u16 \<Rightarrow> buf \<Rightarrow> nat \<Rightarrow> (buf \<times> nat) option" where
  "encode_sockaddr4 le addr b p = do {
     (b, p) \<leftarrow> encode_uint32 le (fst addr) b p;
     encode_uint16 le (snd addr) b p }"

definition decode_inaddr :: "bool \<Rightarrow> u32 \<Rightarrow> buf \<Rightarrow> nat \<Rightarrow> (u32 \<times> nat) option" where
  "decode_inaddr le addr b p = do { (val, p) \<leftarrow> decode_uint32 le b p; Some (addr, p) }"

definition decode_sockaddr4 :: "bool \<Rightarrow> u32 \<times> u16 \<Rightarrow> buf \<Rightarrow> nat \<Rightarrow> ((u32 \<times> u16) \<times> nat) option" where
  "decode_sockaddr4 le addr b p = do {
     (ip, p) \<leftarrow> decode_inaddr le (fst addr) b p;
     (port, p) \<leftarrow> decode_uint16 le b p;
     Some ((ip, port), p) }"

text \<open>The time of day in milliseconds; \<open>tv_usec\<close> is a signed number.\<close>

definition rsk_now_ms :: "int \<Rightarrow> int \<Rightarrow> u64" where
  "rsk_now_ms sec usec = of_int sec * 1000 + of_int (usec div 1000)"

definition got_eagain :: "int \<Rightarrow> bool" where
  "got_eagain err \<longleftrightarrow> err = 11 \<or> err = 115"

subsection \<open>Listening\<close>

record listen_ans =
  la_udp :: nat
  la_udp_bind :: int
  la_sock :: int
  la_un_bind :: int
  la_poll :: nat
  la_poll_init :: int

text \<open>The results are the handle, the value of \<open>*err\<close> (0 before the call) and what happened to sockets.\<close>

definition om_listen_udp_addr :: "listen_ans \<Rightarrow> nat option \<times> int \<times> sock_event list" where
  "om_listen_udp_addr a =
     (if la_udp_bind a \<noteq> 0 then (None, la_udp_bind a, [HandleOpen (la_udp a)]) else (Some (la_udp a), 0, [HandleOpen (la_udp a)]))"

definition om_listen_unix_dgram :: "listen_ans \<Rightarrow> nat option \<times> int \<times> sock_event list" where
  "om_listen_unix_dgram a =
     (if la_un_bind a \<noteq> 0 then (None, la_un_bind a, fd_open (la_sock a) @ fd_close (la_sock a))
      else if la_poll_init a \<noteq> 0 then (None, la_poll_init a, fd_open (la_sock a) @ fd_close (la_sock a))
      else (Some (la_poll a), la_sock a, fd_open (la_sock a) @ [HandleOpen (la_poll a)]))"

subsection \<open>Observers\<close>

text \<open>The services of the program and the addresses of the observers of one client group.\<close>

record services =
  sv_net :: service
  sv_route :: service
  sv_timer :: timer_service

record group_observers =
  go_net :: nat
  go_route :: nat
  go_keep :: nat

definition of_svc :: "svc_err + 'a \<Rightarrow> 'a option" where
  "of_svc r = (case r of Inl _ \<Rightarrow> None | Inr x \<Rightarrow> Some x)"

definition AppTimer_Init :: "(nat \<Rightarrow> u64) \<Rightarrow> u64 \<Rightarrow> nat \<Rightarrow> services \<Rightarrow> (int \<times> services) option" where
  "AppTimer_Init iv now this V = do { (n, t) \<leftarrow> of_svc (Timer_RegisterObserver iv now (Some this) (sv_timer V)); Some (n, V\<lparr>sv_timer := t\<rparr>) }"

definition AppTimer_Close :: "nat \<Rightarrow> services \<Rightarrow> (int \<times> services) option" where
  "AppTimer_Close this V = do { (n, t) \<leftarrow> of_svc (Timer_UnRegisterObserver this (sv_timer V)); Some (n, V\<lparr>sv_timer := t\<rparr>) }"

definition NetObserver_Init :: "nat \<Rightarrow> services \<Rightarrow> (int \<times> services) option" where
  "NetObserver_Init this V = do { (n, s) \<leftarrow> of_svc (RegisterObserver this (sv_net V)); Some (n, V\<lparr>sv_net := s\<rparr>) }"

definition NetObserver_Close :: "nat \<Rightarrow> services \<Rightarrow> (int \<times> services) option" where
  "NetObserver_Close this V = do { (n, s) \<leftarrow> of_svc (UnRegisterObserver this (sv_net V)); Some (n, V\<lparr>sv_net := s\<rparr>) }"

definition RouteObserver_Init :: "nat \<Rightarrow> services \<Rightarrow> (int \<times> services) option" where
  "RouteObserver_Init this V = do { (n, s) \<leftarrow> of_svc (RegisterObserver this (sv_route V)); Some (n, V\<lparr>sv_route := s\<rparr>) }"

definition RouteObserver_Close :: "nat \<Rightarrow> services \<Rightarrow> (int \<times> services) option" where
  "RouteObserver_Close this V = do { (n, s) \<leftarrow> of_svc (UnRegisterObserver this (sv_route V)); Some (n, V\<lparr>sv_route := s\<rparr>) }"

definition AppNetObserver_Init :: "nat \<Rightarrow> services \<Rightarrow> (int \<times> services) option" where
  "AppNetObserver_Init this V = do { (n, s) \<leftarrow> of_svc (RegisterObserver this (sv_net V)); Some (n, V\<lparr>sv_net := s\<rparr>) }"

definition AppNetObserver_Close :: "nat \<Rightarrow> services \<Rightarrow> (int \<times> services) option" where
  "AppNetObserver_Close this V = do { (n, s) \<leftarrow> of_svc (UnRegisterObserver this (sv_net V)); Some (n, V\<lparr>sv_net := s\<rparr>) }"

definition NetManagerTimer_Init :: "(nat \<Rightarrow> u64) \<Rightarrow> u64 \<Rightarrow> nat \<Rightarrow> services \<Rightarrow> (int \<times> services) option" where
  "NetManagerTimer_Init iv now this V = do { (n, t) \<leftarrow> of_svc (Timer_RegisterObserver iv now (Some this) (sv_timer V)); Some (n, V\<lparr>sv_timer := t\<rparr>) }"

definition NetManagerTimer_Close :: "nat \<Rightarrow> services \<Rightarrow> (int \<times> services) option" where
  "NetManagerTimer_Close this V = do { (n, t) \<leftarrow> of_svc (Timer_UnRegisterObserver this (sv_timer V)); Some (n, V\<lparr>sv_timer := t\<rparr>) }"

subsection \<open>The client group\<close>

text \<open>
  The members of \<open>ClientGroup\<close> and of its base class that start and stop; what the base class does with connections
  is in theory App_Group. A member that is \<open>True\<close> is an object that exists.
\<close>

record local_group =
  lg_inited :: bool
  lg_net_inited :: bool
  lg_keepAlive :: bool
  lg_routeObserver :: bool
  lg_netObserver :: bool
  lg_udp :: "nat option"
  lg_unPoll :: "nat option"
  lg_unSock :: int
  lg_udpAddr :: "sock_addr option"
  lg_unAddr :: "byte list option"
  lg_trace :: "sock_event list"

definition lg_emit :: "sock_event list \<Rightarrow> local_group \<Rightarrow> local_group" where
  "lg_emit es g = g\<lparr>lg_trace := lg_trace g @ es\<rparr>"

definition new_ClientGroup :: "(string \<Rightarrow> u32) \<Rightarrow> byte list \<Rightarrow> string \<Rightarrow> u16 \<Rightarrow> local_group option" where
  "new_ClientGroup inet_addr unPath udpIp udpPort = do {
     un \<leftarrow> (if unPath \<noteq> [] then map_option Some (new_addrUn unPath) else Some None);
     Some \<lparr>lg_inited = False, lg_net_inited = False, lg_keepAlive = False, lg_routeObserver = False, lg_netObserver = False,
       lg_udp = None, lg_unPoll = None, lg_unSock = -1,
       lg_udpAddr = (if udpIp \<noteq> [] then Some (new_addr4 inet_addr udpIp (uint udpPort)) else None), lg_unAddr = un, lg_trace = []\<rparr> }"

definition KeepAlive_Init :: "(nat \<Rightarrow> u64) \<Rightarrow> u64 \<Rightarrow> group_observers \<Rightarrow> local_group \<Rightarrow> services \<Rightarrow> (int \<times> local_group \<times> services) option" where
  "KeepAlive_Init iv now ob g V = do {
     (n, g, V) \<leftarrow> (if lg_routeObserver g then Some (0, g, V)
        else do { (n, V) \<leftarrow> RouteObserver_Init (go_route ob) V; Some (n, g\<lparr>lg_routeObserver := True\<rparr>, V) });
     if n \<noteq> 0 then Some (n, g, V)
     else do { (n, t) \<leftarrow> of_svc (Timer_RegisterObserver iv now (Some (go_keep ob)) (sv_timer V)); Some (n, g, V\<lparr>sv_timer := t\<rparr>) } }"

text \<open>The requests that \<open>Close\<close> clears are in the record of theory App_Group.\<close>

definition KeepAlive_Close :: "group_observers \<Rightarrow> local_group \<Rightarrow> services \<Rightarrow> (local_group \<times> services) option" where
  "KeepAlive_Close ob g V = do {
     (g, V) \<leftarrow> (if lg_routeObserver g then do { (_, V) \<leftarrow> RouteObserver_Close (go_route ob) V; Some (g\<lparr>lg_routeObserver := False\<rparr>, V) } else Some (g, V));
     (_, t) \<leftarrow> of_svc (Timer_UnRegisterObserver (go_keep ob) (sv_timer V));
     Some (g, V\<lparr>sv_timer := t\<rparr>) }"

definition IAppGroup_Init :: "(nat \<Rightarrow> u64) \<Rightarrow> u64 \<Rightarrow> group_observers \<Rightarrow> local_group \<Rightarrow> services \<Rightarrow> (int \<times> local_group \<times> services) option" where
  "IAppGroup_Init iv now ob g V =
     (if lg_inited g \<or> lg_net_inited g then None
      else KeepAlive_Init iv now ob (g\<lparr>lg_inited := True, lg_net_inited := True, lg_keepAlive := True\<rparr>) V)"

definition IAppGroup_Close :: "group_observers \<Rightarrow> local_group \<Rightarrow> services \<Rightarrow> (local_group \<times> services) option" where
  "IAppGroup_Close ob g V =
     (if lg_keepAlive g then do { (g, V) \<leftarrow> KeepAlive_Close ob g V; Some (g\<lparr>lg_keepAlive := False\<rparr>, V) } else Some (g, V))"

definition listen_udp :: "listen_ans \<Rightarrow> local_group \<Rightarrow> int \<times> local_group" where
  "listen_udp a g = (case lg_udpAddr g of
       None \<Rightarrow> (0, g)
     | Some _ \<Rightarrow> (case om_listen_udp_addr a of (h, err, es) \<Rightarrow> (err, lg_emit es (g\<lparr>lg_udp := h\<rparr>))))"

definition listen_unix :: "listen_ans \<Rightarrow> local_group \<Rightarrow> int \<times> local_group" where
  "listen_unix a g = (case lg_unAddr g of
       None \<Rightarrow> (0, g)
     | Some _ \<Rightarrow> (case om_listen_unix_dgram a of
         (None, err, es) \<Rightarrow> (err, lg_emit es (g\<lparr>lg_unPoll := None\<rparr>))
       | (Some h, err, es) \<Rightarrow> (0, lg_emit es (g\<lparr>lg_unPoll := Some h, lg_unSock := err\<rparr>))))"

definition ClientGroup_Init ::
  "listen_ans \<Rightarrow> (nat \<Rightarrow> u64) \<Rightarrow> u64 \<Rightarrow> group_observers \<Rightarrow> local_group \<Rightarrow> services \<Rightarrow> (int \<times> local_group \<times> services) option" where
  "ClientGroup_Init a iv now ob g V = do {
     (n, g, V) \<leftarrow> IAppGroup_Init iv now ob g V;
     if n \<noteq> 0 then Some (n, g, V) else (case listen_udp a g of (n, g) \<Rightarrow>
       if n \<noteq> 0 then Some (n, g, V) else (case listen_unix a g of (n, g) \<Rightarrow>
         if n \<noteq> 0 then Some (n, g, V)
         else if \<not> lg_netObserver g then do { (n, V) \<leftarrow> NetObserver_Init (go_net ob) V; Some (n, g\<lparr>lg_netObserver := True\<rparr>, V) }
         else Some (-1, g, V))) }"

text \<open>\<open>mUnPoll\<close> is the one member that is not reset.\<close>

definition ClientGroup_Close :: "group_observers \<Rightarrow> local_group \<Rightarrow> services \<Rightarrow> (local_group \<times> services) option" where
  "ClientGroup_Close ob g V = do {
     (g, V) \<leftarrow> IAppGroup_Close ob g V;
     (g, V) \<leftarrow> (if lg_netObserver g then do { (_, V) \<leftarrow> NetObserver_Close (go_net ob) V; Some (g\<lparr>lg_netObserver := False\<rparr>, V) } else Some (g, V));
     let g = (case lg_udp g of None \<Rightarrow> g | Some h \<Rightarrow> lg_emit [HandleClose h] (g\<lparr>lg_udp := None\<rparr>));
     let g = (case lg_unPoll g of None \<Rightarrow> g | Some h \<Rightarrow> lg_emit (fd_close (lg_unSock g) @ [HandleClose h]) g);
     Some (g\<lparr>lg_udpAddr := None, lg_unAddr := None\<rparr>, V) }"

text \<open>
  The callbacks of the two sockets. A read is the data with the path of the sender, or an error; a sender without a path
  cannot be answered.
\<close>

definition ClientGroup_udpRecvCb :: "'s env \<Rightarrow> byte list option \<Rightarrow> sock_addr \<Rightarrow> app_group \<Rightarrow> 's \<Rightarrow> (app_group \<times> 's) option" where
  "ClientGroup_udpRecvCb E r addr A s = (case r of
       None \<Rightarrow> None
     | Some b \<Rightarrow> if b \<noteq> [] then onLocalRecv E b addr A s else Some (A, s))"

definition ClientGroup_pollCb :: "'s env \<Rightarrow> int \<Rightarrow> bool \<Rightarrow> byte list option \<Rightarrow> string \<Rightarrow> app_group \<Rightarrow> 's \<Rightarrow> (app_group \<times> 's) option" where
  "ClientGroup_pollCb E status readable r path A s =
     (if status \<noteq> 0 \<or> \<not> readable \<or> path = [] then Some (A, s)
      else (case r of None \<Rightarrow> Some (A, s) | Some b \<Rightarrow> onLocalRecv E (take OM_MAX_PKT_SIZE b) (AfUnix path) A s))"

subsection \<open>Starting and stopping\<close>

definition services_ok :: "services \<Rightarrow> bool" where
  "services_ok V \<longleftrightarrow> service_ok (sv_net V) \<and> service_ok (sv_route V) \<and> timer_ok (sv_timer V)"

abbreviation net_observers :: "services \<Rightarrow> nat set" where "net_observers V \<equiv> set (sv_observers (sv_net V))"

abbreviation route_observers :: "services \<Rightarrow> nat set" where "route_observers V \<equiv> set (sv_observers (sv_route V))"

abbreviation timer_observers :: "services \<Rightarrow> nat set" where "timer_observers V \<equiv> set (sv_observers (tm_service (sv_timer V)))"

lemma NetObserver_Init_ok:
  assumes "services_ok V" "a \<notin> net_observers V"
  shows "\<exists>s. NetObserver_Init a V = Some (0, V\<lparr>sv_net := s\<rparr>) \<and> service_ok s \<and> set (sv_observers s) = insert a (net_observers V)"
  using base_reg.reg_law [of "sv_net V" a] assms by (auto simp: NetObserver_Init_def of_svc_def services_ok_def)

lemma RouteObserver_Init_ok:
  assumes "services_ok V" "a \<notin> route_observers V"
  shows "\<exists>s. RouteObserver_Init a V = Some (0, V\<lparr>sv_route := s\<rparr>) \<and> service_ok s \<and> set (sv_observers s) = insert a (route_observers V)"
  using base_reg.reg_law [of "sv_route V" a] assms by (auto simp: RouteObserver_Init_def of_svc_def services_ok_def)

lemma NetObserver_Close_ok:
  assumes "services_ok V"
  shows "\<exists>n s. NetObserver_Close a V = Some (n, V\<lparr>sv_net := s\<rparr>) \<and> service_ok s \<and> set (sv_observers s) = net_observers V - {a}"
  using base_reg.unreg_law [of "sv_net V" a] assms by (auto simp: NetObserver_Close_def of_svc_def services_ok_def)

lemma RouteObserver_Close_ok:
  assumes "services_ok V"
  shows "\<exists>n s. RouteObserver_Close a V = Some (n, V\<lparr>sv_route := s\<rparr>) \<and> service_ok s \<and> set (sv_observers s) = route_observers V - {a}"
  using base_reg.unreg_law [of "sv_route V" a] assms by (auto simp: RouteObserver_Close_def of_svc_def services_ok_def)

lemma Timer_Register_ok:
  assumes "services_ok V" "0 < iv a" "a < 2 ^ 63" "a \<notin> timer_observers V"
  shows "\<exists>t. of_svc (Timer_RegisterObserver iv now (Some a) (sv_timer V)) = Some (0, t) \<and> timer_ok t
    \<and> set (sv_observers (tm_service t)) = insert a (timer_observers V)"
  using Timer_Register_law [of "sv_timer V" iv a now] assms by (auto simp: of_svc_def services_ok_def)

lemma Timer_UnRegister_ok:
  assumes "services_ok V"
  shows "\<exists>n t. of_svc (Timer_UnRegisterObserver a (sv_timer V)) = Some (n, t) \<and> timer_ok t
    \<and> set (sv_observers (tm_service t)) = timer_observers V - {a}"
  using Timer_UnRegister_law [of "sv_timer V" a] assms by (auto simp: of_svc_def services_ok_def)

definition fresh_observers :: "(nat \<Rightarrow> u64) \<Rightarrow> group_observers \<Rightarrow> services \<Rightarrow> bool" where
  "fresh_observers iv ob V \<longleftrightarrow> 0 < iv (go_keep ob) \<and> go_keep ob < 2 ^ 63
     \<and> go_net ob \<notin> net_observers V \<and> go_route ob \<notin> route_observers V \<and> go_keep ob \<notin> timer_observers V"

lemma KeepAlive_Init_ok:
  assumes V: "services_ok V" "fresh_observers iv ob V" and g: "\<not> lg_routeObserver g"
  shows "\<exists>V'. KeepAlive_Init iv now ob g V = Some (0, g\<lparr>lg_routeObserver := True\<rparr>, V') \<and> services_ok V' \<and> sv_net V' = sv_net V
    \<and> route_observers V' = insert (go_route ob) (route_observers V) \<and> timer_observers V' = insert (go_keep ob) (timer_observers V)"
proof -
  obtain s where s: "RouteObserver_Init (go_route ob) V = Some (0, V\<lparr>sv_route := s\<rparr>)" "service_ok s" "set (sv_observers s) = insert (go_route ob) (route_observers V)"
    using RouteObserver_Init_ok [OF V(1)] V(2) unfolding fresh_observers_def by blast
  obtain t where t: "of_svc (Timer_RegisterObserver iv now (Some (go_keep ob)) (sv_timer V)) = Some (0, t)" "timer_ok t"
    "set (sv_observers (tm_service t)) = insert (go_keep ob) (timer_observers V)"
    using Timer_Register_ok [OF V(1)] V(2) unfolding fresh_observers_def by blast
  show ?thesis
    by (intro exI [of _ "V\<lparr>sv_route := s, sv_timer := t\<rparr>"]) (use s t V(1) g in \<open>simp add: KeepAlive_Init_def services_ok_def\<close>)
qed

lemma KeepAlive_Close_ok:
  assumes V: "services_ok V" and g: "lg_routeObserver g"
  shows "\<exists>V'. KeepAlive_Close ob g V = Some (g\<lparr>lg_routeObserver := False\<rparr>, V') \<and> services_ok V' \<and> sv_net V' = sv_net V
    \<and> route_observers V' = route_observers V - {go_route ob} \<and> timer_observers V' = timer_observers V - {go_keep ob}"
proof -
  obtain n s where s: "RouteObserver_Close (go_route ob) V = Some (n, V\<lparr>sv_route := s\<rparr>)" "service_ok s" "set (sv_observers s) = route_observers V - {go_route ob}"
    using RouteObserver_Close_ok [OF V] by blast
  obtain m t where t: "of_svc (Timer_UnRegisterObserver (go_keep ob) (sv_timer V)) = Some (m, t)" "timer_ok t"
    "set (sv_observers (tm_service t)) = timer_observers V - {go_keep ob}"
    using Timer_UnRegister_ok [OF V] by blast
  show ?thesis
    by (intro exI [of _ "V\<lparr>sv_route := s, sv_timer := t\<rparr>"]) (use s t V g in \<open>simp add: KeepAlive_Close_def services_ok_def\<close>)
qed

text \<open>Everything that was opened has been closed, and nothing twice.\<close>

definition balanced :: "sock_event list \<Rightarrow> bool" where
  "balanced tr \<longleftrightarrow> (\<forall>h. count_list tr (HandleOpen h) = count_list tr (HandleClose h)) \<and> (\<forall>fd. count_list tr (FdOpen fd) = count_list tr (FdClose fd))"

definition fresh_group :: "local_group \<Rightarrow> bool" where
  "fresh_group g \<longleftrightarrow> \<not> lg_inited g \<and> \<not> lg_net_inited g \<and> \<not> lg_keepAlive g \<and> \<not> lg_routeObserver g \<and> \<not> lg_netObserver g
     \<and> lg_udp g = None \<and> lg_unPoll g = None \<and> lg_trace g = []"

lemma new_group_fresh: "new_ClientGroup ia un ip port = Some g \<Longrightarrow> fresh_group g"
  by (auto simp: new_ClientGroup_def fresh_group_def split: Option.bind_splits)

text \<open>What the sockets of a group leave open when it is closed.\<close>

lemma listen_udp_fields:
  "listen_udp a g = (n, g') \<Longrightarrow> g' = g\<lparr>lg_udp := lg_udp g', lg_trace := lg_trace g'\<rparr>"
  by (auto simp: listen_udp_def om_listen_udp_addr_def lg_emit_def split: option.splits if_splits)

lemma listen_unix_fields:
  "listen_unix a g = (n, g') \<Longrightarrow> g' = g\<lparr>lg_unPoll := lg_unPoll g', lg_unSock := lg_unSock g', lg_trace := lg_trace g'\<rparr>"
  by (auto simp: listen_unix_def om_listen_unix_dgram_def lg_emit_def split: option.splits if_splits prod.splits)

text \<open>The traces of the two sockets, from opening to closing.\<close>

definition closing :: "local_group \<Rightarrow> sock_event list" where
  "closing g = (case lg_udp g of None \<Rightarrow> [] | Some h \<Rightarrow> [HandleClose h]) @ (case lg_unPoll g of None \<Rightarrow> [] | Some h \<Rightarrow> fd_close (lg_unSock g) @ [HandleClose h])"

lemma fd_open_close [simp]:
  "count_list (fd_open fd) (FdOpen x) = count_list (fd_close fd) (FdClose x)"
  "count_list (fd_open fd) (FdClose x) = 0" "count_list (fd_close fd) (FdOpen x) = 0"
  "count_list (fd_open fd) (HandleOpen h) = 0" "count_list (fd_open fd) (HandleClose h) = 0"
  "count_list (fd_close fd) (HandleOpen h) = 0" "count_list (fd_close fd) (HandleClose h) = 0"
  by (simp_all add: fd_open_def fd_close_def)

lemma balanced_udp:
  assumes "listen_udp a g = (n, g')" "lg_udp g = None" "lg_unPoll g = None" "lg_trace g = []" "lg_udpAddr g \<noteq> None \<longrightarrow> la_udp_bind a = 0"
  shows "n = 0 \<and> lg_udp g' = (if lg_udpAddr g = None then None else Some (la_udp a)) \<and> balanced (lg_trace g' @ closing g')"
  using assms by (auto simp: listen_udp_def om_listen_udp_addr_def lg_emit_def balanced_def closing_def split: option.splits if_splits)

lemma balanced_unix:
  assumes "listen_unix a g = (n, g')" "lg_unPoll g = None" "balanced (lg_trace g @ closing g)"
  shows "(n = 0 \<longleftrightarrow> lg_unAddr g \<noteq> None \<longrightarrow> la_un_bind a = 0 \<and> la_poll_init a = 0)
    \<and> lg_unPoll g' = (if lg_unAddr g \<noteq> None \<and> n = 0 then Some (la_poll a) else None) \<and> balanced (lg_trace g' @ closing g')"
  using assms by (auto simp: listen_unix_def om_listen_unix_dgram_def lg_emit_def balanced_def closing_def split: if_splits option.splits prod.splits)

lemma ClientGroup_Close_ok:
  assumes V: "services_ok V" and g: "lg_keepAlive g" "lg_routeObserver g"
  shows "\<exists>g' V'. ClientGroup_Close ob g V = Some (g', V') \<and> services_ok V' \<and> lg_trace g' = lg_trace g @ closing g
    \<and> lg_udpAddr g' = None \<and> lg_unAddr g' = None \<and> lg_udp g' = None
    \<and> net_observers V' = (if lg_netObserver g then net_observers V - {go_net ob} else net_observers V)
    \<and> route_observers V' = route_observers V - {go_route ob} \<and> timer_observers V' = timer_observers V - {go_keep ob}"
proof -
  obtain V1 where V1: "KeepAlive_Close ob g V = Some (g\<lparr>lg_routeObserver := False\<rparr>, V1)" "services_ok V1" "sv_net V1 = sv_net V"
    "route_observers V1 = route_observers V - {go_route ob}" "timer_observers V1 = timer_observers V - {go_keep ob}"
    using KeepAlive_Close_ok [OF V g(2), of ob] by blast
  obtain n s where s: "NetObserver_Close (go_net ob) V1 = Some (n, V1\<lparr>sv_net := s\<rparr>)" "service_ok s" "set (sv_observers s) = net_observers V1 - {go_net ob}"
    using NetObserver_Close_ok [OF V1(2)] by blast
  have k: "IAppGroup_Close ob g V = Some (g\<lparr>lg_routeObserver := False, lg_keepAlive := False\<rparr>, V1)" using V1(1) g(1) by (simp add: IAppGroup_Close_def)
  show ?thesis
  proof (cases "lg_netObserver g")
    case True
    then show ?thesis using k s V1 by (auto simp: ClientGroup_Close_def services_ok_def lg_emit_def closing_def split: option.splits)
  next
    case False
    then show ?thesis using k V1 by (auto simp: ClientGroup_Close_def lg_emit_def closing_def split: option.splits)
  qed
qed

lemma ClientGroup_Init_ok:
  assumes g: "fresh_group g" and V: "services_ok V" "fresh_observers iv ob V" and bind: "lg_udpAddr g \<noteq> None \<longrightarrow> la_udp_bind a = 0"
  shows "\<exists>n g1 V1. ClientGroup_Init a iv now ob g V = Some (n, g1, V1) \<and> services_ok V1 \<and> lg_keepAlive g1 \<and> lg_routeObserver g1
    \<and> balanced (lg_trace g1 @ closing g1) \<and> (n = 0 \<longleftrightarrow> lg_unAddr g \<noteq> None \<longrightarrow> la_un_bind a = 0 \<and> la_poll_init a = 0)
    \<and> (lg_netObserver g1 \<longleftrightarrow> n = 0) \<and> lg_udp g1 = (if lg_udpAddr g = None then None else Some (la_udp a))
    \<and> lg_unPoll g1 = (if lg_unAddr g \<noteq> None \<and> n = 0 then Some (la_poll a) else None)
    \<and> net_observers V1 = (if n = 0 then insert (go_net ob) (net_observers V) else net_observers V)
    \<and> route_observers V1 = insert (go_route ob) (route_observers V) \<and> timer_observers V1 = insert (go_keep ob) (timer_observers V)"
proof -
  let ?g = "g\<lparr>lg_inited := True, lg_net_inited := True, lg_keepAlive := True, lg_routeObserver := True\<rparr>"
  obtain V1 where V1: "IAppGroup_Init iv now ob g V = Some (0, ?g, V1)" "services_ok V1" "sv_net V1 = sv_net V"
    "route_observers V1 = insert (go_route ob) (route_observers V)" "timer_observers V1 = insert (go_keep ob) (timer_observers V)"
    using KeepAlive_Init_ok [OF V, of "g\<lparr>lg_inited := True, lg_net_inited := True, lg_keepAlive := True\<rparr>" now] g
    by (auto simp: IAppGroup_Init_def fresh_group_def)
  obtain n2 g2 where g2: "listen_udp a ?g = (n2, g2)" by fastforce
  obtain n3 g3 where g3: "listen_unix a g2 = (n3, g3)" by fastforce
  have u: "n2 = 0" "lg_udp g2 = (if lg_udpAddr g = None then None else Some (la_udp a))" "balanced (lg_trace g2 @ closing g2)"
    using balanced_udp [OF g2] g bind by (simp_all add: fresh_group_def)
  have f2: "lg_unPoll g2 = None" "lg_unAddr g2 = lg_unAddr g" "lg_keepAlive g2" "lg_routeObserver g2" "\<not> lg_netObserver g2"
    by (subst listen_udp_fields [OF g2], use g in \<open>simp add: fresh_group_def\<close>)+
  have f3: "lg_udp g3 = lg_udp g2" "lg_keepAlive g3" "lg_routeObserver g3" "\<not> lg_netObserver g3"
    by (subst listen_unix_fields [OF g3], simp add: f2)+
  note x = balanced_unix [OF g3 f2(1) u(3), unfolded f2(2)]
  obtain s where s: "NetObserver_Init (go_net ob) V1 = Some (0, V1\<lparr>sv_net := s\<rparr>)" "service_ok s" "set (sv_observers s) = insert (go_net ob) (net_observers V1)"
    using NetObserver_Init_ok [OF V1(2)] V(2) V1(3) by (auto simp: fresh_observers_def)
  show ?thesis
  proof (cases "n3 = 0")
    case True
    have "ClientGroup_Init a iv now ob g V = Some (0, g3\<lparr>lg_netObserver := True\<rparr>, V1\<lparr>sv_net := s\<rparr>)"
      using V1(1) g2 u(1) g3 True f3(4) s(1) by (simp add: ClientGroup_Init_def)
    then show ?thesis using True x f3 u(2) s V1 by (auto simp: services_ok_def closing_def)
  next
    case False
    have "ClientGroup_Init a iv now ob g V = Some (n3, g3, V1)" using V1(1) g2 u(1) g3 False by (simp add: ClientGroup_Init_def)
    then show ?thesis using False x f3 u(2) V1 by auto
  qed
qed


text \<open>
  The observers of the application and of the network manager do the same with one service each: whatever else is
  registered, \<open>Close\<close> after \<open>Init\<close> restores the set of observers.
\<close>

lemma app_observers_restore:
  assumes "services_ok V" "a \<notin> timer_observers V" "b \<notin> timer_observers V" "a \<noteq> b" "c \<notin> net_observers V" "\<forall>x \<in> {a, b}. 0 < iv x \<and> x < 2 ^ 63"
  shows "\<exists>V1 V2 V3 V4 V5 V6 i j k. AppTimer_Init iv now a V = Some (0, V1) \<and> NetManagerTimer_Init iv now b V1 = Some (0, V2) \<and> AppNetObserver_Init c V2 = Some (0, V3)
    \<and> AppNetObserver_Close c V3 = Some (i, V4) \<and> NetManagerTimer_Close b V4 = Some (j, V5) \<and> AppTimer_Close a V5 = Some (k, V6)
    \<and> services_ok V6 \<and> timer_observers V6 = timer_observers V \<and> net_observers V6 = net_observers V \<and> sv_route V6 = sv_route V"
proof -
  obtain t where t: "of_svc (Timer_RegisterObserver iv now (Some a) (sv_timer V)) = Some (0, t)" "timer_ok t" "set (sv_observers (tm_service t)) = insert a (timer_observers V)"
    using Timer_Register_ok [OF assms(1), of iv a now] assms(2,6) by auto
  let ?V1 = "V\<lparr>sv_timer := t\<rparr>"
  have V1: "services_ok ?V1" using assms(1) t(2) by (simp add: services_ok_def)
  obtain u where u: "of_svc (Timer_RegisterObserver iv now (Some b) t) = Some (0, u)" "timer_ok u" "set (sv_observers (tm_service u)) = insert b (set (sv_observers (tm_service t)))"
    using Timer_Register_ok [OF V1, of iv b now] assms(3,4,6) t(3) by auto
  obtain s where s: "RegisterObserver c (sv_net V) = Inr (0, s)" "service_ok s" "set (sv_observers s) = insert c (net_observers V)"
    using base_reg.reg_law [of "sv_net V" c] assms(1,5) by (auto simp: services_ok_def)
  obtain i s' where s': "UnRegisterObserver c s = Inr (i, s')" "service_ok s'" "set (sv_observers s') = set (sv_observers s) - {c}"
    using base_reg.unreg_law [OF s(2)] by blast
  obtain j t' where t': "Timer_UnRegisterObserver b u = Inr (j, t')" "timer_ok t'" "set (sv_observers (tm_service t')) = set (sv_observers (tm_service u)) - {b}"
    using Timer_UnRegister_law [OF u(2)] by blast
  obtain k u' where u': "Timer_UnRegisterObserver a t' = Inr (k, u')" "timer_ok u'" "set (sv_observers (tm_service u')) = set (sv_observers (tm_service t')) - {a}"
    using Timer_UnRegister_law [OF t'(2)] by blast
  have sets: "set (sv_observers (tm_service u')) = timer_observers V" "set (sv_observers s') = net_observers V"
    using t(3) u(3) t'(3) u'(3) s(3) s'(3) assms(2-5) by auto
  show ?thesis
    using t(1) u(1) s(1) s'(1,2) t'(1) u'(1,2) sets assms(1)
    by (simp add: AppTimer_Init_def NetManagerTimer_Init_def AppNetObserver_Init_def AppNetObserver_Close_def NetManagerTimer_Close_def AppTimer_Close_def of_svc_def services_ok_def)
qed

subsection \<open>Samples and faults\<close>

definition empty_services :: services where
  "empty_services = \<lparr>sv_net = new_service\<lparr>sv_inited := True\<rparr>, sv_route = new_service\<lparr>sv_inited := True\<rparr>,
     sv_timer = (new_timer_service False)\<lparr>tm_service := new_service\<lparr>sv_inited := True\<rparr>\<rparr>\<rparr>"

definition local_answers :: listen_ans where
  "local_answers = \<lparr>la_udp = 1, la_udp_bind = 0, la_sock = 5, la_un_bind = 0, la_poll = 2, la_poll_init = -9\<rparr>"

lemma empty_services_ok: "services_ok empty_services"
  by (simp add: services_ok_def empty_services_def new_service_def service_ok_def timer_ok_def timer_wf_def timer_inv_def new_timer_service_def)


text \<open>When the UDP socket cannot be bound, the handle stays in the loop although its memory is freed.\<close>

lemma failed_udp_bind_dangles:
  assumes "fresh_group g" "lg_udpAddr g \<noteq> None" "la_udp_bind a \<noteq> 0"
  shows "\<exists>g'. listen_udp a g = (la_udp_bind a, g') \<and> lg_udp g' = None \<and> \<not> balanced (lg_trace g' @ closing g')"
  using assms by (auto simp: listen_udp_def om_listen_udp_addr_def fresh_group_def lg_emit_def balanced_def closing_def)

text \<open>A second \<open>Close\<close> closes the Unix socket and its handle again, because \<open>mUnPoll\<close> is not reset.\<close>

lemma second_close_closes_twice:
  assumes "lg_unPoll g = Some h" "0 \<le> lg_unSock g" "\<not> lg_keepAlive g" "\<not> lg_netObserver g" "lg_udp g = None" "lg_trace g = []"
  shows "\<exists>g1 g2. ClientGroup_Close ob g V = Some (g1, V) \<and> ClientGroup_Close ob g1 V = Some (g2, V) \<and> count_list (lg_trace g2) (FdClose (lg_unSock g)) = 2"
  using assms by (simp add: ClientGroup_Close_def IAppGroup_Close_def lg_emit_def fd_close_def)

text \<open>A path of exactly 108 bytes is accepted and stored without a zero byte at its end; shorter paths read back.\<close>

lemma c_str_append: "0 \<notin> set s \<Longrightarrow> c_str (s @ t) = map_option ((@) s) (c_str t)"
  by (induction s; cases "c_str t") auto

lemma c_str_none: "0 \<notin> set s \<Longrightarrow> c_str s = None"
  by (induction s) auto

lemma sun_path_reads_back:
  assumes "0 \<notin> set path" "length path < SUN_PATH_SIZE"
  shows "\<exists>un. new_addrUn path = Some un \<and> length un = SUN_PATH_SIZE \<and> c_str un = Some path"
proof -
  have "c_str (replicate (SUN_PATH_SIZE - length path) 0) = Some []" using assms(2) by (cases "SUN_PATH_SIZE - length path") simp_all
  then show ?thesis using assms by (simp add: new_addrUn_def c_str_append)
qed

lemma sun_path_unterminated:
  assumes "0 \<notin> set path" "length path = SUN_PATH_SIZE"
  shows "new_addrUn path = Some path \<and> c_str path = None"
  using assms by (simp add: new_addrUn_def c_str_none)

text \<open>Decoding an address never stores the address, whatever the bytes are.\<close>

lemma decode_sockaddr4_keeps_old:
  "decode_sockaddr4 le addr b p = Some (addr', p') \<Longrightarrow> fst addr' = fst addr"
  by (auto simp: decode_sockaddr4_def decode_inaddr_def split: Option.bind_splits)

lemma now_ms_exact:
  assumes "0 \<le> sec" "sec < 2 ^ 53" "0 \<le> usec" "usec < 1000000"
  shows "uint (rsk_now_ms sec usec) = sec * 1000 + usec div 1000"
proof -
  have "sec * 1000 + usec div 1000 < 2 ^ 64" "0 \<le> sec * 1000 + usec div 1000" using assms by (auto simp: pos_imp_zdiv_nonneg_iff)
  then have "uint (of_int (sec * 1000 + usec div 1000) :: u64) = sec * 1000 + usec div 1000" 
    by (simp del: of_int_add of_int_mult add: unsigned_of_int take_bit_int_eq_self)
  then show ?thesis by (simp add: rsk_now_ms_def)
qed

subsection \<open>Other synchronisation connections\<close>

text \<open>\<open>UdpSyncConn\<close>: a libuv handle that reads and a socket connected to it.\<close>

record udp_sync_ans =
  uy_handle :: nat
  uy_bind :: int
  uy_start :: int
  uy_writeFd :: int
  uy_name :: int
  uy_connect :: int

definition Udp_CreateSockPair :: "udp_sync_ans \<Rightarrow> sock_pair \<Rightarrow> int \<times> sock_pair" where
  "Udp_CreateSockPair a c =
     (let c = sp_emit (HandleOpen (uy_handle a)) c; shut = sp_emit (HandleClose (uy_handle a)) in
      if uy_bind a \<noteq> 0 then (uy_bind a, c)
      else if uy_start a \<noteq> 0 then (uy_start a, shut c)
      else (let c = (if uy_writeFd a \<ge> 0 then sp_emit (FdOpen (uy_writeFd a)) c else c) in
        if uy_name a \<noteq> 0 then (uy_name a, shut c)
        else if uy_connect a \<noteq> 0 then (uy_connect a, shut c)
        else (0, c\<lparr>sp_writeFd := uy_writeFd a, sp_ptr := Some (uy_handle a)\<rparr>)))"

text \<open>\<open>LoopStreamSyncConn\<close>: the stream of theory Stream_Sync, written to from a loop in a thread of its own.\<close>

record loop_stream =
  ls_socks :: stream_socks
  ls_loop :: bool
  ls_tcp :: "nat option"
  ls_thread :: bool

record loop_ans =
  lo_loop :: int
  lo_tcp :: nat
  lo_init :: int
  lo_open :: int

definition ls_emit :: "sock_event list \<Rightarrow> loop_stream \<Rightarrow> loop_stream" where
  "ls_emit es c = c\<lparr>ls_socks := ss_emit es (ls_socks c)\<rparr>"

definition LoopStream_Init :: "stream_ans \<Rightarrow> loop_ans \<Rightarrow> loop_stream \<Rightarrow> (int \<times> loop_stream) option" where
  "LoopStream_Init sa a c = do {
     (n, s) \<leftarrow> TcpStream_Init sa (ls_socks c);
     let c = c\<lparr>ls_socks := s\<rparr>;
     if n \<noteq> 0 then Some (n, c)
     else if lo_loop a \<noteq> 0 then Some (lo_loop a, c\<lparr>ls_loop := False\<rparr>)
     else (let c = c\<lparr>ls_loop := True\<rparr> in
       if ss_writeSock s < 0 then Some (-1, c)
       else if lo_init a \<noteq> 0 then None
       else (let c = ls_emit [HandleOpen (lo_tcp a)] c in
         if lo_open a \<noteq> 0 then Some (lo_open a, ls_emit [HandleClose (lo_tcp a)] (c\<lparr>ls_tcp := None\<rparr>))
         else Some (0, c\<lparr>ls_tcp := Some (lo_tcp a), ls_socks := (ls_socks c)\<lparr>ss_writeSock := -1\<rparr>, ls_thread := True\<rparr>))) }"

text \<open>\<open>stop_and_close_loop_fully\<close> closes the handles of the loop that are not closing yet: the connection, if there is one.\<close>

definition LoopStream_Close :: "loop_stream \<Rightarrow> loop_stream" where
  "LoopStream_Close c =
     (let c = c\<lparr>ls_thread := False\<rparr>;
          c = (if ls_loop c then (case ls_tcp c of None \<Rightarrow> c | Some h \<Rightarrow> ls_emit [HandleClose h] c)\<lparr>ls_loop := False\<rparr> else c)
      in c\<lparr>ls_socks := TcpStream_Close (ls_socks c)\<rparr>)"

definition LoopStream_doSend :: "loop_stream \<Rightarrow> byte list \<Rightarrow> int \<times> byte list list" where
  "LoopStream_doSend c b = (int (length b), if b \<noteq> [] \<and> ls_loop c then [b] else [])"

text \<open>A pair that was set up is closed completely; when \<open>connect\<close> fails the writing socket is left open.\<close>

lemma udp_pair_closed:
  assumes "Udp_CreateSockPair a new_sock_pair = (0, c)"
  shows "balanced (sp_trace (IPacketSyncConn_CloseSockPair c))"
  using assms
  by (auto simp: Udp_CreateSockPair_def new_sock_pair_def sp_emit_def IPacketSyncConn_CloseSockPair_def balanced_def Let_def split: if_splits)

lemma udp_pair_failed_connect_leaks:
  assumes "uy_bind a = 0" "uy_start a = 0" "uy_name a = 0" "uy_connect a \<noteq> 0" "0 \<le> uy_writeFd a"
  shows "\<exists>c. Udp_CreateSockPair a new_sock_pair = (uy_connect a, c) \<and> sp_writeFd c = -1 \<and> count_list (sp_trace c) (FdOpen (uy_writeFd a)) = 1
    \<and> count_list (sp_trace c) (FdClose (uy_writeFd a)) = 0"
  using assms by (auto simp: Udp_CreateSockPair_def new_sock_pair_def sp_emit_def Let_def)

text \<open>With the handle of the loop as the owner of the writing descriptor, each of the three descriptors is closed once.\<close>

lemma stream_up:
  assumes "TcpStream_Init sa fresh_stream = Some (0, s)" "0 \<le> st_listen sa" "0 \<le> st_read sa" "0 \<le> st_write sa"
  shows "s = \<lparr>ss_readStream = Some (st_handle sa), ss_writeSock = st_write sa,
    ss_trace = [FdOpen (st_listen sa), FdOpen (st_read sa), FdOpen (st_write sa), HandleOpen (st_handle sa), FdClose (st_listen sa)]\<rparr>"
  using assms by (auto simp: TcpStream_Init_def fresh_stream_def ss_emit_def fd_open_def fd_close_def Let_def split: if_splits)

lemma loop_stream_closed_once:
  assumes init: "LoopStream_Init sa a \<lparr>ls_socks = fresh_stream, ls_loop = False, ls_tcp = None, ls_thread = False\<rparr> = Some (0, c)"
    and fds: "0 \<le> st_listen sa" "0 \<le> st_read sa" "0 \<le> st_write sa" "distinct [st_listen sa, st_read sa, st_write sa]" and hs: "lo_tcp a \<noteq> st_handle sa"
    and owns: "owns = (\<lambda>h. if h = st_handle sa then Some (st_read sa) else if h = lo_tcp a then Some (st_write sa) else None)"
  shows "\<forall>fd \<in> {st_listen sa, st_read sa, st_write sa}. fd_closed owns (ss_trace (ls_socks (LoopStream_Close c))) fd = 1"
proof -
  obtain s where s: "TcpStream_Init sa fresh_stream = Some (0, s)" using init by (auto simp: LoopStream_Init_def Let_def split: Option.bind_splits if_splits)
  note up = stream_up [OF s fds(1-3)]
  have "c = \<lparr>ls_socks = s\<lparr>ss_writeSock := -1, ss_trace := ss_trace s @ [HandleOpen (lo_tcp a)]\<rparr>, ls_loop = True, ls_tcp = Some (lo_tcp a), ls_thread = True\<rparr>"
    using init s by (auto simp: LoopStream_Init_def Let_def ls_emit_def ss_emit_def split: if_splits)
  then have "ss_trace (ls_socks (LoopStream_Close c))
      = ss_trace s @ [HandleOpen (lo_tcp a), HandleClose (lo_tcp a), HandleClose (st_handle sa)]"
    unfolding up by (simp add: LoopStream_Close_def TcpStream_Close_def ls_emit_def ss_emit_def)
  then show ?thesis using fds(4) hs by (auto simp: up owns fd_closed_def)
qed

end
