(* ===== verification/Spec2Isabelle.thy ===== *)
theory Spec2Isabelle
  imports Conn_Info Stream_Sync Port_List Ack_Pool Server_Net Handler Net_Conn Net_Group R_Conn Raw_Tcp App_Conns Route_Service Client_Net Server_Group Config Capture Md5 Btm_Udp Sync_Conn Sock_App Bridge Local_Sock Json11
begin

text \<open>
  \<^bold>\<open>rsock\<close> carries the UDP traffic of applications over several pipes between two machines: raw TCP
  segments that look like established connections, and plain UDP. This development models the
  program's own C and C++ code, file by file, and proves that its parts and their composition do what they are for.

  \<^bold>\<open>The program and how its parts interact.\<close> An application on the client sends UDP to the client
  group (\<open>client/ClientGroup.cpp\<close>), which gives every sender a conversation number and hands the
  data to a group of network connections (\<open>conn/INetGroup.cpp\<close>). The packet layer (\<open>conn/RConn.cpp\<close>) puts a
  hash and a header in front and sends the packet through a UDP socket (\<open>conn/BtmUdpConn.cpp\<close>) or as a
  raw TCP segment (\<open>conn/RawTcp.cpp\<close>). On the other side libpcap (\<open>cap/RCap.cpp\<close>) captures the segment in
  a thread of its own, \<open>RawTcp\<close> parses it and passes it to the event loop over a pair of sockets
  (\<open>src/sync\<close>), the packet layer checks it, and the server group (\<open>server/ServerGroup.cpp\<close>) finds the group of the
  client and the socket towards the target. The kernel's own TCP connections, which give the segments
  their numbers, are dialled and kept by the network managers (\<open>client/ClientNetManager.cpp\<close>,
  \<open>server/ServerNetManager.cpp\<close>); the numbers of a handshake reach them through the pool of
  captured handshakes (\<open>net/TcpAckPool.cpp\<close>). Keep-alive and resets (\<open>callbacks\<close>) notice dead peers, services
  (\<open>src/service\<close>) provide timers and watch the network, the configuration (\<open>bean/RConfig.cpp\<close>) comes from
  the command line or a JSON file, and \<open>src/ISockApp.cpp\<close> starts and stops everything.

  \<^bold>\<open>Theories and sources.\<close> State is a record with the fields of the class, an operation is a function
  with the name of the method, errors and failed assertions are \<open>None\<close> or the left side of a sum, and an access
  out of a buffer is \<open>None\<close> too.

  \<^item> \<open>Rsock_Prelude\<close> holds the machine integers, buffers with checked access and shared lemmas; \<open>Dec_String\<close>
    decimal numbers; \<open>Std_Map\<close> the ordered map of C++ over any comparator.
  \<^item> \<open>Enc\<close> and \<open>Enc_Head\<close> (\<open>util/enc.c\<close>, \<open>bean/EncHead.cpp\<close>, \<open>src/util/KeyGenerator.cpp\<close>): integers and the
    header on the wire; \<open>Conn_Info\<close> (\<open>bean/ConnInfo.cpp\<close>, \<open>bean/TcpInfo.cpp\<close>): records of connections, their codec and keys.
  \<^item> \<open>Stream_Sync\<close> (\<open>src/sync/TcpStreamSyncConn.cpp\<close>): framing and reassembly over a byte stream; \<open>Sync_Conn\<close>
    (\<open>src/sync/ISyncConn.cpp\<close>, \<open>src/os/unix/conn/UnixDgramSyncConn.cpp\<close>): the datagram pair used on Unix and the
    set-up of both. \<open>SyncConnFactory\<close> creates the first on Windows and the second on Unix.
  \<^item> \<open>Port_List\<close> (\<open>util/RPortList.cpp\<close>), \<open>Ack_Pool\<close> (\<open>net/TcpAckPool.cpp\<close>), \<open>Server_Net\<close> (\<open>net/TcpListenPool.cpp\<close>,
    \<open>server/ServerNetManager.cpp\<close>), \<open>Client_Net\<close> (\<open>client/ClientNetManager.cpp\<close>, \<open>net/NetUtil.cpp\<close>, \<open>client/CConnErrHandler.cpp\<close>).
  \<^item> \<open>Handler\<close> (\<open>util/Handler.cpp\<close>): messages and delayed tasks; \<open>Services\<close> and \<open>Route_Service\<close> (\<open>src/service\<close>,
    \<open>src/singletons\<close>): observers, timers, the watch on the network.
  \<^item> \<open>Net_Conn\<close> and \<open>Net_Group\<close> (\<open>conn/IConn.cpp\<close>, \<open>INetConn.cpp\<close>, \<open>FakeTcp.cpp\<close>, \<open>FakeUdp.cpp\<close>, \<open>IGroup.cpp\<close>,
    \<open>INetGroup.cpp\<close>): connections and their groups over a heap of objects, so that a dangling pointer is an object that is no longer there.
  \<^item> \<open>R_Conn\<close> (\<open>conn/RConn.cpp\<close>, \<open>util/rhash.cpp\<close>): packets; \<open>Md5\<close> (\<open>thirdparty/md5.c\<close>): the digest
    they are checked with; \<open>Raw_Tcp\<close> (\<open>conn/RawTcp.cpp\<close>), \<open>Capture\<close> (\<open>cap/RCap.cpp\<close>, \<open>cap/cap_util.cpp\<close>),
    \<open>Btm_Udp\<close> (\<open>conn/BtmUdpConn.cpp\<close>): the bottom.
  \<^item> \<open>App_Group\<close> and \<open>App_Conns\<close> (\<open>conn/IAppGroup.cpp\<close>, \<open>callbacks/NetConnKeepAlive.cpp\<close>, \<open>callbacks/ConnReset.cpp\<close>,
    \<open>client/ClientGroup.cpp\<close>, \<open>server/SubGroup.cpp\<close>, \<open>conn/CConn.cpp\<close>, \<open>server/SConn.cpp\<close>), \<open>Server_Group\<close>
    (\<open>server/ServerGroup.cpp\<close>, \<open>server/SNetGroup.cpp\<close>): the groups of applications.
  \<^item> \<open>Bridge\<close> (\<open>client/CSockApp.cpp\<close>, \<open>server/SSockApp.cpp\<close>): how the two programs put these parts together at
    the start, and the way of a first datagram from the application to the socket.
  \<^item> \<open>Local_Sock\<close> (\<open>client/ClientGroup.cpp\<close>, \<open>util/rsutil.cpp\<close>, \<open>src/app\<close>): the sockets on which applications reach the
    client, the observers a group registers, and that closing gives everything back.
  \<^item> \<open>Json11\<close> (\<open>thirdparty/json11.cpp\<close>) and \<open>Config\<close> (\<open>bean/RConfig.cpp\<close>): JSON texts and the configuration;
    \<open>Sock_App\<close> (\<open>src/ISockApp.cpp\<close>, \<open>src/singletons/Singleton.cpp\<close>, the two applications): start and end.

  \<^bold>\<open>What the lemmas show.\<close> Of the way of a packet: nothing is lost, reordered or doubled between the
  capture thread and the event loop, however the kernel cuts the stream (this theory, \<open>Stream_Sync\<close>,
  \<open>Sync_Conn\<close>); the packet layer gives back what was sent to it, and no input
  makes a decoder leave its buffer (\<open>R_Conn\<close>, \<open>Md5\<close>, \<open>Enc_Head\<close>); answers find the application that
  asked, and the groups of clients do not disturb each other (\<open>App_Conns\<close>, \<open>Server_Group\<close>).
  Of resources: sockets, dials, handshakes, messages, libnet contexts, capture handles and the parts of the
  application are neither lost nor released twice (\<open>Server_Net\<close>, \<open>Client_Net\<close>, \<open>Ack_Pool\<close>, \<open>Handler\<close>,
  \<open>Raw_Tcp\<close>, \<open>Capture\<close>, \<open>Local_Sock\<close>, \<open>Sock_App\<close>), and groups hold no dangling connection (\<open>Net_Group\<close>). Of time: a
  silent peer is closed after a fixed number of requests and an answering one never, a due dial connects,
  intervals stay bounded (\<open>App_Group\<close>, \<open>Client_Net\<close>, \<open>Route_Service\<close>). Of input and output of texts: port lists,
  JSON values and configurations are read back as they are printed, and a configuration that is accepted is well-formed.
  Where the code does not do what it means to, a lemma states what it does, such as \<open>large_packets_lost\<close> below.

  \<^bold>\<open>Interfaces.\<close> \<open>strict_weak_order\<close> and \<open>strict_total_order\<close> (\<open>Std_Map\<close>) are what a comparator owes to the
  map, interpreted on \<open>TcpCmpFn\<close> and on linear orders; \<open>expiring_map\<close> (\<open>Ack_Pool\<close>) is a map with
  entries that expire, interpreted on the handshake pool and on the server's sockets; \<open>observer_registry\<close>
  (\<open>Services\<close>) is a registry that clients may change while it is used, interpreted on \<open>IService\<close> and \<open>TimerService\<close>;
  \<open>incremental_hash\<close> (\<open>Md5\<close>) is a digest fed in pieces, interpreted on the code of \<open>md5.c\<close> with RFC 1321 as the reference.

  \<^bold>\<open>Loops, bounds and fuel.\<close> Loops over data are structural or have a measure: the text or the bytes that are left
  (\<open>drain\<close>, \<open>scan_ports\<close>, \<open>dst_loop\<close>, \<open>md5_body_loop\<close>, \<open>consume_comments\<close>), the size that is halved
  (\<open>good_size_loop\<close>), the gap of two indices (\<open>move_front\<close>). Two have fuel: \<open>next_free\<close> looks for a
  free time stamp with one more step than the map has entries, and among that many stamps one is free; the JSON
  parser has twice the length of the text and one step, and every value and every turn of a loop takes a character.
  Both are shown to suffice. Integers keep their width; time stamps are 64 bits wide and the bounds on them that
  a lemma needs are its hypotheses.

  \<^bold>\<open>Assumptions.\<close> The build does not define \<open>NDEBUG\<close>, so assertions are active. Byte order is a parameter
  of the codec. Libraries whose code is not part of the repository (libuv, libnet, libpcap, libdnet), the system calls and
  floating point arithmetic are arguments of the definitions that use them.

  \<^bold>\<open>Not modelled.\<close> \<open>include/args.hxx\<close> and \<open>include/plog\<close> are third-party code for the command line and for logging, which
  decides nothing; what args finds is an argument of \<open>Config\<close>. Of json11 the comparison of values, \<open>parse_multi\<close> and \<open>has_shape\<close> are
  not called. Daemonising and single system calls behind a wrapper are left out.
  The headers of libraries, the platform's \<open>os\<close> directory apart from what is named above, and the tests are left out.
\<close>

section \<open>From the wire to the event loop\<close>

text \<open>
  \<open>captured rt pkt r\<close>: the frame \<open>pkt\<close> holds a TCP segment that \<open>RawTcp\<close> hands on, and \<open>r\<close> is its
  connection, with the sequence number advanced by the payload, and its payload.
\<close>

definition captured :: "raw_tcp \<Rightarrow> byte list \<Rightarrow> tcp_info \<times> byte list \<Rightarrow> bool" where
  "captured rt pkt r \<longleftrightarrow> 44 \<le> length pkt \<and> (\<exists>ip info q n. find_ip True rt pkt = Some (Inr ip) \<and> get8 pkt (ip + 9) = Some IPPROTO_TCP
     \<and> parse_tcp True pkt ip = Some (info, q, n) \<and> 0 \<le> n \<and> n \<le> 1468 \<and> q + nat n \<le> length pkt
     \<and> ti_flag info AND TH_SYN = 0 \<and> (9 \<le> n \<or> HasCloseFlag info)
     \<and> r = (info\<lparr>ti_seq := ti_seq info + of_int n, ci_head := None\<rparr>, take (nat n) (drop q pkt)))"

text \<open>What the event loop does with a message of the stream: decode it and pass it on, here to a log.\<close>

definition loop_recv :: "(tcp_info \<times> byte list) option option list sync_cb" where
  "loop_recv w s = (int (length w), s @ [syncInput True w])"

lemma deliver_loop_recv: "deliver loop_recv ms s = s @ map (syncInput True) ms"
  by (induction ms arbitrary: s) (simp_all add: loop_recv_def)

lemma captured_message:
  assumes "captured rt pkt r" "rt_syncConn rt"
  shows "\<exists>w. RawInput True rt pool now (length pkt) pkt = Some (SyncSend w, pool) \<and> sendable w \<and> syncInput True w = Some (Some r)"
proof -
  obtain ip info q n where c: "find_ip True rt pkt = Some (Inr ip)" "get8 pkt (ip + 9) = Some IPPROTO_TCP"
    "parse_tcp True pkt ip = Some (info, q, n)" "0 \<le> n" "n \<le> 1468" "q + nat n \<le> length pkt" "ti_flag info AND TH_SYN = 0" "9 \<le> n \<or> HasCloseFlag info"
    "r = (info\<lparr>ti_seq := ti_seq info + of_int n, ci_head := None\<rparr>, take (nat n) (drop q pkt))" "44 \<le> length pkt"
    using assms(1) unfolding captured_def by blast
  have "n \<le> 65535" "pool = None \<or> ti_flag info AND TH_SYN = 0" using c(5,7) by auto
  note w = RawInput_record [OF c(10,1-4) this(1) c(6) assms(2) this(2) c(8)]
  show ?thesis using w(1) w(2) [OF c(5)] c(5,9) syncInput_record [of True "info\<lparr>ti_seq := ti_seq info + of_int n\<rparr>" "take (nat n) (drop q pkt)"] by auto
qed

lemma captured_messages:
  assumes "list_all2 (captured rt) pkts rs" "rt_syncConn rt"
  shows "\<exists>ws. list_all2 (\<lambda>pkt w. RawInput True rt pool now (length pkt) pkt = Some (SyncSend w, pool)) pkts ws
      \<and> list_all sendable ws \<and> map (syncInput True) ws = map (Some \<circ> Some) rs"
  using assms(1)
proof (induction rule: list_all2_induct)
  case (Cons pkt pkts r rs)
  then obtain w ws where "RawInput True rt pool now (length pkt) pkt = Some (SyncSend w, pool)" "sendable w" "syncInput True w = Some (Some r)"
    "list_all2 (\<lambda>pkt w. RawInput True rt pool now (length pkt) pkt = Some (SyncSend w, pool)) pkts ws" "list_all sendable ws"
    "map (syncInput True) ws = map (Some \<circ> Some) rs" using captured_message [OF Cons(1) assms(2)] by blast
  then show ?case by (intro exI [of _ "w # ws"]) simp
qed simp

text \<open>
  C1: Captured segments reach the event loop complete, in order and exactly once. Each frame
  that \<open>RawTcp::RawInput\<close> hands on becomes one message of the loop-back stream, which accepts it; however the kernel cuts
  the bytes of these messages into reads, \<open>streamCb\<close> and \<open>rawInput\<close> deliver them one by one and
  \<open>syncInput\<close> gives back the connection and the payload of every frame, without an access
  out of range and with nothing left over.
\<close>
theorem capture_to_event_loop:
  assumes "list_all2 (captured rt) pkts rs" and "rt_syncConn rt"
  shows "\<exists>ws. list_all2 (\<lambda>pkt w. RawInput True rt pool now (length pkt) pkt = Some (SyncSend w, pool)) pkts ws
    \<and> (\<forall>w \<in> set ws. stream_Send True (int (length w)) w = Some (frame True w))
    \<and> (\<forall>xs. concat xs = concat (map (frame True) ws) \<and> list_all (\<lambda>x. length x \<le> RSOCK_UV_MAX_BUF) xs \<longrightarrow>
         (\<exists>c. feed True loop_recv new_stream_conn xs [] = Some (c, map (Some \<circ> Some) rs) \<and> pending True c = []))"
proof -
  obtain ws where ws: "list_all2 (\<lambda>pkt w. RawInput True rt pool now (length pkt) pkt = Some (SyncSend w, pool)) pkts ws"
    "list_all sendable ws" "map (syncInput True) ws = map (Some \<circ> Some) rs"
    using captured_messages [OF assms] by blast
  have "\<exists>c. feed True loop_recv new_stream_conn xs [] = Some (c, map (Some \<circ> Some) rs) \<and> pending True c = []"
    if xs: "concat xs = concat (map (frame True) ws)" "list_all (\<lambda>x. length x \<le> RSOCK_UV_MAX_BUF) xs" for xs
    using feed_delivers [OF new_stream_conn_wf(1) ws(2) xs(2), of True loop_recv "[]"] xs(1) ws(3) by (auto simp: deliver_loop_recv new_stream_conn_wf)
  moreover have "\<forall>w \<in> set ws. stream_Send True (int (length w)) w = Some (frame True w)"
    using ws(2) by (auto simp: list_all_iff sendable_Send)
  ultimately show ?thesis using ws(1) by blast
qed

lemma sample_captured: "captured sample_raw sample_frame (sample_info\<lparr>ti_seq := 10, ci_head := None\<rparr>, [1, 2, 3, 4, 5, 6, 7, 8, 9])"
  unfolding captured_def
  by (intro conjI exI [of _ 14] exI [of _ sample_info] exI [of _ 54] exI [of _ 9] sample_parse) (simp_all add: sample_frame_def sample_info_def TH_SYN_def)

theorem capture_to_event_loop_witness:
  "\<exists>ws. list_all2 (\<lambda>pkt w. RawInput True sample_raw None 0 (length pkt) pkt = Some (SyncSend w, None)) [sample_frame, sample_frame] ws
    \<and> (\<forall>w \<in> set ws. stream_Send True (int (length w)) w = Some (frame True w))
    \<and> (\<forall>xs. concat xs = concat (map (frame True) ws) \<and> list_all (\<lambda>x. length x \<le> RSOCK_UV_MAX_BUF) xs \<longrightarrow>
         (\<exists>c. feed True loop_recv new_stream_conn xs [] = Some (c, replicate 2 (Some (Some (sample_info\<lparr>ti_seq := 10, ci_head := None\<rparr>, [1, 2, 3, 4, 5, 6, 7, 8, 9])))) \<and> pending True c = []))"
  using capture_to_event_loop [of sample_raw "[sample_frame, sample_frame]" "replicate 2 (sample_info\<lparr>ti_seq := 10, ci_head := None\<rparr>, [1, 2, 3, 4, 5, 6, 7, 8, 9])" None 0]
    sample_captured by (simp add: numeral_eq_Suc sample_raw_def)

lemma fold_loop_recv: "fold (\<lambda>d s. snd (loop_recv d s)) ms s = s @ map (syncInput True) ms"
  by (induction ms arbitrary: s) (simp_all add: loop_recv_def)



text \<open>
  The two limits do not fit together: \<open>RConn::Output\<close> accepts payloads of up to 1469 bytes, which
  give packets of 1500 bytes, but \<open>RawTcp::cap2uv\<close> of the receiver drops segments of more than 1468
  bytes, so payloads of 1438 to 1469 bytes never arrive over TCP.
\<close>

lemma large_packets_lost:
  assumes "head_wf head" "1438 \<le> length b" "length b \<le> 1469"
  shows "\<exists>pkt. build_packet True rfc_md5 key head b = Some pkt \<and> cap2uv le rt info seg q (int (length pkt)) = Some (Ret 0)"
proof -
  have ne: "b \<noteq> []" using assms(2) by auto
  define pkt where "pkt = md5_tail rfc_md5 key b @ head_bytes (head\<lparr>eh_len := 23\<rparr>) @ b"
  have built: "build_packet True rfc_md5 key head b = Some pkt"
    using build_packet_layout [OF length_rfc_md5 assms(1) ne] assms(3) by (simp add: pkt_def)
  have "head_wf (head\<lparr>eh_len := 23\<rparr>)" using assms(1) by (simp add: head_wf_def)
  then have "length pkt = 31 + length b" using length_md5_tail [of rfc_md5 key b] by (simp add: pkt_def length_head_bytes)
  then have "1469 \<le> length pkt" "length pkt \<le> 1500" using assms(2,3) by simp_all
  then have "(of_int (int (length pkt)) + 32 :: u64) > of_nat OM_MAX_PKT_SIZE"
    by (simp add: word_less_nat_alt unat_word_ariths unat_of_nat OM_MAX_PKT_SIZE_def)
  then show ?thesis using built by (intro exI [of _ pkt]) (simp add: cap2uv_def)
qed

end
